(* ===== verification/Mux_Prelude.thy ===== *)
theory Mux_Prelude
  imports Main "HOL-Library.Word" "HOL-Library.AList" "HOL-Library.Sublist"
begin

text \<open>
  Shared material of the development: machine types, the containers and the string
  operations of the Rust standard library that the sources use.

  \<^item> \<open>HashMap\<close> is an association list with distinct keys (\<open>hm_wf\<close>); the list order stands
    for the iteration order, which the language leaves open. The interface the components
    rely on is the locale \<open>hash_map\<close>, interpreted on the list operations below.
  \<^item> \<open>HashSet\<close> is a list without duplicates.
  \<^item> A \<open>str\<close> is the list of its UTF-8 bytes (\<open>string\<close>). Byte-wise \<open>starts_with\<close>,
    \<open>ends_with\<close> and \<open>find\<close> agree with Rust's on valid UTF-8 because UTF-8 is
    self-synchronising, and \<open>trim\<close> strips the encodings of all of Unicode's white space.
  \<^item> \<open>Instant\<close> and \<open>Duration\<close> are natural numbers (milliseconds); \<open>duration_since\<close>
    saturates at 0, as the subtraction of natural numbers does.
\<close>

section \<open>Collections of the development\<close>

named_theorems mux_simps \<open>definitions of the components, for unfolding in their proofs\<close>
named_theorems inv_intros \<open>preservation of the components' invariants\<close>

section \<open>Types\<close>

type_synonym u8 = "8 word"
type_synonym u32 = "32 word"
type_synonym u64 = "64 word"
type_synonym client_id = u64
type_synonym instant = nat
type_synonym duration = nat

lemma unat_u32_less: "unat (w :: u32) < 2 ^ 32"
  by (rule order.strict_trans2 [OF unsigned_less]) simp

section \<open>Hash maps\<close>

type_synonym ('k, 'v) hmap = "('k \<times> 'v) list"

definition hm_get :: "('k, 'v) hmap \<Rightarrow> 'k \<Rightarrow> 'v option" where
  "hm_get m k = map_of m k"

definition hm_insert :: "'k \<Rightarrow> 'v \<Rightarrow> ('k, 'v) hmap \<Rightarrow> ('k, 'v) hmap" where
  "hm_insert k v m = AList.update k v m"

definition hm_remove :: "'k \<Rightarrow> ('k, 'v) hmap \<Rightarrow> ('k, 'v) hmap" where
  "hm_remove k m = AList.delete k m"

definition hm_retain :: "('k \<Rightarrow> 'v \<Rightarrow> bool) \<Rightarrow> ('k, 'v) hmap \<Rightarrow> ('k, 'v) hmap" where
  "hm_retain P m = filter (\<lambda>(k, v). P k v) m"

definition hm_wf :: "('k, 'v) hmap \<Rightarrow> bool" where
  "hm_wf m = distinct (map fst m)"

text \<open>
  The contract of a hash map: what a lookup returns after an insert, a removal and a
  \<open>retain\<close>, and that its length counts the keys that are present.
\<close>

locale hash_map =
  fixes get :: "'m \<Rightarrow> 'k \<Rightarrow> 'v option"
    and put :: "'k \<Rightarrow> 'v \<Rightarrow> 'm \<Rightarrow> 'm"
    and del :: "'k \<Rightarrow> 'm \<Rightarrow> 'm"
    and retain :: "('k \<Rightarrow> 'v \<Rightarrow> bool) \<Rightarrow> 'm \<Rightarrow> 'm"
    and len :: "'m \<Rightarrow> nat"
    and wf :: "'m \<Rightarrow> bool"
  assumes get_put: "get (put k v m) j = (if j = k then Some v else get m j)"
    and get_del: "get (del k m) j = (if j = k then None else get m j)"
    and get_retain: "wf m \<Longrightarrow> get (retain P m) k =
          (case get m k of None \<Rightarrow> None | Some v \<Rightarrow> if P k v then Some v else None)"
    and len_get: "wf m \<Longrightarrow> len m = card {k. \<exists>v. get m k = Some v}"
    and finite_keys: "finite {k. \<exists>v. get m k = Some v}"
    and wf_put: "wf m \<Longrightarrow> wf (put k v m)"
    and wf_del: "wf m \<Longrightarrow> wf (del k m)"
    and wf_retain: "wf m \<Longrightarrow> wf (retain P m)"
begin

lemma get_put_same: "get (put k v m) k = Some v"
  by (simp add: get_put)

lemma get_put_other: "j \<noteq> k \<Longrightarrow> get (put k v m) j = get m j"
  by (simp add: get_put)

lemma get_del_put: "get m k = None \<Longrightarrow> get (del k (put k v m)) j = get m j"
  by (simp add: get_put get_del)

lemma len_put_fresh:
  assumes "wf m" and "get m k = None"
  shows "len (put k v m) = Suc (len m)"
proof -
  have "{j. \<exists>w. get (put k v m) j = Some w} = insert k {j. \<exists>w. get m j = Some w}"
    by (auto simp: get_put)
  then show ?thesis
    using assms by (simp add: len_get wf_put finite_keys)
qed

lemma len_del_present:
  assumes "wf m" and "get m k = Some v"
  shows "Suc (len (del k m)) = len m"
proof -
  have eq: "{j. \<exists>w. get (del k m) j = Some w} = {j. \<exists>w. get m j = Some w} - {k}"
    by (auto simp: get_del)
  have "k \<in> {j. \<exists>w. get m j = Some w}" using assms(2) by simp
  then have "Suc (card ({j. \<exists>w. get m j = Some w} - {k})) = card {j. \<exists>w. get m j = Some w}"
    by (rule card_Suc_Diff1 [OF finite_keys])
  then show ?thesis
    by (simp add: len_get assms(1) wf_del eq)
qed

lemma len_retain_le: "wf m \<Longrightarrow> len (retain P m) \<le> len m"
  unfolding len_get[OF wf_retain] len_get
  by (intro card_mono finite_keys) (auto simp: get_retain split: option.splits)

text \<open>What \<open>retain\<close> drops is what the predicate rejects.\<close>

lemma len_retain_dropped:
  assumes "wf m"
  shows "len m - len (retain P m) = card {k. \<exists>v. get m k = Some v \<and> \<not> P k v}"
proof -
  have sub: "{k. \<exists>v. get (retain P m) k = Some v} \<subseteq> {k. \<exists>v. get m k = Some v}"
    by (auto simp: get_retain[OF assms] split: option.splits)
  have "len m - len (retain P m)
      = card ({k. \<exists>v. get m k = Some v} - {k. \<exists>v. get (retain P m) k = Some v})"
    using sub assms by (simp add: len_get wf_retain card_Diff_subset finite_keys)
  also have "{k. \<exists>v. get m k = Some v} - {k. \<exists>v. get (retain P m) k = Some v}
      = {k. \<exists>v. get m k = Some v \<and> \<not> P k v}"
    by (auto simp: get_retain[OF assms] split: option.splits if_splits)
  finally show ?thesis .
qed

end

lemma map_of_filter_distinct:
  "distinct (map fst m) \<Longrightarrow> map_of (filter (\<lambda>(k, v). P k v) m) k =
     (case map_of m k of None \<Rightarrow> None | Some v \<Rightarrow> if P k v then Some v else None)"
proof (induction m)
  case Nil
  then show ?case by simp
next
  case (Cons kv m)
  then have "map_of m (fst kv) = None"
    by (auto simp: map_of_eq_None_iff)
  with Cons show ?case
    by (cases kv) (auto split: option.splits)
qed

lemma map_of_Some_keys: "{k. \<exists>v. map_of m k = Some v} = fst ` set m"
proof -
  have "(\<exists>v. map_of m k = Some v) = (k \<in> fst ` set m)" for k
    using map_of_eq_None_iff[of m k] by (metis option.exhaust option.distinct(1))
  then show ?thesis by auto
qed

interpretation hm: hash_map hm_get hm_insert hm_remove hm_retain length hm_wf
proof unfold_locales
  fix m :: "('a, 'b) hmap" and P k
  show "hm_wf m \<Longrightarrow> hm_get (hm_retain P m) k =
      (case hm_get m k of None \<Rightarrow> None | Some v \<Rightarrow> if P k v then Some v else None)"
    by (simp add: hm_wf_def hm_get_def hm_retain_def map_of_filter_distinct)
  show "hm_wf m \<Longrightarrow> length m = card {k. \<exists>v. hm_get m k = Some v}"
    unfolding hm_get_def map_of_Some_keys hm_wf_def
    using distinct_card[of "map fst m"] by simp
  show "hm_wf m \<Longrightarrow> hm_wf (hm_retain P m)"
    by (auto simp: hm_wf_def hm_retain_def distinct_map inj_on_def)
qed (auto simp: hm_get_def hm_insert_def hm_remove_def hm_wf_def update_conv'
      delete_conv' distinct_update distinct_delete map_of_Some_keys)

lemma hm_wf_Nil [simp]: "hm_wf []"
  by (simp add: hm_wf_def)

lemma hm_get_Nil [simp]: "hm_get [] k = None"
  by (simp add: hm_get_def)

lemma hm_insert_not_Nil [simp]: "hm_insert k v m \<noteq> []"
  by (simp add: hm_insert_def)

lemma hm_get_set: "hm_wf m \<Longrightarrow> (hm_get m k = Some v) = ((k, v) \<in> set m)"
  by (simp add: hm_wf_def hm_get_def)

lemma hm_get_SomeD: "hm_get m k = Some v \<Longrightarrow> (k, v) \<in> set m"
  by (simp add: hm_get_def map_of_SomeD)

lemma hm_get_None_keys: "(hm_get m k = None) = (k \<notin> fst ` set m)"
  by (simp add: hm_get_def map_of_eq_None_iff)

lemmas hm_get_simps [simp] = hm.get_put hm.get_del
lemmas hm_wf_intros [simp, intro] = hm.wf_put hm.wf_del hm.wf_retain

lemma hm_remove_insert_absent: "hm_get m k = None \<Longrightarrow> hm_remove k (hm_insert k v m) = m"
  by (simp add: hm_get_None_keys hm_remove_def hm_insert_def delete_update_same)

lemma hm_insert_same: "hm_get m k = Some v \<Longrightarrow> hm_insert k v m = m"
  by (simp add: hm_get_def hm_insert_def update_triv)

lemma hm_insert_insert [simp]: "hm_insert k v (hm_insert k w m) = hm_insert k v m"
  by (simp add: hm_insert_def)

section \<open>Hash sets\<close>

definition hs_remove :: "'a \<Rightarrow> 'a list \<Rightarrow> 'a list" where
  "hs_remove x xs = filter (\<lambda>y. y \<noteq> x) xs"

definition hs_collect :: "'a list \<Rightarrow> 'a list" where
  "hs_collect xs = fold List.insert xs []"

lemma set_hs_remove [simp]: "set (hs_remove x xs) = set xs - {x}"
  by (auto simp: hs_remove_def)

lemma distinct_hs_remove [simp]: "distinct xs \<Longrightarrow> distinct (hs_remove x xs)"
  by (simp add: hs_remove_def)

lemma set_fold_insert: "set (fold List.insert xs ys) = set xs \<union> set ys"
  by (induction xs arbitrary: ys) auto

lemma distinct_fold_insert: "distinct ys \<Longrightarrow> distinct (fold List.insert xs ys)"
  by (induction xs arbitrary: ys) auto

lemma set_hs_collect [simp]: "set (hs_collect xs) = set xs"
  by (simp add: hs_collect_def set_fold_insert)

lemma distinct_hs_collect [simp]: "distinct (hs_collect xs)"
  by (simp add: hs_collect_def distinct_fold_insert)

end
