(* ===== verification/Rust_Strings.thy ===== *)
theory Rust_Strings
  imports Mux_Prelude
begin

text \<open>
  The operations on \<open>str\<close>, \<open>u8\<close> and \<open>u32\<close> of the Rust standard library that the sources
  call: \<open>trim\<close>, \<open>find\<close>, \<open>strip_prefix\<close>, \<open>replace\<close>, \<open>parse\<close> and \<open>to_string\<close>, with the laws
  the components need (what trimming keeps, where \<open>find\<close> stops, that parsing a printed
  number gives it back).
\<close>

section \<open>Prefixes, suffixes, search\<close>

abbreviation starts_with :: "string \<Rightarrow> string \<Rightarrow> bool" where
  "starts_with s p \<equiv> prefix p s"

abbreviation ends_with :: "string \<Rightarrow> string \<Rightarrow> bool" where
  "ends_with s p \<equiv> suffix p s"

definition strip_prefix :: "string \<Rightarrow> string \<Rightarrow> string option" where
  "strip_prefix s p = (if starts_with s p then Some (drop (length p) s) else None)"

fun find_char :: "char \<Rightarrow> string \<Rightarrow> nat option" where
  "find_char c [] = None"
| "find_char c (d # s) = (if d = c then Some 0 else map_option Suc (find_char c s))"

lemma strip_prefix_append [simp]: "strip_prefix (p @ s) p = Some s"
  by (simp add: strip_prefix_def)

lemma strip_prefix_Some: "strip_prefix s p = Some r \<longleftrightarrow> s = p @ r"
  by (auto simp: strip_prefix_def prefix_def)

lemma find_char_append [simp]: "c \<notin> set xs \<Longrightarrow> find_char c (xs @ c # ys) = Some (length xs)"
  by (induction xs) auto

lemma find_char_None [simp]: "find_char c s = None \<longleftrightarrow> c \<notin> set s"
  by (induction s) auto

lemma find_char_SomeD:
  "find_char c s = Some i \<Longrightarrow> i < length s \<and> s ! i = c \<and> c \<notin> set (take i s)"
  by (induction s arbitrary: i) (auto split: if_splits)

section \<open>Trimming\<close>

text \<open>The UTF-8 encodings of the characters with Unicode's \<open>White_Space\<close> property.\<close>

definition white_space :: "string list" where
  "white_space =
    [[CHR 0x20], [CHR 0x09], [CHR 0x0A], [CHR 0x0B], [CHR 0x0C], [CHR 0x0D],
     [CHR 0xC2, CHR 0x85], [CHR 0xC2, CHR 0xA0], [CHR 0xE1, CHR 0x9A, CHR 0x80],
     [CHR 0xE2, CHR 0x80, CHR 0x80], [CHR 0xE2, CHR 0x80, CHR 0x81],
     [CHR 0xE2, CHR 0x80, CHR 0x82], [CHR 0xE2, CHR 0x80, CHR 0x83],
     [CHR 0xE2, CHR 0x80, CHR 0x84], [CHR 0xE2, CHR 0x80, CHR 0x85],
     [CHR 0xE2, CHR 0x80, CHR 0x86], [CHR 0xE2, CHR 0x80, CHR 0x87],
     [CHR 0xE2, CHR 0x80, CHR 0x88], [CHR 0xE2, CHR 0x80, CHR 0x89],
     [CHR 0xE2, CHR 0x80, CHR 0x8A], [CHR 0xE2, CHR 0x80, CHR 0xA8],
     [CHR 0xE2, CHR 0x80, CHR 0xA9], [CHR 0xE2, CHR 0x80, CHR 0xAF],
     [CHR 0xE2, CHR 0x81, CHR 0x9F], [CHR 0xE3, CHR 0x80, CHR 0x80]]"

function trim_by :: "string list \<Rightarrow> string \<Rightarrow> string" where
  "trim_by ws s =
     (case find (\<lambda>w. w \<noteq> [] \<and> prefix w s) ws of
        None \<Rightarrow> s
      | Some w \<Rightarrow> trim_by ws (drop (length w) s))"
  by pat_completeness auto
termination
  by (relation "measure (\<lambda>(ws, s). length s)") (auto simp: find_Some_iff prefix_def)

declare trim_by.simps [simp del]

definition trim_start :: "string \<Rightarrow> string" where
  "trim_start s = trim_by white_space s"

definition trim_end :: "string \<Rightarrow> string" where
  "trim_end s = rev (trim_by (map rev white_space) (rev s))"

definition trim :: "string \<Rightarrow> string" where
  "trim s = trim_end (trim_start s)"

text \<open>A plain character occurs in no encoding of white space.\<close>

definition plain :: "char \<Rightarrow> bool" where
  "plain c = (c \<notin> set (concat white_space))"

lemma trim_by_suffix: "suffix (trim_by ws s) s"
proof (induction ws s rule: trim_by.induct)
  case (1 ws s)
  show ?case
  proof (cases "find (\<lambda>w. w \<noteq> [] \<and> prefix w s) ws")
    case None
    then show ?thesis by (simp add: trim_by.simps[of ws s])
  next
    case (Some w)
    then have "suffix (trim_by ws (drop (length w) s)) (drop (length w) s)"
      by (rule "1.IH")
    with Some show ?thesis
      by (simp add: trim_by.simps[of ws s] suffix_order.trans[OF _ suffix_drop])
  qed
qed

lemma length_trim_by: "length (trim_by ws s) \<le> length s"
  by (rule suffix_length_le) (rule trim_by_suffix)

lemma length_trim_start [simp]: "length (trim_start s) \<le> length s"
  by (simp add: trim_start_def length_trim_by)

lemma length_trim_end [simp]: "length (trim_end s) \<le> length s"
  using length_trim_by[of _ "rev s"] by (simp add: trim_end_def)

lemma length_trim [simp]: "length (trim s) \<le> length s"
  unfolding trim_def using length_trim_end[of "trim_start s"] length_trim_start[of s] by linarith

lemma trim_by_Nil [simp]: "trim_by ws [] = []"
  using length_trim_by[of ws "[]"] by simp

lemma trim_Nil [simp]: "trim_start [] = []" "trim_end [] = []" "trim [] = []"
  by (simp_all add: trim_start_def trim_end_def trim_def)

lemma trim_by_plain:
  assumes "c \<notin> set (concat ws)"
  shows "trim_by ws (c # s) = c # s"
proof -
  have "find (\<lambda>w. w \<noteq> [] \<and> prefix w (c # s)) ws = None"
    using assms by (auto simp: find_None_iff prefix_Cons)
  then show ?thesis by (simp add: trim_by.simps[of ws "c # s"])
qed

lemma trim_start_plain [simp]: "plain c \<Longrightarrow> trim_start (c # s) = c # s"
  by (simp add: trim_start_def trim_by_plain plain_def)

lemma trim_end_plain [simp]: "plain c \<Longrightarrow> trim_end (s @ [c]) = s @ [c]"
  by (simp add: trim_end_def trim_by_plain plain_def)

lemma trim_end_all_plain: "list_all plain s \<Longrightarrow> trim_end s = s"
  by (cases s rule: rev_cases) (auto simp: list_all_iff)

lemma trim_all_plain: "list_all plain s \<Longrightarrow> trim s = s"
  by (cases s) (auto simp: trim_def trim_end_all_plain)

text \<open>Nothing that is trimmed is left at the front.\<close>

lemma trim_by_done: "w \<in> set ws \<Longrightarrow> w \<noteq> [] \<Longrightarrow> \<not> prefix w (trim_by ws s)"
proof (induction ws s rule: trim_by.induct)
  case (1 ws s)
  show ?case
  proof (cases "find (\<lambda>w. w \<noteq> [] \<and> prefix w s) ws")
    case None
    then have "trim_by ws s = s" by (simp add: trim_by.simps[of ws s])
    with None "1.prems" show ?thesis by (auto simp: find_None_iff)
  next
    case (Some v)
    then have "trim_by ws s = trim_by ws (drop (length v) s)"
      by (simp add: trim_by.simps[of ws s])
    with Some "1.IH" "1.prems" show ?thesis by simp
  qed
qed

section \<open>Replacement\<close>

definition replace_char :: "char \<Rightarrow> string \<Rightarrow> string \<Rightarrow> string" where
  "replace_char c r s = concat (map (\<lambda>d. if d = c then r else [d]) s)"

text \<open>
  \<open>str::replace\<close>: left to right, without overlaps; an empty pattern matches at every
  character boundary.
\<close>

function replace_nonempty :: "string \<Rightarrow> string \<Rightarrow> string \<Rightarrow> string" where
  "replace_nonempty p r [] = []"
| "replace_nonempty p r (c # s) =
     (if p \<noteq> [] \<and> prefix p (c # s)
      then r @ replace_nonempty p r (drop (length p) (c # s))
      else c # replace_nonempty p r s)"
  by pat_completeness auto
termination
  by (relation "measure (\<lambda>(p, r, s). length s)") (auto simp: prefix_def)

definition replace_str :: "string \<Rightarrow> string \<Rightarrow> string \<Rightarrow> string" where
  "replace_str p r s =
     (if p = [] then r @ concat (map (\<lambda>c. c # r) s) else replace_nonempty p r s)"

section \<open>Numbers\<close>

datatype int_error = EmptyInt | InvalidDigit | PosOverflow

definition to_digit :: "char \<Rightarrow> nat option" where
  "to_digit c = (if 48 \<le> (of_char c :: nat) \<and> of_char c \<le> (57 :: nat)
                 then Some (of_char c - 48) else None)"

fun parse_digits :: "nat \<Rightarrow> nat \<Rightarrow> string \<Rightarrow> int_error + nat" where
  "parse_digits mx acc [] = Inr acc"
| "parse_digits mx acc (c # cs) =
     (case to_digit c of
        None \<Rightarrow> Inl InvalidDigit
      | Some d \<Rightarrow> if acc * 10 > mx then Inl PosOverflow
                  else if acc * 10 + d > mx then Inl PosOverflow
                  else parse_digits mx (acc * 10 + d) cs)"

text \<open>\<open>from_str_radix(10)\<close> of an unsigned type with greatest value \<open>mx\<close>.\<close>

definition parse_unsigned :: "nat \<Rightarrow> string \<Rightarrow> int_error + nat" where
  "parse_unsigned mx s =
     (if s = [] then Inl EmptyInt
      else if s = ''+'' \<or> s = ''-'' then Inl InvalidDigit
      else if hd s = CHR ''+'' then parse_digits mx 0 (tl s)
      else parse_digits mx 0 s)"

definition digit_char :: "nat \<Rightarrow> char" where
  "digit_char d = char_of (48 + d)"

fun show_nat :: "nat \<Rightarrow> string" where
  "show_nat n = (if n < 10 then [digit_char n] else show_nat (n div 10) @ [digit_char (n mod 10)])"

declare show_nat.simps [simp del]

lemma to_digit_digit_char [simp]: "d < 10 \<Longrightarrow> to_digit (digit_char d) = Some d"
  by (simp add: to_digit_def digit_char_def)

lemma to_digit_bound: "to_digit c = Some d \<Longrightarrow> d < 10"
  by (auto simp: to_digit_def split: if_splits)

lemma parse_digits_append:
  "parse_digits mx acc (xs @ ys) =
     (case parse_digits mx acc xs of Inl e \<Rightarrow> Inl e | Inr a \<Rightarrow> parse_digits mx a ys)"
  by (induction xs arbitrary: acc) (auto split: option.splits)

lemma parse_digits_show: "n \<le> mx \<Longrightarrow> parse_digits mx 0 (show_nat n) = Inr n"
proof (induction n rule: show_nat.induct)
  case (1 n)
  show ?case
  proof (cases "n < 10")
    case True
    with "1.prems" show ?thesis by (simp add: show_nat.simps[of n])
  next
    case False
    then have "parse_digits mx 0 (show_nat (n div 10)) = Inr (n div 10)"
      using "1.prems" by (intro "1.IH") auto
    with False "1.prems" show ?thesis
      by (simp add: show_nat.simps[of n] parse_digits_append)
  qed
qed

lemma show_nat_digits: "c \<in> set (show_nat n) \<Longrightarrow> \<exists>d<10. c = digit_char d"
proof (induction n rule: show_nat.induct)
  case (1 n)
  then show ?case
    by (cases "n < 10") (auto simp: show_nat.simps[of n] intro: exI[of _ "n mod 10"])
qed

lemma show_nat_nonempty [simp]: "show_nat n \<noteq> []"
  by (subst show_nat.simps) simp

lemma digit_char_neq_sign:
  "d < 10 \<Longrightarrow> digit_char d \<noteq> CHR ''+''" "d < 10 \<Longrightarrow> digit_char d \<noteq> CHR ''-''"
  by (auto simp: digit_char_def dest!: arg_cong[where f = "of_char :: char \<Rightarrow> nat"])

lemma parse_unsigned_show:
  assumes "n \<le> mx"
  shows "parse_unsigned mx (show_nat n) = Inr n"
proof -
  have "hd (show_nat n) \<in> set (show_nat n)" by simp
  then obtain d where d: "d < 10" "hd (show_nat n) = digit_char d"
    using show_nat_digits by blast
  then have "hd (show_nat n) \<noteq> CHR ''+''" "hd (show_nat n) \<noteq> CHR ''-''"
    by (simp_all add: digit_char_neq_sign)
  then have "show_nat n \<noteq> ''+''" "show_nat n \<noteq> ''-''" by auto
  with \<open>hd (show_nat n) \<noteq> CHR ''+''\<close> show ?thesis
    by (simp add: parse_unsigned_def parse_digits_show assms)
qed

lemma show_nat_inject [simp]: "show_nat m = show_nat n \<longleftrightarrow> m = n"
proof
  assume "show_nat m = show_nat n"
  then have "parse_digits (max m n) 0 (show_nat m) = parse_digits (max m n) 0 (show_nat n)"
    by simp
  then show "m = n" by (simp add: parse_digits_show)
qed simp

lemma parse_digits_bound: "acc \<le> mx \<Longrightarrow> parse_digits mx acc s = Inr n \<Longrightarrow> n \<le> mx"
  by (induction s arbitrary: acc) (auto simp: not_less split: option.splits if_splits)

lemma parse_unsigned_bound: "parse_unsigned mx s = Inr n \<Longrightarrow> n \<le> mx"
  by (auto simp: parse_unsigned_def split: if_splits dest!: parse_digits_bound[rotated])

end
