(* ===== verification/Mux_Errors.thy ===== *)
theory Mux_Errors
  imports Rust_Strings
begin

text \<open>
  The error types of \<open>error.rs\<close> and their \<open>Display\<close> texts, which reach clients inside D-Bus
  error replies. Errors of the standard library and of zbus are known by the kind the program
  tests and by their own \<open>Display\<close> text.
\<close>

datatype io_kind = UnexpectedEof | InvalidInput | WriteZero | InvalidDataKind | OtherKind

datatype io_error = IoError (io_kind_of: io_kind) (io_text: string)

datatype zbus_error =
    MethodError (method_error_name: string) (zbus_text: string)
  | OtherZbusError (zbus_text: string)

datatype auth_error =
    UnsupportedMechanism string
  | ExpectedNullByte
  | ExpectedBegin
  | InvalidData string
  | Timeout
  | UidMismatch u32 u32

datatype routing_error =
    NoRoute string
  | UpdateFailed string
  | InvalidDestination string

datatype client_error =
    Disconnected
  | InvalidMessage string
  | NotAuthenticated
  | UnknownClient u64
  | TooManyPending

datatype message_error =
    MissingHeader string
  | InvalidSerial
  | NoReplySerial
  | DeserializeFailed string
  | SerializeFailed string
  | BuildFailed string

datatype error =
    Io io_error
  | DBus zbus_error
  | Auth auth_error
  | Routing routing_error
  | Client client_error
  | Message message_error
  | Config string
  | Shutdown
  | ConnectionClosed string

fun display_auth_error :: "auth_error \<Rightarrow> string" where
  "display_auth_error (UnsupportedMechanism m) = ''Unsupported authentication mechanism: '' @ m"
| "display_auth_error ExpectedNullByte = ''Expected null byte at start of authentication''"
| "display_auth_error ExpectedBegin = ''Expected BEGIN after authentication''"
| "display_auth_error (InvalidData d) = ''Invalid auth data: '' @ d"
| "display_auth_error Timeout = ''Authentication timed out''"
| "display_auth_error (UidMismatch e a) =
     ''UID mismatch: expected '' @ show_nat (unat e) @ '', got '' @ show_nat (unat a)"

fun display_routing_error :: "routing_error \<Rightarrow> string" where
  "display_routing_error (NoRoute d) = ''No route found for destination: '' @ d"
| "display_routing_error (UpdateFailed m) = ''Failed to update routing table: '' @ m"
| "display_routing_error (InvalidDestination d) = ''Invalid destination name: '' @ d"

fun display_client_error :: "client_error \<Rightarrow> string" where
  "display_client_error Disconnected = ''Client disconnected''"
| "display_client_error (InvalidMessage m) = ''Invalid message from client: '' @ m"
| "display_client_error NotAuthenticated = ''Client not authenticated''"
| "display_client_error (UnknownClient n) = ''Unknown client ID: '' @ show_nat (unat n)"
| "display_client_error TooManyPending = ''Too many pending requests from client''"

fun display_message_error :: "message_error \<Rightarrow> string" where
  "display_message_error (MissingHeader h) = ''Missing message header field: '' @ h"
| "display_message_error InvalidSerial = ''Invalid serial number''"
| "display_message_error NoReplySerial = ''Reply message missing reply serial''"
| "display_message_error (DeserializeFailed t) = ''Failed to deserialize message body: '' @ t"
| "display_message_error (SerializeFailed t) = ''Failed to serialize message body: '' @ t"
| "display_message_error (BuildFailed t) = ''Failed to build message: '' @ t"

fun display_error :: "error \<Rightarrow> string" where
  "display_error (Io e) = ''I/O error: '' @ io_text e"
| "display_error (DBus e) = ''D-Bus error: '' @ zbus_text e"
| "display_error (Auth e) = ''Authentication error: '' @ display_auth_error e"
| "display_error (Routing e) = ''Routing error: '' @ display_routing_error e"
| "display_error (Client e) = ''Client error: '' @ display_client_error e"
| "display_error (Message e) = ''Message error: '' @ display_message_error e"
| "display_error (Config m) = ''Configuration error: '' @ m"
| "display_error Shutdown = ''Multiplexer shut down''"
| "display_error (ConnectionClosed b) = ''Connection to '' @ b @ '' closed unexpectedly''"

text \<open>\<open>impl From<zvariant::Error> for Error\<close>, from the \<open>Display\<close> text of the error.\<close>

definition error_from_zvariant :: "string \<Rightarrow> error" where
  "error_from_zvariant t = Message (DeserializeFailed t)"

text \<open>The \<open>?\<close> operator on results whose error converts into another.\<close>

definition map_err :: "('e \<Rightarrow> 'f) \<Rightarrow> 'e + 'a \<Rightarrow> 'f + 'a" where
  "map_err f r = map_sum f id r"

lemma map_err_simps [simp]: "map_err f (Inl e) = Inl (f e)" "map_err f (Inr x) = Inr x"
  by (simp_all add: map_err_def)

lemma map_err_Inr [simp]: "map_err f r = Inr x \<longleftrightarrow> r = Inr x"
  by (cases r) (auto simp: map_err_def)

lemma map_err_Inl [simp]:
  "map_err f r = Inl e \<longleftrightarrow> (\<exists>x. r = Inl x \<and> e = f x)" "Inl e = map_err f r \<longleftrightarrow> (\<exists>x. r = Inl x \<and> e = f x)"
  by (cases r; auto simp: map_err_def)+

end
