(* ===== verification/Wire_Bytes.thy ===== *)
theory Wire_Bytes
  imports Mux_Prelude
begin

text \<open>
  Bytes of the D-Bus wire format: \<open>u32::to_le_bytes\<close>, \<open>to_be_bytes\<close> and their inverses, and
  the replacement of a slice of a byte vector.
\<close>

datatype endian = Little | Big

definition byte_at :: "nat \<Rightarrow> u32 \<Rightarrow> u8" where
  "byte_at i w = of_nat (unat w div 256 ^ i)"

definition to_le_bytes :: "u32 \<Rightarrow> u8 list" where
  "to_le_bytes w = [byte_at 0 w, byte_at 1 w, byte_at 2 w, byte_at 3 w]"

definition to_be_bytes :: "u32 \<Rightarrow> u8 list" where
  "to_be_bytes w = [byte_at 3 w, byte_at 2 w, byte_at 1 w, byte_at 0 w]"

fun le_value :: "u8 list \<Rightarrow> nat" where
  "le_value [] = 0"
| "le_value (b # bs) = unat b + 256 * le_value bs"

definition from_le_bytes :: "u8 list \<Rightarrow> u32" where
  "from_le_bytes bs = of_nat (le_value bs)"

definition from_be_bytes :: "u8 list \<Rightarrow> u32" where
  "from_be_bytes bs = of_nat (le_value (rev bs))"

definition to_bytes :: "endian \<Rightarrow> u32 \<Rightarrow> u8 list" where
  "to_bytes e w = (case e of Little \<Rightarrow> to_le_bytes w | Big \<Rightarrow> to_be_bytes w)"

definition from_bytes :: "endian \<Rightarrow> u8 list \<Rightarrow> u32" where
  "from_bytes e bs = (case e of Little \<Rightarrow> from_le_bytes bs | Big \<Rightarrow> from_be_bytes bs)"

text \<open>The slice \<open>bytes[i..j]\<close>, and the vector after \<open>bytes[i..i + n].copy_from_slice(new)\<close>.\<close>

definition slice :: "nat \<Rightarrow> nat \<Rightarrow> 'a list \<Rightarrow> 'a list" where
  "slice i j xs = take (j - i) (drop i xs)"

definition copy_slice :: "nat \<Rightarrow> 'a list \<Rightarrow> 'a list \<Rightarrow> 'a list" where
  "copy_slice i new xs = take i xs @ new @ drop (i + length new) xs"

lemma length_to_bytes [simp]: "length (to_bytes e w) = 4"
  by (cases e) (simp_all add: to_bytes_def to_le_bytes_def to_be_bytes_def)

lemma unat_byte_at: "unat (byte_at i w) = unat w div 256 ^ i mod 256"
  by (simp add: byte_at_def unat_of_nat)

lemma base256_digits:
  fixes n :: nat
  shows "n mod 256 + 256 * (n div 256 mod 256 + 256 * (n div 65536 mod 256
           + 256 * (n div 16777216))) = n"
proof -
  have step: "m mod 256 + 256 * (m div 256) = m" for m :: nat by simp
  have "n div 65536 = n div 256 div 256" "n div 16777216 = n div 256 div 256 div 256"
    by (simp_all flip: div_mult2_eq)
  then show ?thesis by (simp only: step)
qed

lemma from_bytes_to_bytes [simp]: "from_bytes e (to_bytes e w) = w"
proof -
  have "unat w div 16777216 mod 256 = unat w div 16777216"
    using unat_u32_less[of w] by simp
  then have "le_value (to_le_bytes w) = unat w"
    using base256_digits[of "unat w"]
    by (simp add: to_le_bytes_def unat_byte_at power2_eq_square power3_eq_cube)
  then show ?thesis
    by (cases e) (simp_all add: from_bytes_def to_bytes_def from_le_bytes_def from_be_bytes_def
        to_le_bytes_def to_be_bytes_def)
qed

lemma slice_copy_slice:
  "i + length new \<le> length xs \<Longrightarrow> slice i (i + length new) (copy_slice i new xs) = new"
  by (simp add: slice_def copy_slice_def)

lemma length_copy_slice: "i + length new \<le> length xs \<Longrightarrow> length (copy_slice i new xs) = length xs"
  by (simp add: copy_slice_def)

lemma nth_copy_slice_before: "j < i \<Longrightarrow> i \<le> length xs \<Longrightarrow> copy_slice i new xs ! j = xs ! j"
  by (simp add: copy_slice_def nth_append)

end
