(* ===== verification/Dbus_Message.thy ===== *)
theory Dbus_Message
  imports Mux_Errors Wire_Bytes
begin

text \<open>
  The message utilities of \<open>message.rs\<close>. A zbus \<open>Message\<close> is known to the program through
  its accessors only; \<open>message\<close> lists what they return: the header fields, the serialised
  bytes (\<open>data\<close>), the body bytes and the file descriptors. The functions of zbus that do
  work (parsing bytes, checking names, building messages, deserialising bodies) are the
  fields of \<open>zbus_api\<close>, an argument of the definitions that call them. \<open>wire_laws\<close> and
  \<open>builder_laws\<close> state the documented behaviour of these functions that properties use.
  A \<open>Message\<close> holds at least its 16-byte primary header, so the indices 0 and 8 to 12 that
  \<open>clone_message_with_serial\<close> uses exist.
\<close>

section \<open>Messages\<close>

datatype msg_type = MethodCall | MethodReturn | ErrorType | Signal

record header =
  h_type :: msg_type
  h_serial :: u32
  h_path :: "string option"
  h_interface :: "string option"
  h_member :: "string option"
  h_error_name :: "string option"
  h_destination :: "string option"
  h_sender :: "string option"
  h_reply_serial :: "u32 option"
  h_signature :: string

record message = header +
  m_data :: "u8 list"
  m_body :: "u8 list"
  m_fds :: "nat list"

text \<open>The bodies the program serialises.\<close>

datatype body_value =
    UnitBody
  | StrBody string
  | Str1Body string
  | U32Body u32
  | BoolBody bool
  | StrsBody "string list"
  | StrU32Body string u32
  | DictBody "(string, u32) hmap"

text \<open>The variants of a deserialised argument that the program tells apart.\<close>

datatype zvalue = ZStr string | ZObjectPath string | ZOther

record zbus_api =
  z_from_bytes :: "endian \<Rightarrow> u8 list \<Rightarrow> zbus_error + message"
  z_method_return :: "header \<Rightarrow> zbus_error + header"
  z_error :: "header \<Rightarrow> string \<Rightarrow> zbus_error + header"
  z_bus_name :: "string \<Rightarrow> string + string"
  z_error_name :: "string \<Rightarrow> string + string"
  z_object_path :: "string \<Rightarrow> string + string"
  z_set_destination :: "string \<Rightarrow> header \<Rightarrow> zbus_error + header"
  z_set_path :: "string \<Rightarrow> header \<Rightarrow> zbus_error + header"
  z_build :: "header \<Rightarrow> body_value \<Rightarrow> zbus_error + message"
  z_build_raw_body :: "header \<Rightarrow> u8 list \<Rightarrow> string \<Rightarrow> nat list \<Rightarrow> zbus_error + message"
  fd_try_to_owned :: "nat \<Rightarrow> string + nat"
  de_string :: "message \<Rightarrow> string + string"
  de_string_tuple1 :: "message \<Rightarrow> string + string"
  de_string_tuple2 :: "message \<Rightarrow> string + string \<times> string"
  de_string_tuple3 :: "message \<Rightarrow> string + string \<times> string \<times> string"
  de_string_u32 :: "message \<Rightarrow> string + string \<times> u32"
  de_structure :: "message \<Rightarrow> string + zvalue list"
  de_object_path :: "message \<Rightarrow> string + string"
  de_object_path_tuple1 :: "message \<Rightarrow> string + string"
  de_u32 :: "message \<Rightarrow> string + u32"
  de_bool :: "message \<Rightarrow> string + bool"
  de_strings :: "message \<Rightarrow> string + string list"
  de_response :: "message \<Rightarrow> string + u32"
  de_error :: "string \<Rightarrow> error"

abbreviation msg_header :: "message \<Rightarrow> header" where
  "msg_header m \<equiv> header.truncate m"

section \<open>The extension trait\<close>

definition destination_str :: "message \<Rightarrow> string option" where
  "destination_str m = h_destination m"

definition sender_str :: "message \<Rightarrow> string option" where
  "sender_str m = h_sender m"

definition interface_str :: "message \<Rightarrow> string option" where
  "interface_str m = h_interface m"

definition member_str :: "message \<Rightarrow> string option" where
  "member_str m = h_member m"

definition path_str :: "message \<Rightarrow> string option" where
  "path_str m = h_path m"

definition serial :: "message \<Rightarrow> u32" where
  "serial m = h_serial m"

definition reply_serial :: "message \<Rightarrow> u32 option" where
  "reply_serial m = h_reply_serial m"

definition is_method_call :: "message \<Rightarrow> bool" where
  "is_method_call m = (h_type m = MethodCall)"

definition is_method_return :: "message \<Rightarrow> bool" where
  "is_method_return m = (h_type m = MethodReturn)"

definition is_error :: "message \<Rightarrow> bool" where
  "is_error m = (h_type m = ErrorType)"

definition is_signal :: "message \<Rightarrow> bool" where
  "is_signal m = (h_type m = Signal)"

definition is_dbus_daemon_call :: "message \<Rightarrow> bool" where
  "is_dbus_daemon_call m = (destination_str m = Some ''org.freedesktop.DBus'')"

definition is_name_owner_changed :: "message \<Rightarrow> bool" where
  "is_name_owner_changed m =
     (is_signal m \<and> interface_str m = Some ''org.freedesktop.DBus''
      \<and> member_str m = Some ''NameOwnerChanged'')"

lemmas message_ext_defs [mux_simps] =
  destination_str_def sender_str_def interface_str_def member_str_def path_str_def serial_def
  reply_serial_def is_method_call_def is_method_return_def is_error_def is_signal_def
  is_dbus_daemon_call_def is_name_owner_changed_def

section \<open>Rewriting messages\<close>

definition clone_message_with_serial :: "zbus_api \<Rightarrow> message \<Rightarrow> u32 \<Rightarrow> error + message" where
  "clone_message_with_serial Z msg new_serial =
     (if new_serial = 0 then Inl (Message InvalidSerial)
      else
        let bytes = m_data msg;
            little_endian = (bytes ! 0 = 0x6C);
            serial_bytes = (if little_endian then to_le_bytes new_serial else to_be_bytes new_serial);
            bytes' = copy_slice 8 serial_bytes bytes;
            endian = (if little_endian then Little else Big)
        in map_err DBus (z_from_bytes Z endian bytes'))"

fun clone_fds :: "zbus_api \<Rightarrow> nat list \<Rightarrow> error + nat list" where
  "clone_fds Z [] = Inr []"
| "clone_fds Z (fd # fds) =
     (case fd_try_to_owned Z fd of
        Inl e \<Rightarrow> Inl (Message (BuildFailed (''Failed to clone fd: '' @ e)))
      | Inr owned \<Rightarrow> (case clone_fds Z fds of Inl e \<Rightarrow> Inl e | Inr cloned \<Rightarrow> Inr (owned # cloned)))"

definition clone_fds_from_body :: "zbus_api \<Rightarrow> message \<Rightarrow> error + nat list" where
  "clone_fds_from_body Z msg = clone_fds Z (m_fds msg)"

text \<open>
  The common end of the three rewriting functions: keep the serial when it is a valid one,
  clone the descriptors, and build with the original body bytes and signature.
\<close>

definition rebuild :: "zbus_api \<Rightarrow> message \<Rightarrow> header \<Rightarrow> error + message" where
  "rebuild Z msg builder =
     (let builder' = (if h_serial msg \<noteq> 0 then builder\<lparr>h_serial := h_serial msg\<rparr> else builder)
      in case clone_fds_from_body Z msg of
           Inl e \<Rightarrow> Inl e
         | Inr fds \<Rightarrow>
             map_err DBus (z_build_raw_body Z builder' (m_body msg) (h_signature msg) fds))"

definition clone_reply_with_serial :: "zbus_api \<Rightarrow> message \<Rightarrow> u32 \<Rightarrow> error + message" where
  "clone_reply_with_serial Z msg new_reply_serial =
     (if new_reply_serial = 0 then Inl (Message InvalidSerial)
      else rebuild Z msg ((msg_header msg)\<lparr>h_reply_serial := Some new_reply_serial\<rparr>))"

definition clone_signal_with_destination :: "zbus_api \<Rightarrow> message \<Rightarrow> string \<Rightarrow> error + message" where
  "clone_signal_with_destination Z msg new_destination =
     (case z_set_destination Z new_destination (msg_header msg) of
        Inl e \<Rightarrow> Inl (Message (BuildFailed (zbus_text e)))
      | Inr builder \<Rightarrow> rebuild Z msg builder)"

definition unique_name_to_path_component :: "string \<Rightarrow> string" where
  "unique_name_to_path_component unique_name =
     replace_char CHR ''.'' ''_'' (dropWhile (\<lambda>c. c = CHR '':'') unique_name)"

definition clone_portal_response_signal ::
    "zbus_api \<Rightarrow> message \<Rightarrow> string \<Rightarrow> string \<Rightarrow> error + message" where
  "clone_portal_response_signal Z msg mux_unique_name client_unique_name =
     (let mux_path_component = unique_name_to_path_component mux_unique_name;
          client_path_component = unique_name_to_path_component client_unique_name;
          original_path = (case h_path msg of Some p \<Rightarrow> p | None \<Rightarrow> []);
          new_path = replace_str mux_path_component client_path_component original_path
      in case z_object_path Z new_path of
           Inl e \<Rightarrow> Inl (Message (BuildFailed (''Invalid path: '' @ e)))
         | Inr new_path_obj \<Rightarrow>
             (case z_set_destination Z client_unique_name (msg_header msg) of
                Inl e \<Rightarrow> Inl (Message (BuildFailed (zbus_text e)))
              | Inr b1 \<Rightarrow>
                  (case z_set_path Z new_path_obj b1 of
                     Inl e \<Rightarrow> Inl (Message (BuildFailed (zbus_text e)))
                   | Inr b2 \<Rightarrow> rebuild Z msg b2)))"

definition parse_name_owner_changed ::
    "zbus_api \<Rightarrow> message \<Rightarrow> error + string \<times> string \<times> string" where
  "parse_name_owner_changed Z msg =
     map_err (\<lambda>e. Message (DeserializeFailed e)) (de_string_tuple3 Z msg)"

section \<open>Creating replies\<close>

definition create_method_return :: "zbus_api \<Rightarrow> message \<Rightarrow> body_value \<Rightarrow> error + message" where
  "create_method_return Z request body =
     (case z_method_return Z (msg_header request) of
        Inl e \<Rightarrow> Inl (DBus e)
      | Inr b \<Rightarrow> map_err DBus (z_build Z b body))"

definition create_error :: "zbus_api \<Rightarrow> message \<Rightarrow> string \<Rightarrow> string \<Rightarrow> error + message" where
  "create_error Z request error_name error_message =
     (case z_error Z (msg_header request) error_name of
        Inl e \<Rightarrow> Inl (DBus e)
      | Inr b \<Rightarrow> map_err DBus (z_build Z b (Str1Body error_message)))"

text \<open>\<open>if let Some(dest)\<close>: check the bus name and set it as the destination.\<close>

definition with_destination :: "zbus_api \<Rightarrow> string option \<Rightarrow> header \<Rightarrow> error + header" where
  "with_destination Z dest b =
     (case dest of
        None \<Rightarrow> Inr b
      | Some d \<Rightarrow>
          (case z_bus_name Z d of
             Inl e \<Rightarrow> Inl (Message (DeserializeFailed (''Invalid destination: '' @ e)))
           | Inr bus_name \<Rightarrow> map_err DBus (z_set_destination Z bus_name b)))"

record method_return_builder =
  mrb_original :: message
  mrb_destination :: "string option"

definition method_return_builder_new :: "message \<Rightarrow> method_return_builder" where
  "method_return_builder_new original = \<lparr>mrb_original = original, mrb_destination = None\<rparr>"

definition mrb_set_destination :: "string \<Rightarrow> method_return_builder \<Rightarrow> method_return_builder" where
  "mrb_set_destination dest b = b\<lparr>mrb_destination := Some dest\<rparr>"

definition mrb_build :: "zbus_api \<Rightarrow> method_return_builder \<Rightarrow> body_value \<Rightarrow> error + message" where
  "mrb_build Z b body =
     (case z_method_return Z (msg_header (mrb_original b)) of
        Inl e \<Rightarrow> Inl (DBus e)
      | Inr h \<Rightarrow>
          (case with_destination Z (mrb_destination b) h of
             Inl e \<Rightarrow> Inl e
           | Inr h' \<Rightarrow> map_err DBus (z_build Z h' body)))"

definition mrb_build_empty :: "zbus_api \<Rightarrow> method_return_builder \<Rightarrow> error + message" where
  "mrb_build_empty Z b = mrb_build Z b UnitBody"

record error_builder =
  eb_original :: message
  eb_destination :: "string option"
  eb_error_name :: string

definition error_builder_new :: "message \<Rightarrow> string \<Rightarrow> error_builder" where
  "error_builder_new original error_name =
     \<lparr>eb_original = original, eb_destination = None, eb_error_name = error_name\<rparr>"

definition eb_set_destination :: "string \<Rightarrow> error_builder \<Rightarrow> error_builder" where
  "eb_set_destination dest b = b\<lparr>eb_destination := Some dest\<rparr>"

definition eb_build :: "zbus_api \<Rightarrow> error_builder \<Rightarrow> string \<Rightarrow> error + message" where
  "eb_build Z b text =
     (case z_error_name Z (eb_error_name b) of
        Inl e \<Rightarrow> Inl (Message (DeserializeFailed (''Invalid error name: '' @ e)))
      | Inr error_name \<Rightarrow>
          (case z_error Z (msg_header (eb_original b)) error_name of
             Inl e \<Rightarrow> Inl (DBus e)
           | Inr h \<Rightarrow>
               (case with_destination Z (eb_destination b) h of
                  Inl e \<Rightarrow> Inl e
                | Inr h' \<Rightarrow> map_err DBus (z_build Z h' (Str1Body text)))))"

section \<open>Error names\<close>

definition UNKNOWN_METHOD :: string where
  "UNKNOWN_METHOD = ''org.freedesktop.DBus.Error.UnknownMethod''"
definition NAME_HAS_NO_OWNER :: string where
  "NAME_HAS_NO_OWNER = ''org.freedesktop.DBus.Error.NameHasNoOwner''"
definition SERVICE_UNKNOWN :: string where
  "SERVICE_UNKNOWN = ''org.freedesktop.DBus.Error.ServiceUnknown''"
definition FAILED :: string where
  "FAILED = ''org.freedesktop.DBus.Error.Failed''"
definition ACCESS_DENIED :: string where
  "ACCESS_DENIED = ''org.freedesktop.DBus.Error.AccessDenied''"
definition INVALID_ARGS :: string where
  "INVALID_ARGS = ''org.freedesktop.DBus.Error.InvalidArgs''"
definition NO_REPLY :: string where
  "NO_REPLY = ''org.freedesktop.DBus.Error.NoReply''"
definition MATCH_RULE_NOT_FOUND :: string where
  "MATCH_RULE_NOT_FOUND = ''org.freedesktop.DBus.Error.MatchRuleNotFound''"
definition MATCH_RULE_INVALID :: string where
  "MATCH_RULE_INVALID = ''org.freedesktop.DBus.Error.MatchRuleInvalid''"
definition UNIX_PROCESS_ID_UNKNOWN :: string where
  "UNIX_PROCESS_ID_UNKNOWN = ''org.freedesktop.DBus.Error.UnixProcessIdUnknown''"

section \<open>What is documented of zbus\<close>

text \<open>
  The wire format: a message starts with its 16-byte primary header, whose first byte is
  \<open>l\<close> for little endian, whose bytes 8 to 12 are the non-zero serial in that order, and no
  other field depends on these four bytes.
\<close>

definition wire_laws :: "zbus_api \<Rightarrow> bool" where
  "wire_laws Z \<longleftrightarrow>
     (\<forall>e bs m. z_from_bytes Z e bs = Inr m \<longrightarrow>
        16 \<le> length bs \<and> m_data m = bs \<and> h_serial m = from_bytes e (slice 8 12 bs)) \<and>
     (\<forall>e bs m new. z_from_bytes Z e bs = Inr m \<longrightarrow> length new = 4 \<longrightarrow> from_bytes e new \<noteq> 0 \<longrightarrow>
        (\<exists>m'. z_from_bytes Z e (copy_slice 8 new bs) = Inr m'
           \<and> m'\<lparr>h_serial := h_serial m, m_data := m_data m\<rparr> = m))"

text \<open>
  The builder: a setter that accepts its value changes that field alone, a reply refers to
  the serial of the request and goes to its sender, and building keeps the header it was
  given, apart from the signature, which is that of the body.
\<close>

definition builder_laws :: "zbus_api \<Rightarrow> bool" where
  "builder_laws Z \<longleftrightarrow>
     (\<forall>d h h'. z_set_destination Z d h = Inr h' \<longrightarrow> h' = h\<lparr>h_destination := Some d\<rparr>) \<and>
     (\<forall>p h h'. z_set_path Z p h = Inr h' \<longrightarrow> h' = h\<lparr>h_path := Some p\<rparr>) \<and>
     (\<forall>s s'. z_bus_name Z s = Inr s' \<longrightarrow> s' = s) \<and>
     (\<forall>s s'. z_object_path Z s = Inr s' \<longrightarrow> s' = s) \<and>
     (\<forall>s s'. z_error_name Z s = Inr s' \<longrightarrow> s' = s) \<and>
     (\<forall>r h. z_method_return Z r = Inr h \<longrightarrow>
        h_type h = MethodReturn \<and> h_reply_serial h = Some (h_serial r)) \<and>
     (\<forall>r n h. z_error Z r n = Inr h \<longrightarrow>
        h_type h = ErrorType \<and> h_reply_serial h = Some (h_serial r) \<and> h_error_name h = Some n) \<and>
     (\<forall>h v m. z_build Z h v = Inr m \<longrightarrow>
        (msg_header m)\<lparr>h_signature := h_signature h\<rparr> = h) \<and>
     (\<forall>h b s fds m. z_build_raw_body Z h b s fds = Inr m \<longrightarrow>
        msg_header m = h\<lparr>h_signature := s\<rparr> \<and> m_body m = b \<and> m_fds m = fds)"

end
