(* ===== verification/Match_Rules.thy ===== *)
theory Match_Rules
  imports Dbus_Message
begin

text \<open>
  Match rules (\<open>match_rules.rs\<close>): parsing a rule, matching a message against it, the rules of
  one client, and the reference counts of the rules subscribed on the buses.
\<close>

section \<open>Data\<close>

record match_rule =
  rule_string :: string
  mr_type :: "string option"
  mr_sender :: "string option"
  mr_interface :: "string option"
  mr_member :: "string option"
  mr_path :: "string option"
  mr_path_namespace :: "string option"
  mr_destination :: "string option"
  mr_args :: "(u8, string) hmap"
  mr_arg_paths :: "(u8, string) hmap"
  mr_arg0namespace :: "string option"
  mr_eavesdrop :: bool

datatype match_rule_error = InvalidFormat string | InvalidArgIndex string

fun display_match_rule_error :: "match_rule_error \<Rightarrow> string" where
  "display_match_rule_error (InvalidFormat m) = ''Invalid match rule format: '' @ m"
| "display_match_rule_error (InvalidArgIndex k) = ''Invalid argument index: '' @ k"

section \<open>Parsing\<close>

definition quote :: char where
  "quote = CHR 0x27"

text \<open>The rule \<open>parse\<close> starts from.\<close>

definition empty_rule :: "string \<Rightarrow> match_rule" where
  "empty_rule rule =
     \<lparr>rule_string = rule, mr_type = None, mr_sender = None, mr_interface = None, mr_member = None,
      mr_path = None, mr_path_namespace = None, mr_destination = None, mr_args = [],
      mr_arg_paths = [], mr_arg0namespace = None, mr_eavesdrop = False\<rparr>"

definition parse_arg_index :: "string \<Rightarrow> string \<Rightarrow> match_rule_error + u8" where
  "parse_arg_index key num_str =
     (case parse_unsigned 255 num_str of
        Inl _ \<Rightarrow> Inl (InvalidArgIndex key)
      | Inr num \<Rightarrow> if num > 63 then Inl (InvalidArgIndex key) else Inr (of_nat num))"

text \<open>The \<open>match key\<close> of the loop body.\<close>

definition apply_key :: "string \<Rightarrow> string \<Rightarrow> match_rule \<Rightarrow> match_rule_error + match_rule" where
  "apply_key key value r =
     (if key = ''type'' then Inr (r\<lparr>mr_type := Some value\<rparr>)
      else if key = ''sender'' then Inr (r\<lparr>mr_sender := Some value\<rparr>)
      else if key = ''interface'' then Inr (r\<lparr>mr_interface := Some value\<rparr>)
      else if key = ''member'' then Inr (r\<lparr>mr_member := Some value\<rparr>)
      else if key = ''path'' then Inr (r\<lparr>mr_path := Some value\<rparr>)
      else if key = ''path_namespace'' then Inr (r\<lparr>mr_path_namespace := Some value\<rparr>)
      else if key = ''destination'' then Inr (r\<lparr>mr_destination := Some value\<rparr>)
      else if key = ''eavesdrop'' then Inr (r\<lparr>mr_eavesdrop := (value = ''true'')\<rparr>)
      else if key = ''arg0namespace'' then Inr (r\<lparr>mr_arg0namespace := Some value\<rparr>)
      else if starts_with key ''arg'' \<and> ends_with key ''path'' then
        (case parse_arg_index key (slice 3 (length key - 4) key) of
           Inl e \<Rightarrow> Inl e
         | Inr num \<Rightarrow> Inr (r\<lparr>mr_arg_paths := hm_insert num value (mr_arg_paths r)\<rparr>))
      else if starts_with key ''arg'' then
        (case parse_arg_index key (drop 3 key) of
           Inl e \<Rightarrow> Inl e
         | Inr num \<Rightarrow> Inr (r\<lparr>mr_args := hm_insert num value (mr_args r)\<rparr>))
      else Inr r)"

text \<open>The value after the equals sign, quoted or not, and what remains after it.\<close>

definition parse_value :: "string \<Rightarrow> match_rule_error + string \<times> string" where
  "parse_value rem =
     (let rem = trim_start rem in
      if starts_with rem [quote] then
        (case find_char quote (drop 1 rem) of
           None \<Rightarrow> Inl (InvalidFormat ''Unclosed quote'')
         | Some end_pos \<Rightarrow> Inr (slice 1 (end_pos + 1) rem, drop (end_pos + 2) rem))
      else
        (let end_pos = (case find_char CHR '','' rem of Some i \<Rightarrow> i | None \<Rightarrow> length rem)
         in Inr (trim (take end_pos rem), drop end_pos rem)))"

text \<open>Skip leading white space and one comma.\<close>

definition skip_separator :: "string \<Rightarrow> string" where
  "skip_separator rem =
     (let rem = trim_start rem
      in if starts_with rem '','' then trim_start (drop 1 rem) else rem)"

lemma length_skip_separator: "length (skip_separator s) \<le> length s"
proof -
  let ?t = "trim_start s"
  have "length (trim_start (drop (Suc 0) ?t)) \<le> length (drop (Suc 0) ?t)"
    by (rule length_trim_start)
  also have "\<dots> \<le> length ?t" by simp
  also have "\<dots> \<le> length s" by (rule length_trim_start)
  finally show ?thesis by (simp add: skip_separator_def Let_def)
qed

lemma length_parse_value: "parse_value s = Inr (v, r) \<Longrightarrow> length r \<le> length s"
  by (auto simp: parse_value_def Let_def intro: order_trans [OF diff_le_self length_trim_start]
      split: if_splits option.splits)

function parse_loop :: "string \<Rightarrow> match_rule \<Rightarrow> match_rule_error + match_rule" where
  "parse_loop rem result =
     (let rem = skip_separator rem in
      if rem = [] then Inr result
      else
        (case find_char CHR ''='' rem of
           None \<Rightarrow> Inl (InvalidFormat (''Missing '' @ [quote] @ ''='' @ [quote] @ '' in: '' @ rem))
         | Some eq_pos \<Rightarrow>
             (case parse_value (drop (eq_pos + 1) rem) of
                Inl e \<Rightarrow> Inl e
              | Inr (value, rest) \<Rightarrow>
                  (case apply_key (trim (take eq_pos rem)) value result of
                     Inl e \<Rightarrow> Inl e
                   | Inr result' \<Rightarrow> parse_loop rest result'))))"
  by pat_completeness auto
termination
proof (relation "measure (\<lambda>(rem, result). length rem)")
  fix rem result x eq_pos vr v rest result'
  assume rem: "x = skip_separator rem" "x \<noteq> []" "find_char CHR ''='' x = Some eq_pos"
    and vr: "parse_value (drop (eq_pos + 1) x) = Inr vr" "(v, rest) = vr"
  have "length rest \<le> length (drop (eq_pos + 1) x)"
    using vr by (intro length_parse_value[where v = v]) simp
  also have "\<dots> < length x" using rem(2) by simp
  also have "\<dots> \<le> length rem" using rem(1) by (simp add: length_skip_separator)
  finally show "((rest, result'), (rem, result)) \<in> measure (\<lambda>(rem, result). length rem)" by simp
qed simp

declare parse_loop.simps [simp del]

definition parse :: "string \<Rightarrow> match_rule_error + match_rule" where
  "parse rule =
     (if trim rule = [] then Inr (empty_rule rule)
      else parse_loop (trim rule) (empty_rule rule))"

section \<open>Matching\<close>

definition extract_field :: "zvalue \<Rightarrow> string" where
  "extract_field field = (case field of ZStr s \<Rightarrow> s | ZObjectPath p \<Rightarrow> p | ZOther \<Rightarrow> [])"

text \<open>The loop over the fields; \<open>idx as u8\<close> keeps the low eight bits of the index.\<close>

fun extract_fields :: "nat \<Rightarrow> u8 \<Rightarrow> zvalue list \<Rightarrow> string list" where
  "extract_fields idx max_idx [] = []"
| "extract_fields idx max_idx (field # rest) =
     (if (of_nat idx :: u8) > max_idx then []
      else extract_field field # extract_fields (idx + 1) max_idx rest)"

definition max_arg_index :: "match_rule \<Rightarrow> u8" where
  "max_arg_index r = fold max (map fst (mr_args r) @ map fst (mr_arg_paths r)) 0"

definition extract_string_args :: "zbus_api \<Rightarrow> match_rule \<Rightarrow> message \<Rightarrow> string list option" where
  "extract_string_args Z r msg =
     (case de_structure Z msg of
        Inr fs \<Rightarrow> Some (extract_fields 0 (max_arg_index r) fs)
      | Inl _ \<Rightarrow>
     (case de_string Z msg of
        Inr s \<Rightarrow> Some [s]
      | Inl _ \<Rightarrow>
     (case de_string_tuple3 Z msg of
        Inr (s1, s2, s3) \<Rightarrow> Some [s1, s2, s3]
      | Inl _ \<Rightarrow>
     (case de_string_tuple2 Z msg of
        Inr (s1, s2) \<Rightarrow> Some [s1, s2]
      | Inl _ \<Rightarrow>
     (case de_string_tuple1 Z msg of
        Inr s1 \<Rightarrow> Some [s1]
      | Inl _ \<Rightarrow> None)))))"

definition matches_path_filter :: "string \<Rightarrow> string \<Rightarrow> bool" where
  "matches_path_filter arg_value fltr =
     (if arg_value = fltr then True
      else if ends_with fltr ''/'' \<and> starts_with arg_value fltr then True
      else if ends_with arg_value ''/'' \<and> starts_with fltr arg_value then True
      else False)"

definition list_get :: "'a list \<Rightarrow> nat \<Rightarrow> 'a option" where
  "list_get xs i = (if i < length xs then Some (xs ! i) else None)"

definition msg_type_str :: "message \<Rightarrow> string" where
  "msg_type_str msg =
     (case h_type msg of
        MethodCall \<Rightarrow> ''method_call'' | MethodReturn \<Rightarrow> ''method_return''
      | ErrorType \<Rightarrow> ''error'' | Signal \<Rightarrow> ''signal'')"

text \<open>The two forms of header check: exact equality, and equality or child of a namespace.\<close>

definition field_matches :: "string option \<Rightarrow> string option \<Rightarrow> bool" where
  "field_matches fltr field =
     (case fltr of None \<Rightarrow> True
      | Some f \<Rightarrow> (case field of Some x \<Rightarrow> x = f | None \<Rightarrow> False))"

definition in_namespace :: "string \<Rightarrow> string \<Rightarrow> string \<Rightarrow> bool" where
  "in_namespace sep ns x = (x = ns \<or> starts_with x (ns @ sep))"

definition header_matches :: "match_rule \<Rightarrow> message \<Rightarrow> bool" where
  "header_matches r msg =
     (field_matches (mr_type r) (Some (msg_type_str msg))
      \<and> field_matches (mr_sender r) (sender_str msg)
      \<and> field_matches (mr_interface r) (interface_str msg)
      \<and> field_matches (mr_member r) (member_str msg)
      \<and> field_matches (mr_path r) (path_str msg)
      \<and> (case mr_path_namespace r of None \<Rightarrow> True
         | Some ns \<Rightarrow> (case path_str msg of Some p \<Rightarrow> in_namespace ''/'' ns p | None \<Rightarrow> False)))"

definition destination_matches :: "match_rule \<Rightarrow> message \<Rightarrow> bool" where
  "destination_matches r msg =
     (case mr_destination r of None \<Rightarrow> True
      | Some d \<Rightarrow> (case destination_str msg of Some x \<Rightarrow> x = d | None \<Rightarrow> d = []))"

definition args_match :: "zbus_api \<Rightarrow> match_rule \<Rightarrow> message \<Rightarrow> bool" where
  "args_match Z r msg =
     (if mr_args r \<noteq> [] \<or> mr_arg_paths r \<noteq> [] \<or> mr_arg0namespace r \<noteq> None then
        (case extract_string_args Z r msg of
           Some args \<Rightarrow>
             list_all (\<lambda>(idx, expected). list_get args (unat idx) = Some expected) (mr_args r)
             \<and> list_all (\<lambda>(idx, path_filter).
                  (case list_get args (unat idx) of
                     Some actual \<Rightarrow> matches_path_filter actual path_filter
                   | None \<Rightarrow> False)) (mr_arg_paths r)
             \<and> (case mr_arg0namespace r of None \<Rightarrow> True
                | Some ns \<Rightarrow> (case args of [] \<Rightarrow> False | arg0 # _ \<Rightarrow> in_namespace ''.'' ns arg0))
         | None \<Rightarrow> False)
      else True)"

definition rule_matches :: "zbus_api \<Rightarrow> match_rule \<Rightarrow> message \<Rightarrow> bool" where
  "rule_matches Z r msg =
     (if \<not> header_matches r msg then False
      else if \<not> destination_matches r msg then False
      else args_match Z r msg)"

definition rule_matches_ignoring_destination :: "zbus_api \<Rightarrow> match_rule \<Rightarrow> message \<Rightarrow> bool" where
  "rule_matches_ignoring_destination Z r msg =
     (if \<not> header_matches r msg then False else args_match Z r msg)"

section \<open>The rules of a client\<close>

record client_match_rules =
  cmr_rules :: "match_rule list"

definition client_match_rules_new :: client_match_rules where
  "client_match_rules_new = \<lparr>cmr_rules = []\<rparr>"

definition rules_add :: "match_rule \<Rightarrow> client_match_rules \<Rightarrow> client_match_rules" where
  "rules_add rule c =
     (if \<not> list_ex (\<lambda>r. rule_string r = rule_string rule) (cmr_rules c)
      then c\<lparr>cmr_rules := cmr_rules c @ [rule]\<rparr> else c)"

definition rules_remove :: "string \<Rightarrow> client_match_rules \<Rightarrow> bool \<times> client_match_rules" where
  "rules_remove str c =
     (let rules = filter (\<lambda>r. rule_string r \<noteq> str) (cmr_rules c)
      in (length rules < length (cmr_rules c), c\<lparr>cmr_rules := rules\<rparr>))"

definition rules_match :: "zbus_api \<Rightarrow> client_match_rules \<Rightarrow> message \<Rightarrow> bool" where
  "rules_match Z c msg = list_ex (\<lambda>r. rule_matches Z r msg) (cmr_rules c)"

definition rules_match_ignoring_destination :: "zbus_api \<Rightarrow> client_match_rules \<Rightarrow> message \<Rightarrow> bool" where
  "rules_match_ignoring_destination Z c msg =
     list_ex (\<lambda>r. rule_matches_ignoring_destination Z r msg) (cmr_rules c)"

definition rules_is_empty :: "client_match_rules \<Rightarrow> bool" where
  "rules_is_empty c = (cmr_rules c = [])"

definition rules_len :: "client_match_rules \<Rightarrow> nat" where
  "rules_len c = length (cmr_rules c)"

definition rule_strings :: "client_match_rules \<Rightarrow> string list" where
  "rule_strings c = map rule_string (cmr_rules c)"

section \<open>Reference counts\<close>

record match_rule_ref_count =
  counts :: "(string \<times> string, nat) hmap"

definition ref_count_new :: match_rule_ref_count where
  "ref_count_new = \<lparr>counts = []\<rparr>"

definition increment :: "string \<Rightarrow> string \<Rightarrow> match_rule_ref_count \<Rightarrow> bool \<times> match_rule_ref_count" where
  "increment bus rule rc =
     (let key = (bus, rule);
          count = (case hm_get (counts rc) key of Some n \<Rightarrow> n | None \<Rightarrow> 0) + 1
      in (count = 1, rc\<lparr>counts := hm_insert key count (counts rc)\<rparr>))"

definition decrement :: "string \<Rightarrow> string \<Rightarrow> match_rule_ref_count \<Rightarrow> bool \<times> match_rule_ref_count" where
  "decrement bus rule rc =
     (let key = (bus, rule) in
      case hm_get (counts rc) key of
        Some count \<Rightarrow>
          if count > 0 then
            let count' = count - 1 in
            if count' = 0 then (True, rc\<lparr>counts := hm_remove key (counts rc)\<rparr>)
            else (False, rc\<lparr>counts := hm_insert key count' (counts rc)\<rparr>)
          else (False, rc)
      | None \<Rightarrow> (False, rc))"

definition rules_for_bus :: "string \<Rightarrow> match_rule_ref_count \<Rightarrow> string list" where
  "rules_for_bus bus rc =
     map (\<lambda>((_, rule), _). rule) (filter (\<lambda>((b, _), count). b = bus \<and> count > 0) (counts rc))"

fun remove_client_rules :: "string \<Rightarrow> string list \<Rightarrow> match_rule_ref_count \<Rightarrow> string list \<times> match_rule_ref_count" where
  "remove_client_rules bus [] rc = ([], rc)"
| "remove_client_rules bus (rule # rules) rc =
     (let (last, rc1) = decrement bus rule rc;
          (to_remove, rc2) = remove_client_rules bus rules rc1
      in (if last then rule # to_remove else to_remove, rc2))"

end
