(* ===== verification/Match_Parsing.thy ===== *)
theory Match_Parsing
  imports Match_Rules
begin

text \<open>
  Correctness of \<open>MatchRule::parse\<close>: a printer of key/value pairs in the syntax of the D-Bus
  specification, and the parser as its inverse.
\<close>

section \<open>Printing\<close>

definition render_pair :: "string \<times> string \<Rightarrow> string" where
  "render_pair = (\<lambda>(k, v). k @ ''='' @ [quote] @ v @ [quote])"

fun render :: "(string \<times> string) list \<Rightarrow> string" where
  "render [] = []"
| "render [p] = render_pair p"
| "render (p # ps) = render_pair p @ '','' @ render ps"

fun apply_keys :: "(string \<times> string) list \<Rightarrow> match_rule \<Rightarrow> match_rule_error + match_rule" where
  "apply_keys [] r = Inr r"
| "apply_keys ((k, v) # ps) r =
     (case apply_key k v r of Inl e \<Rightarrow> Inl e | Inr r' \<Rightarrow> apply_keys ps r')"

definition key_ok :: "string \<Rightarrow> bool" where
  "key_ok k = (k \<noteq> [] \<and> list_all plain k \<and> CHR ''='' \<notin> set k \<and> CHR '','' \<notin> set k)"

definition value_ok :: "string \<Rightarrow> bool" where
  "value_ok v = (quote \<notin> set v)"

definition pair_ok :: "string \<times> string \<Rightarrow> bool" where
  "pair_ok = (\<lambda>(k, v). key_ok k \<and> value_ok v)"

section \<open>The loop on printed pairs\<close>

lemma plain_quote [simp]: "plain quote" and plain_comma [simp]: "plain CHR '',''"
  by (simp_all add: plain_def white_space_def quote_def)

lemma skip_separator_plain:
  "plain c \<Longrightarrow> c \<noteq> CHR '','' \<Longrightarrow> skip_separator (c # s) = c # s"
  by (simp add: skip_separator_def)

lemma skip_separator_comma: "skip_separator (CHR '','' # s) = trim_start s"
  by (simp add: skip_separator_def)

lemma parse_value_quoted:
  "value_ok v \<Longrightarrow> parse_value (quote # v @ quote # rest) = Inr (v, rest)"
  by (simp add: parse_value_def value_ok_def slice_def)

lemma parse_loop_pair:
  assumes "pair_ok (k, v)"
  shows "parse_loop (render_pair (k, v) @ rest) r =
     (case apply_key k v r of Inl e \<Rightarrow> Inl e | Inr r' \<Rightarrow> parse_loop rest r')"
proof -
  let ?s = "k @ CHR ''='' # quote # v @ quote # rest"
  have "skip_separator ?s = ?s"
    using assms by (cases k) (auto simp: pair_ok_def key_ok_def intro: skip_separator_plain)
  moreover have "find_char CHR ''='' ?s = Some (length k)" "trim k = k"
    using assms by (simp_all add: pair_ok_def key_ok_def trim_all_plain)
  ultimately show ?thesis
    using assms
    by (simp add: parse_loop.simps[of ?s] render_pair_def pair_ok_def parse_value_quoted)
qed

lemma render_starts:
  assumes "pair_ok p"
  shows "\<exists>c s. render (p # ps) = c # s \<and> plain c \<and> c \<noteq> CHR '',''"
  using assms by (cases ps; cases p; cases "fst p") (auto simp: render_pair_def pair_ok_def key_ok_def)

lemma parse_loop_comma:
  assumes "pair_ok p"
  shows "parse_loop ('','' @ render (p # ps)) r = parse_loop (render (p # ps)) r"
proof -
  obtain c s where cs: "render (p # ps) = c # s" "plain c" "c \<noteq> CHR '',''"
    using render_starts[OF assms] by blast
  then show ?thesis
    by (simp add: parse_loop.simps[of "c # s"] parse_loop.simps[of "CHR '','' # c # s"]
        skip_separator_plain skip_separator_comma)
qed

lemma parse_loop_Nil [simp]: "parse_loop [] r = Inr r"
  by (simp add: parse_loop.simps[of "[]"] skip_separator_def)

lemma parse_loop_render: "list_all pair_ok ps \<Longrightarrow> parse_loop (render ps) r = apply_keys ps r"
proof (induction ps arbitrary: r rule: render.induct)
  case (2 p)
  then show ?case using parse_loop_pair[of "fst p" "snd p" "[]"] by (cases p) (simp split: sum.splits)
next
  case (3 p q ps)
  obtain k v where p: "p = (k, v)" by (cases p)
  have "parse_loop (render (p # q # ps)) r =
      (case apply_key k v r of Inl e \<Rightarrow> Inl e | Inr r' \<Rightarrow> parse_loop ('','' @ render (q # ps)) r')"
    unfolding p render.simps by (rule parse_loop_pair) (use 3 p in simp)
  also have "\<dots> = (case apply_key k v r of Inl e \<Rightarrow> Inl e | Inr r' \<Rightarrow> apply_keys (q # ps) r')"
    using 3 parse_loop_comma[of q ps] by (auto split: sum.splits)
  finally show ?case by (simp add: p)
qed simp

lemma render_ends: "ps \<noteq> [] \<Longrightarrow> \<exists>s. render ps = s @ [quote]"
  by (induction ps rule: render.induct) (auto simp: render_pair_def split: prod.splits)

lemma trim_render:
  assumes "list_all pair_ok ps"
  shows "trim (render ps) = render ps"
proof (cases ps)
  case (Cons p qs)
  obtain c s where "render ps = c # s" "plain c"
    using render_starts[of p qs] Cons assms by auto
  then have "trim_start (render ps) = render ps" by simp
  moreover obtain t where "render ps = t @ [quote]"
    using render_ends[of ps] Cons by auto
  ultimately show ?thesis by (simp add: trim_def)
qed simp

lemma render_Nil_iff: "list_all pair_ok ps \<Longrightarrow> render ps = [] \<longleftrightarrow> ps = []"
  using render_ends[of ps] by (cases ps) auto

lemma parse_render_pairs:
  "list_all pair_ok ps \<Longrightarrow> parse (render ps) = apply_keys ps (empty_rule (render ps))"
  by (auto simp: parse_def trim_render render_Nil_iff parse_loop_render)

section \<open>Printing a rule\<close>

definition opt_pair :: "string \<Rightarrow> string option \<Rightarrow> (string \<times> string) list" where
  "opt_pair k v = (case v of None \<Rightarrow> [] | Some x \<Rightarrow> [(k, x)])"

definition arg_key :: "u8 \<Rightarrow> string" where
  "arg_key i = ''arg'' @ show_nat (unat i)"

definition rule_pairs :: "match_rule \<Rightarrow> (string \<times> string) list" where
  "rule_pairs r =
     opt_pair ''type'' (mr_type r) @ opt_pair ''sender'' (mr_sender r)
     @ opt_pair ''interface'' (mr_interface r) @ opt_pair ''member'' (mr_member r)
     @ opt_pair ''path'' (mr_path r) @ opt_pair ''path_namespace'' (mr_path_namespace r)
     @ opt_pair ''destination'' (mr_destination r)
     @ map (\<lambda>(i, v). (arg_key i, v)) (mr_args r)
     @ map (\<lambda>(i, v). (arg_key i @ ''path'', v)) (mr_arg_paths r)
     @ opt_pair ''arg0namespace'' (mr_arg0namespace r)
     @ (if mr_eavesdrop r then [(''eavesdrop'', ''true'')] else [])"

definition rule_ok :: "match_rule \<Rightarrow> bool" where
  "rule_ok r =
     (hm_wf (mr_args r) \<and> hm_wf (mr_arg_paths r)
      \<and> list_all (\<lambda>i. i \<le> 63) (map fst (mr_args r) @ map fst (mr_arg_paths r))
      \<and> list_all (\<lambda>(k, v). value_ok v) (rule_pairs r))"

lemma apply_keys_append:
  "apply_keys (ps @ qs) r = (case apply_keys ps r of Inl e \<Rightarrow> Inl e | Inr r' \<Rightarrow> apply_keys qs r')"
  by (induction ps arbitrary: r) (auto split: sum.splits)

lemma apply_keys_opt: "apply_keys (opt_pair k v) r =
     (case v of None \<Rightarrow> Inr r | Some x \<Rightarrow> (case apply_key k x r of Inl e \<Rightarrow> Inl e | Inr r' \<Rightarrow> Inr r'))"
  by (simp add: opt_pair_def split: option.splits sum.splits)

lemma digit_char_distinct:
  "d < 10 \<Longrightarrow> digit_char d \<notin> set ''path_namespace=,tyrifcdsv''"
  by (auto simp: digit_char_def dest!: arg_cong[where f = "of_char :: char \<Rightarrow> nat"])

lemma show_nat_chars: "c \<in> set (show_nat n) \<Longrightarrow> c \<notin> set ''path_namespace=,tyrifcdsv''"
  using show_nat_digits[of c n] digit_char_distinct by blast

lemma digit_plain: "d < 10 \<Longrightarrow> plain (digit_char d)"
  by (auto simp: digit_char_def plain_def white_space_def dest!: arg_cong[where f = "of_char :: char \<Rightarrow> nat"])

lemma show_nat_plain: "list_all plain (show_nat n)"
  using show_nat_digits[of _ n] digit_plain by (auto simp: list_all_iff)

lemma show_nat_no_namespace: "show_nat n @ s \<noteq> ''0namespace''" if "s = [] \<or> s = ''path''"
proof
  assume "show_nat n @ s = ''0namespace''"
  with that have "show_nat n = ''0namespace''"
    by (elim disjE) (auto dest: arg_cong[where f = last])
  then show False using show_nat_chars[of "CHR ''n''" n] by simp
qed

lemma arg_key_no_path: "\<not> suffix ''path'' (arg_key i)"
proof
  assume "suffix ''path'' (arg_key i)"
  then have "last (show_nat (unat i)) = CHR ''h''"
    by (auto simp: arg_key_def suffix_def dest: arg_cong[where f = last])
  moreover have "last (show_nat (unat i)) \<in> set (show_nat (unat i))" by simp
  ultimately show False using show_nat_chars[of "CHR ''h''"] by auto
qed

lemma parse_arg_index_show:
  assumes "i \<le> (63 :: u8)"
  shows "parse_arg_index key (show_nat (unat i)) = Inr i"
proof -
  have "unat i \<le> 63" using assms by (simp add: word_le_nat_alt)
  then show ?thesis by (simp add: parse_arg_index_def parse_unsigned_show)
qed

lemma apply_key_arg:
  "i \<le> 63 \<Longrightarrow> apply_key (arg_key i) v r = Inr (r\<lparr>mr_args := hm_insert i v (mr_args r)\<rparr>)"
  using arg_key_no_path[of i] show_nat_no_namespace[of "[]" "unat i"]
  by (simp add: apply_key_def arg_key_def parse_arg_index_show)

lemma apply_key_arg_path:
  "i \<le> 63 \<Longrightarrow>
     apply_key (arg_key i @ ''path'') v r = Inr (r\<lparr>mr_arg_paths := hm_insert i v (mr_arg_paths r)\<rparr>)"
  using show_nat_no_namespace[of "''path''" "unat i"]
  by (simp add: apply_key_def arg_key_def parse_arg_index_show slice_def suffix_def)

lemma hm_insert_fresh: "k \<notin> fst ` set m \<Longrightarrow> hm_insert k v m = m @ [(k, v)]"
  by (induction m) (auto simp: hm_insert_def)

lemma apply_keys_args:
  "list_all (\<lambda>i. i \<le> 63) (map fst m) \<Longrightarrow> distinct (map fst (mr_args r @ m)) \<Longrightarrow>
     apply_keys (map (\<lambda>(i, v). (arg_key i, v)) m) r = Inr (r\<lparr>mr_args := mr_args r @ m\<rparr>)"
proof (induction m arbitrary: r)
  case (Cons iv m)
  then show ?case by (cases iv) (auto simp: apply_key_arg hm_insert_fresh)
qed simp

lemma apply_keys_arg_paths:
  "list_all (\<lambda>i. i \<le> 63) (map fst m) \<Longrightarrow> distinct (map fst (mr_arg_paths r @ m)) \<Longrightarrow>
     apply_keys (map (\<lambda>(i, v). (arg_key i @ ''path'', v)) m) r = Inr (r\<lparr>mr_arg_paths := mr_arg_paths r @ m\<rparr>)"
proof (induction m arbitrary: r)
  case (Cons iv m)
  then show ?case by (cases iv) (auto simp: apply_key_arg_path hm_insert_fresh)
qed simp

lemma key_ok_arg: "key_ok (arg_key i)" "key_ok (arg_key i @ ''path'')"
  using show_nat_chars[of "CHR ''=''" "unat i"] show_nat_chars[of "CHR '',''" "unat i"] show_nat_plain
  by (auto simp: key_ok_def arg_key_def plain_def white_space_def)

lemma key_ok_names:
  "key_ok ''type''" "key_ok ''sender''" "key_ok ''interface''" "key_ok ''member''" "key_ok ''path''"
  "key_ok ''path_namespace''" "key_ok ''destination''" "key_ok ''arg0namespace''" "key_ok ''eavesdrop''"
  by (simp_all add: key_ok_def plain_def white_space_def)

lemma rule_pairs_ok: "rule_ok r \<Longrightarrow> list_all pair_ok (rule_pairs r)"
proof -
  have "list_all (\<lambda>(k, v). key_ok k) (rule_pairs r)"
    by (auto simp: rule_pairs_def list_all_iff opt_pair_def key_ok_arg key_ok_names split: option.splits)
  then show "rule_ok r \<Longrightarrow> list_all pair_ok (rule_pairs r)"
    by (auto simp: rule_ok_def pair_ok_def list_all_iff)
qed

lemma apply_keys_rule_pairs:
  assumes "rule_ok r"
  shows "apply_keys (rule_pairs r) (empty_rule s) = Inr (r\<lparr>rule_string := s\<rparr>)"
proof -
  have args: "list_all (\<lambda>i. i \<le> 63) (map fst (mr_args r))" "distinct (map fst (mr_args r))"
    and paths: "list_all (\<lambda>i. i \<le> 63) (map fst (mr_arg_paths r))" "distinct (map fst (mr_arg_paths r))"
    using assms by (simp_all add: rule_ok_def hm_wf_def)
  show ?thesis
    unfolding rule_pairs_def apply_keys_append apply_keys_opt empty_rule_def
    by (cases r)
       (use args paths in \<open>simp add: apply_keys_args apply_keys_arg_paths apply_key_def split: option.splits\<close>)
qed

text \<open>
  C21. Parsing is the inverse of printing: for every rule whose argument indices are at most 63
  and whose values contain no quote, \<open>parse\<close> returns the rule from its printed form, with the
  printed form recorded as its original string.
\<close>

theorem parse_print_rule:
  assumes "rule_ok r"
  shows "parse (render (rule_pairs r)) = Inr (r\<lparr>rule_string := render (rule_pairs r)\<rparr>)"
  using assms by (simp add: parse_render_pairs rule_pairs_ok apply_keys_rule_pairs)

definition sample_rule :: match_rule where
  "sample_rule = (empty_rule [])\<lparr>mr_type := Some ''signal'', mr_member := Some ''Hi'',
     mr_args := [(2, ''a,b'')], mr_arg_paths := [(0, ''/x/'')]\<rparr>"

lemma sample_rule_ok: "rule_ok sample_rule"
  by (simp add: rule_ok_def sample_rule_def empty_rule_def rule_pairs_def opt_pair_def value_ok_def
      hm_wf_def quote_def)

theorem parse_print_rule_witness:
  "rule_ok sample_rule
   \<and> parse (render (rule_pairs sample_rule)) =
       Inr (sample_rule\<lparr>rule_string := render (rule_pairs sample_rule)\<rparr>)"
  using parse_print_rule[of sample_rule] sample_rule_ok by simp

text \<open>
  A failure of \<open>parse\<close> on well-formed pairs is the failure of its first bad argument
  index: a rule whose pairs before \<open>(k, v)\<close> are accepted and whose key \<open>k\<close> carries an index
  that is no number of at most 63 is rejected with \<open>InvalidArgIndex(k)\<close>, whatever follows.
\<close>

lemma parse_rejects_bad_index:
  assumes "list_all pair_ok (ps @ (''arg'' @ num, v) # qs)"
    and "apply_keys ps (empty_rule (render (ps @ (''arg'' @ num, v) # qs))) = Inr r"
    and "\<not> suffix ''path'' num" and "num \<noteq> ''0namespace''"
    and "\<forall>n. parse_unsigned 255 num = Inr n \<longrightarrow> n > 63"
  shows "parse (render (ps @ (''arg'' @ num, v) # qs)) = Inl (InvalidArgIndex (''arg'' @ num))"
proof -
  have "\<not> suffix ''path'' (''arg'' @ num)"
    using assms(3) by (auto simp: suffix_def append_eq_append_conv2 Cons_eq_append_conv)
  moreover have "parse_arg_index (''arg'' @ num) num = Inl (InvalidArgIndex (''arg'' @ num))"
    using assms(5) by (auto simp: parse_arg_index_def split: sum.splits)
  ultimately have "apply_key (''arg'' @ num) v r = Inl (InvalidArgIndex (''arg'' @ num))"
    using assms(4) by (simp add: apply_key_def)
  then show ?thesis
    using assms(1,2) by (simp add: parse_render_pairs apply_keys_append)
qed

lemma parse_rejects_bad_index_witness:
  "parse (render [(''type'', ''signal''), (''arg64'', ''x'')]) = Inl (InvalidArgIndex ''arg64'')"
proof -
  have "parse_unsigned 255 ''64'' = Inr 64" by code_simp
  moreover have "list_all pair_ok [(''type'', ''signal''), (''arg64'', ''x'')]"
    by (simp add: pair_ok_def key_ok_def value_ok_def quote_def plain_def white_space_def)
  ultimately show ?thesis
    using parse_rejects_bad_index[of "[(''type'', ''signal'')]" "''64''" "''x''" "[]"]
    by (simp add: suffix_def apply_key_def append_eq_Cons_conv)
qed

end
