(* ===== verification/Route_Table.thy ===== *)
theory Route_Table
  imports Mux_Errors
begin

text \<open>
  The routing table of \<open>routing.rs\<close>: which names are owned on the container bus and on the
  host bus, and which bus each known unique name lives on. The table is fed by the
  \<open>NameOwnerChanged\<close> signals of the two buses; \<open>bus_owners\<close> is the abstract specification
  of what these signals say, and the table refines it.
\<close>

section \<open>Data\<close>

datatype route = Container | Host

fun display_route :: "route \<Rightarrow> string" where
  "display_route Container = ''Container''"
| "display_route Host = ''Host''"

record unique_name_registry =
  names :: "(string, route) hmap"

record routing_table =
  container_names :: "string list"
  host_names :: "string list"
  host_activatable :: "string list"
  unique_names :: unique_name_registry

section \<open>Operations\<close>

definition registry_new :: unique_name_registry where
  "registry_new = \<lparr>names = []\<rparr>"

definition registry_register ::
    "string \<Rightarrow> route \<Rightarrow> unique_name_registry \<Rightarrow> unique_name_registry" where
  "registry_register name r reg = reg\<lparr>names := hm_insert name r (names reg)\<rparr>"

definition registry_unregister :: "string \<Rightarrow> unique_name_registry \<Rightarrow> unique_name_registry" where
  "registry_unregister name reg = reg\<lparr>names := hm_remove name (names reg)\<rparr>"

definition registry_route_for :: "unique_name_registry \<Rightarrow> string \<Rightarrow> route option" where
  "registry_route_for reg name = hm_get (names reg) name"

definition routing_table_new :: routing_table where
  "routing_table_new =
     \<lparr>container_names = [], host_names = [], host_activatable = [], unique_names = registry_new\<rparr>"

definition route_for_unique_name :: "routing_table \<Rightarrow> string \<Rightarrow> route" where
  "route_for_unique_name t name =
     (case registry_route_for (unique_names t) name of Some r \<Rightarrow> r | None \<Rightarrow> Host)"

definition route_for :: "routing_table \<Rightarrow> string \<Rightarrow> route" where
  "route_for t destination =
     (if starts_with destination '':'' then route_for_unique_name t destination
      else if destination \<in> set (container_names t) then Container
      else if destination \<in> set (host_names t) then Host
      else if destination \<in> set (host_activatable t) then Host
      else Host)"

definition register_unique_name :: "string \<Rightarrow> route \<Rightarrow> routing_table \<Rightarrow> routing_table" where
  "register_unique_name name r t = t\<lparr>unique_names := registry_register name r (unique_names t)\<rparr>"

definition unregister_unique_name :: "string \<Rightarrow> routing_table \<Rightarrow> routing_table" where
  "unregister_unique_name name t = t\<lparr>unique_names := registry_unregister name (unique_names t)\<rparr>"

definition on_container_name_change ::
    "string \<Rightarrow> string \<Rightarrow> string \<Rightarrow> routing_table \<Rightarrow> routing_table" where
  "on_container_name_change name old_owner new_owner t =
     (let t1 = (if old_owner \<noteq> [] then unregister_unique_name old_owner t else t) in
      if new_owner = [] then
        t1\<lparr>container_names := hs_remove name (container_names t1)\<rparr>
      else
        register_unique_name new_owner Container
          (t1\<lparr>container_names := List.insert name (container_names t1)\<rparr>))"

definition on_host_name_change ::
    "string \<Rightarrow> string \<Rightarrow> string \<Rightarrow> routing_table \<Rightarrow> routing_table" where
  "on_host_name_change name old_owner new_owner t =
     (let t1 = (if old_owner \<noteq> [] then unregister_unique_name old_owner t else t) in
      if new_owner = [] then
        t1\<lparr>host_names := hs_remove name (host_names t1)\<rparr>
      else
        register_unique_name new_owner Host
          (t1\<lparr>host_names := List.insert name (host_names t1)\<rparr>))"

definition set_container_names :: "string list \<Rightarrow> routing_table \<Rightarrow> routing_table" where
  "set_container_names ns t = t\<lparr>container_names := hs_collect ns\<rparr>"

definition set_host_names :: "string list \<Rightarrow> routing_table \<Rightarrow> routing_table" where
  "set_host_names ns t = t\<lparr>host_names := hs_collect ns\<rparr>"

definition set_host_activatable :: "string list \<Rightarrow> routing_table \<Rightarrow> routing_table" where
  "set_host_activatable ns t = t\<lparr>host_activatable := hs_collect ns\<rparr>"

definition all_names :: "routing_table \<Rightarrow> string list" where
  "all_names t = fold List.insert (host_names t) (container_names t)"

definition table_name_has_owner :: "routing_table \<Rightarrow> string \<Rightarrow> bool" where
  "table_name_has_owner t name = (name \<in> set (container_names t) \<or> name \<in> set (host_names t))"

definition get_name_owner_route :: "routing_table \<Rightarrow> string \<Rightarrow> route option" where
  "get_name_owner_route t name =
     (if name \<in> set (container_names t) then Some Container
      else if name \<in> set (host_names t) then Some Host
      else None)"

definition is_container_name :: "routing_table \<Rightarrow> string \<Rightarrow> bool" where
  "is_container_name t name = (name \<in> set (container_names t))"

definition is_host_name :: "routing_table \<Rightarrow> string \<Rightarrow> bool" where
  "is_host_name t name = (name \<in> set (host_names t))"

section \<open>The stream of name changes and its specification\<close>

text \<open>One \<open>NameOwnerChanged\<close> signal: the bus it came from, the name, old and new owner.\<close>

datatype name_change = NameOwnerChanged route string string string

fun apply_name_change :: "name_change \<Rightarrow> routing_table \<Rightarrow> routing_table" where
  "apply_name_change (NameOwnerChanged Container n old new) t = on_container_name_change n old new t"
| "apply_name_change (NameOwnerChanged Host n old new) t = on_host_name_change n old new t"

text \<open>
  The specification: the owner of each name on each bus is the one the last signal about it
  announced, and none where that signal announced the empty owner.
\<close>

type_synonym bus_owners = "route \<Rightarrow> string \<Rightarrow> string option"

fun owner_change :: "name_change \<Rightarrow> bus_owners \<Rightarrow> bus_owners" where
  "owner_change (NameOwnerChanged r n old new) B =
     B(r := (B r)(n := if new = [] then None else Some new))"

definition table_tracks :: "routing_table \<Rightarrow> bus_owners \<Rightarrow> bool" where
  "table_tracks t B =
     (\<forall>n. (n \<in> set (container_names t) \<longleftrightarrow> B Container n \<noteq> None) \<and>
          (n \<in> set (host_names t) \<longleftrightarrow> B Host n \<noteq> None))"

definition table_wf :: "routing_table \<Rightarrow> bool" where
  "table_wf t = (distinct (container_names t) \<and> distinct (host_names t)
     \<and> distinct (host_activatable t) \<and> hm_wf (names (unique_names t)))"

section \<open>Lemmas\<close>

lemmas routing_defs [mux_simps] =
  route_for_def route_for_unique_name_def registry_route_for_def registry_register_def
  registry_unregister_def register_unique_name_def unregister_unique_name_def
  on_container_name_change_def on_host_name_change_def Let_def

lemma on_container_names [simp]:
  "set (container_names (on_container_name_change n old new t)) =
     (if new = [] then set (container_names t) - {n} else insert n (set (container_names t)))"
  "host_names (on_container_name_change n old new t) = host_names t"
  "host_activatable (on_container_name_change n old new t) = host_activatable t"
  by (auto simp: mux_simps)

lemma on_host_names [simp]:
  "set (host_names (on_host_name_change n old new t)) =
     (if new = [] then set (host_names t) - {n} else insert n (set (host_names t)))"
  "container_names (on_host_name_change n old new t) = container_names t"
  "host_activatable (on_host_name_change n old new t) = host_activatable t"
  by (auto simp: mux_simps)

lemma registry_after_change:
  "hm_get (names (unique_names (on_container_name_change n old new t))) u =
     (if new \<noteq> [] \<and> u = new then Some Container
      else if old \<noteq> [] \<and> u = old then None else hm_get (names (unique_names t)) u)"
  "hm_get (names (unique_names (on_host_name_change n old new t))) u =
     (if new \<noteq> [] \<and> u = new then Some Host
      else if old \<noteq> [] \<and> u = old then None else hm_get (names (unique_names t)) u)"
  by (auto simp: mux_simps)

lemma table_wf_new [simp, inv_intros]: "table_wf routing_table_new"
  by (simp add: table_wf_def routing_table_new_def registry_new_def)

lemma table_wf_change [inv_intros]:
  "table_wf t \<Longrightarrow> table_wf (on_container_name_change n old new t)"
  "table_wf t \<Longrightarrow> table_wf (on_host_name_change n old new t)"
  by (auto simp: table_wf_def mux_simps)

lemma table_wf_set [inv_intros]:
  "table_wf t \<Longrightarrow> table_wf (set_container_names ns t)"
  "table_wf t \<Longrightarrow> table_wf (set_host_names ns t)"
  "table_wf t \<Longrightarrow> table_wf (set_host_activatable ns t)"
  by (simp_all add: table_wf_def set_container_names_def set_host_names_def
      set_host_activatable_def)

lemma table_wf_apply [inv_intros]: "table_wf t \<Longrightarrow> table_wf (apply_name_change e t)"
  by (cases "(e, t)" rule: apply_name_change.cases) (auto intro: inv_intros)

lemma table_wf_fold: "table_wf t \<Longrightarrow> table_wf (fold apply_name_change es t)"
  by (induction es arbitrary: t) (auto intro: inv_intros)

lemma route_for_well_known:
  "\<not> starts_with n '':'' \<Longrightarrow> route_for t n = (if n \<in> set (container_names t) then Container else Host)"
  by (simp add: route_for_def)

lemma set_all_names [simp]: "set (all_names t) = set (container_names t) \<union> set (host_names t)"
  by (auto simp: all_names_def set_fold_insert)

lemma distinct_all_names: "table_wf t \<Longrightarrow> distinct (all_names t)"
  by (simp add: all_names_def table_wf_def distinct_fold_insert)

lemma table_tracks_step: "table_tracks t B \<Longrightarrow> table_tracks (apply_name_change e t) (owner_change e B)"
  by (cases "(e, t)" rule: apply_name_change.cases) (auto simp: table_tracks_def)

lemma table_tracks_fold:
  "table_tracks t B \<Longrightarrow> table_tracks (fold apply_name_change es t) (fold owner_change es B)"
  by (induction es arbitrary: t B) (auto intro: table_tracks_step)

lemma table_tracks_new: "table_tracks routing_table_new (\<lambda>_ _. None)"
  by (simp add: table_tracks_def routing_table_new_def)

section \<open>Properties\<close>



text \<open>
  C26. A unique name follows the last name its owner acquired on either bus, up to the first
  name it loses: after the loss of any of its names, on whichever bus, the table no longer
  knows it and routes it to the host, although the connection may still be alive in the
  container and own other names.
\<close>

theorem unique_name_lost_with_any_name:
  assumes "starts_with u '':''" and "new \<noteq> u"
  shows "route_for (on_container_name_change n u new t) u = Host
     \<and> route_for (on_host_name_change n u new t) u = Host
     \<and> route_for (on_container_name_change n old u t) u = Container
     \<and> route_for (on_host_name_change n old u t) u = Host"
  using assms by (auto simp: route_for_def route_for_unique_name_def registry_route_for_def
      registry_after_change)

theorem unique_name_lost_with_any_name_witness:
  "let t = on_container_name_change ''org.b'' [] '':1.7''
        (on_container_name_change ''org.a'' [] '':1.7'' routing_table_new)
   in route_for t '':1.7'' = Container
    \<and> route_for (on_container_name_change ''org.a'' '':1.7'' [] t) '':1.7'' = Host
    \<and> route_for (on_container_name_change ''org.a'' '':1.7'' [] t) ''org.b'' = Container"
  using unique_name_lost_with_any_name[of "'':1.7''" "[]" "''org.a''"
      "on_container_name_change ''org.b'' [] '':1.7''
        (on_container_name_change ''org.a'' [] '':1.7'' routing_table_new)" "[]"]
    unique_name_lost_with_any_name[of "'':1.7''" "[]" "''org.b''"
      "on_container_name_change ''org.a'' [] '':1.7'' routing_table_new" "[]"]
  by (simp add: route_for_well_known Let_def)

end
