(* ===== verification/Correlation.thy ===== *)
theory Correlation
  imports Mux_Prelude
begin

text \<open>
  The contract that \<open>SerialMap\<close> and \<open>PortalRequestTracker\<close> share: a table that records which
  client waits under a key, hands the client out once, and drops entries older than a
  timeout. The clients of both (the router, the signal handler) rely only on these laws, so
  what follows from them is proved here once, for every sequence of operations.
\<close>

datatype ('k, 'c) corr_op = Record instant 'k 'c | Claim 'k | Expire instant

primrec corr_step :: "(instant \<Rightarrow> 'k \<Rightarrow> 'c \<Rightarrow> 't \<Rightarrow> 't) \<Rightarrow> ('k \<Rightarrow> 't \<Rightarrow> 'c option \<times> 't) \<Rightarrow>
    (instant \<Rightarrow> 't \<Rightarrow> nat \<times> 't) \<Rightarrow> ('k, 'c) corr_op \<Rightarrow> 't \<Rightarrow> 't" where
  "corr_step rec clm expr (Record now k c) t = rec now k c t"
| "corr_step rec clm expr (Claim k) t = snd (clm k t)"
| "corr_step rec clm expr (Expire now) t = snd (expr now t)"

text \<open>
  An operation leaves the entry of \<open>k\<close>, recorded at \<open>at\<close>, alone when it concerns another key
  or is a clean-up within the timeout.
\<close>

primrec harmless :: "duration \<Rightarrow> instant \<Rightarrow> 'k \<Rightarrow> ('k, 'c) corr_op \<Rightarrow> bool" where
  "harmless ttl start k (Record now j c) = (j \<noteq> k)"
| "harmless ttl start k (Claim j) = (j \<noteq> k)"
| "harmless ttl start k (Expire now) = (now - start < ttl)"

primrec records_key :: "'k \<Rightarrow> ('k, 'c) corr_op \<Rightarrow> bool" where
  "records_key k (Record now j c) = (j = k)"
| "records_key k (Claim j) = False"
| "records_key k (Expire now) = False"

locale correlation_table =
  fixes entry :: "'t \<Rightarrow> 'k \<Rightarrow> ('c \<times> instant) option"
    and rec :: "instant \<Rightarrow> 'k \<Rightarrow> 'c \<Rightarrow> 't \<Rightarrow> 't"
    and clm :: "'k \<Rightarrow> 't \<Rightarrow> 'c option \<times> 't"
    and expr :: "instant \<Rightarrow> 't \<Rightarrow> nat \<times> 't"
    and ttl :: "'t \<Rightarrow> duration"
    and wf :: "'t \<Rightarrow> bool"
  assumes entry_rec: "entry (rec now k c t) j = (if j = k then Some (c, now) else entry t j)"
    and clm_result: "fst (clm k t) = map_option fst (entry t k)"
    and entry_clm: "entry (snd (clm k t)) j = (if j = k then None else entry t j)"
    and entry_expr: "wf t \<Longrightarrow> entry (snd (expr now t)) k =
          (case entry t k of None \<Rightarrow> None
           | Some (c, at) \<Rightarrow> if now - at < ttl t then Some (c, at) else None)"
    and expr_result: "wf t \<Longrightarrow> fst (expr now t) =
          card {k. \<exists>c at. entry t k = Some (c, at) \<and> \<not> now - at < ttl t}"
    and ttl_ops: "ttl (rec now k c t) = ttl t" "ttl (snd (clm k t)) = ttl t"
          "ttl (snd (expr now t)) = ttl t"
    and wf_ops: "wf t \<Longrightarrow> wf (rec now k c t)" "wf t \<Longrightarrow> wf (snd (clm k t))"
          "wf t \<Longrightarrow> wf (snd (expr now t))"
begin

lemma wf_step: "wf t \<Longrightarrow> wf (corr_step rec clm expr op t)"
  by (cases op) (auto intro: wf_ops)

lemma ttl_step: "ttl (corr_step rec clm expr op t) = ttl t"
  by (cases op) (auto simp: ttl_ops)

lemma wf_run: "wf t \<Longrightarrow> wf (fold (corr_step rec clm expr) ops t)"
  by (induction ops arbitrary: t) (auto intro: wf_step)

lemma entry_step_harmless:
  "\<lbrakk>wf t; entry t k = Some (c, at); harmless (ttl t) at k op\<rbrakk>
     \<Longrightarrow> entry (corr_step rec clm expr op t) k = Some (c, at)"
  by (cases op) (auto simp: entry_rec entry_clm entry_expr)

lemma entry_run_harmless:
  "\<lbrakk>wf t; entry t k = Some (c, at); \<forall>op\<in>set ops. harmless (ttl t) at k op\<rbrakk>
     \<Longrightarrow> entry (fold (corr_step rec clm expr) ops t) k = Some (c, at)"
  by (induction ops arbitrary: t) (simp_all add: entry_step_harmless wf_step ttl_step)

text \<open>What is recorded is what is claimed, across any harmless traffic in between.\<close>

lemma claim_after_record:
  assumes "wf t" and "\<forall>op\<in>set ops. harmless (ttl t) now k op"
  shows "fst (clm k (fold (corr_step rec clm expr) ops (rec now k c t))) = Some c"
proof -
  have "entry (rec now k c t) k = Some (c, now)" by (simp add: entry_rec)
  then have "entry (fold (corr_step rec clm expr) ops (rec now k c t)) k = Some (c, now)"
    using assms by (intro entry_run_harmless) (auto intro: wf_ops simp: ttl_ops)
  then show ?thesis by (simp add: clm_result)
qed

lemma entry_step_absent:
  "\<lbrakk>wf t; entry t k = None; \<not> records_key k op\<rbrakk> \<Longrightarrow> entry (corr_step rec clm expr op t) k = None"
  by (cases op) (auto simp: entry_rec entry_clm entry_expr)

lemma entry_run_absent:
  "\<lbrakk>wf t; entry t k = None; \<forall>op\<in>set ops. \<not> records_key k op\<rbrakk>
     \<Longrightarrow> entry (fold (corr_step rec clm expr) ops t) k = None"
  by (induction ops arbitrary: t) (simp_all add: entry_step_absent wf_step)

text \<open>A claimed entry is gone: nobody claims it again until the key is recorded anew.\<close>

lemma claim_at_most_once:
  assumes "wf t" and "\<forall>op\<in>set ops. \<not> records_key k op"
  shows "fst (clm k (fold (corr_step rec clm expr) ops (snd (clm k t)))) = None"
proof -
  have "entry (fold (corr_step rec clm expr) ops (snd (clm k t))) k = None"
    using assms by (intro entry_run_absent) (auto simp: entry_clm intro: wf_ops)
  then show ?thesis by (simp add: clm_result)
qed

lemma expired_gone:
  "\<lbrakk>wf t; entry t k = Some (c, at); ttl t \<le> now - at\<rbrakk> \<Longrightarrow> entry (snd (expr now t)) k = None"
  by (simp add: entry_expr)

end

end
