(* ===== verification/Serial_Map.thy ===== *)
theory Serial_Map
  imports Route_Table Correlation
begin

text \<open>
  The serial map and the serial generator of \<open>serial_map.rs\<close>: forwarded serials are mapped
  back to the client and to the serial the client used. The map implements the contract
  \<open>correlation_table\<close>; the generator hands out non-zero serials that repeat only after all
  \<open>2 ^ 32 - 1\<close> of them were used. \<open>Instant::now()\<close> is an argument.
\<close>

section \<open>Data\<close>

record pending_call =
  pc_client_id :: client_id
  pc_client_serial :: u32
  pc_timestamp :: instant

record serial_key =
  sk_route :: route
  sk_serial :: u32

record serial_map =
  sm_pending :: "(serial_key, pending_call) hmap"
  sm_timeout :: duration

record serial_generator =
  counter :: u32

section \<open>Operations\<close>

definition serial_key_new :: "route \<Rightarrow> u32 \<Rightarrow> serial_key" where
  "serial_key_new r s = \<lparr>sk_route = r, sk_serial = s\<rparr>"

definition serial_map_with_timeout :: "duration \<Rightarrow> serial_map" where
  "serial_map_with_timeout d = \<lparr>sm_pending = [], sm_timeout = d\<rparr>"

definition serial_map_new :: serial_map where
  "serial_map_new = serial_map_with_timeout (30 * 1000)"

definition serial_map_insert ::
    "instant \<Rightarrow> route \<Rightarrow> u32 \<Rightarrow> client_id \<Rightarrow> u32 \<Rightarrow> serial_map \<Rightarrow> serial_map" where
  "serial_map_insert now r forwarded_serial client_id client_serial m =
     (let key = serial_key_new r forwarded_serial;
          pending = \<lparr>pc_client_id = client_id, pc_client_serial = client_serial, pc_timestamp = now\<rparr>
      in m\<lparr>sm_pending := hm_insert key pending (sm_pending m)\<rparr>)"

definition serial_map_remove ::
    "route \<Rightarrow> u32 \<Rightarrow> serial_map \<Rightarrow> pending_call option \<times> serial_map" where
  "serial_map_remove r reply_serial m =
     (let key = serial_key_new r reply_serial
      in (hm_get (sm_pending m) key, m\<lparr>sm_pending := hm_remove key (sm_pending m)\<rparr>))"

definition serial_map_cleanup_expired :: "instant \<Rightarrow> serial_map \<Rightarrow> nat \<times> serial_map" where
  "serial_map_cleanup_expired now m =
     (let before = length (sm_pending m);
          m' = m\<lparr>sm_pending :=
                 hm_retain (\<lambda>_ call. now - pc_timestamp call < sm_timeout m) (sm_pending m)\<rparr>
      in (before - length (sm_pending m'), m'))"

definition serial_map_len :: "serial_map \<Rightarrow> nat" where
  "serial_map_len m = length (sm_pending m)"

definition serial_map_is_empty :: "serial_map \<Rightarrow> bool" where
  "serial_map_is_empty m = (sm_pending m = [])"

definition pending_for_client :: "serial_map \<Rightarrow> client_id \<Rightarrow> nat" where
  "pending_for_client m client_id =
     length (filter (\<lambda>call. pc_client_id call = client_id) (map snd (sm_pending m)))"

definition serial_generator_new :: serial_generator where
  "serial_generator_new = \<lparr>counter = 1\<rparr>"

text \<open>\<open>fetch_add\<close> returns the old value and wraps around.\<close>

definition fetch_add :: "u32 \<Rightarrow> serial_generator \<Rightarrow> u32 \<times> serial_generator" where
  "fetch_add n g = (counter g, g\<lparr>counter := counter g + n\<rparr>)"

definition serial_next :: "serial_generator \<Rightarrow> u32 \<times> serial_generator" where
  "serial_next g =
     (let (serial, g') = fetch_add 1 g
      in if serial = 0 then fetch_add 1 g' else (serial, g'))"

text \<open>The serials of \<open>n\<close> successive calls.\<close>

fun serials :: "nat \<Rightarrow> serial_generator \<Rightarrow> u32 list" where
  "serials 0 g = []"
| "serials (Suc n) g = (let (s, g') = serial_next g in s # serials n g')"

section \<open>The serial map as a correlation table\<close>

text \<open>
  Keys are pairs of route and serial; what is recorded is the pair of client and client
  serial.
\<close>

type_synonym origin = "client_id \<times> u32"

definition call_origin :: "pending_call \<Rightarrow> origin" where
  "call_origin p = (pc_client_id p, pc_client_serial p)"

definition sm_entry :: "serial_map \<Rightarrow> route \<times> u32 \<Rightarrow> (origin \<times> instant) option" where
  "sm_entry m k = map_option (\<lambda>p. (call_origin p, pc_timestamp p))
     (hm_get (sm_pending m) (serial_key_new (fst k) (snd k)))"

definition sm_record :: "instant \<Rightarrow> route \<times> u32 \<Rightarrow> origin \<Rightarrow> serial_map \<Rightarrow> serial_map" where
  "sm_record now k c m = serial_map_insert now (fst k) (snd k) (fst c) (snd c) m"

definition sm_claim :: "route \<times> u32 \<Rightarrow> serial_map \<Rightarrow> origin option \<times> serial_map" where
  "sm_claim k m = (let (p, m') = serial_map_remove (fst k) (snd k) m in (map_option call_origin p, m'))"

definition sm_wf :: "serial_map \<Rightarrow> bool" where
  "sm_wf m = hm_wf (sm_pending m)"

lemmas serial_map_defs [mux_simps] =
  serial_map_insert_def serial_map_remove_def serial_map_cleanup_expired_def sm_entry_def
  sm_record_def sm_claim_def call_origin_def serial_key_new_def sm_wf_def

lemma serial_key_inj: "serial_key_new r s = serial_key_new r' s' \<longleftrightarrow> r = r' \<and> s = s'"
  by (simp add: serial_key_new_def)

lemma inj_serial_key: "inj (\<lambda>k. serial_key_new (fst k) (snd k))"
  by (simp add: inj_def serial_key_inj prod_eq_iff)

lemma serial_key_surj: "\<exists>r s. key = serial_key_new r s"
  by (cases key) (simp add: serial_key_new_def)

lemma sm_expired_card:
  assumes "hm_wf m"
  shows "length m - length (hm_retain (\<lambda>_ call. now - pc_timestamp call < d) m) =
    card {k. \<exists>c at. map_option (\<lambda>p. (call_origin p, pc_timestamp p))
      (hm_get m (serial_key_new (fst k) (snd k))) = Some (c, at) \<and> \<not> now - at < d}"
    (is "_ = card ?K")
proof -
  let ?D = "{key. \<exists>v. hm_get m key = Some v \<and> \<not> now - pc_timestamp v < d}"
  have "?D = (\<lambda>k. serial_key_new (fst k) (snd k)) ` ?K"
  proof (intro set_eqI iffI)
    fix key assume "key \<in> ?D"
    moreover obtain r s where "key = serial_key_new r s" using serial_key_surj by blast
    ultimately show "key \<in> (\<lambda>k. serial_key_new (fst k) (snd k)) ` ?K"
      by (intro image_eqI[of _ _ "(r, s)"]) auto
  qed auto
  then have "card ?D = card ?K"
    by (simp add: card_image inj_on_subset[OF inj_serial_key])
  then show ?thesis
    using hm.len_retain_dropped[OF assms] by simp
qed

interpretation sm: correlation_table sm_entry sm_record sm_claim
  serial_map_cleanup_expired sm_timeout sm_wf
proof unfold_locales
  fix m now
  show "sm_wf m \<Longrightarrow> fst (serial_map_cleanup_expired now m) =
      card {k. \<exists>c at. sm_entry m k = Some (c, at) \<and> \<not> now - at < sm_timeout m}"
    using sm_expired_card[of "sm_pending m" now "sm_timeout m"]
    by (simp add: serial_map_cleanup_expired_def sm_entry_def sm_wf_def Let_def)
  fix k
  show "fst (sm_claim k m) = map_option fst (sm_entry m k)"
    by (simp add: sm_claim_def sm_entry_def serial_map_remove_def option.map_comp comp_def Let_def)
qed (auto simp: mux_simps Let_def prod_eq_iff hm.get_retain split: option.splits)

section \<open>Serials\<close>

text \<open>The serial a generator hands out next, and the successor among non-zero serials.\<close>

definition succ_serial :: "u32 \<Rightarrow> u32" where
  "succ_serial s = (if s + 1 = 0 then 1 else s + 1)"

lemma serial_next_eq:
  "serial_next g = (if counter g = 0 then 1 else counter g,
     g\<lparr>counter := (if counter g = 0 then 1 else counter g) + 1\<rparr>)"
  by (simp add: serial_next_def fetch_add_def)

lemma serial_next_succ:
  "serial_next g = (s, g') \<Longrightarrow> fst (serial_next g') = succ_serial s"
  by (auto simp: serial_next_eq succ_serial_def)

lemma serials_eq: "serials n g = map (\<lambda>i. (succ_serial ^^ i) (fst (serial_next g))) [0..<n]"
proof (induction n arbitrary: g)
  case 0
  then show ?case by simp
next
  case (Suc n)
  obtain s g' where sg: "serial_next g = (s, g')" by fastforce
  have "serials (Suc n) g = s # map (\<lambda>i. (succ_serial ^^ i) (succ_serial s)) [0..<n]"
    by (simp add: sg Suc.IH serial_next_succ[OF sg])
  also have "\<dots> = map (\<lambda>i. (succ_serial ^^ i) s) [0..<Suc n]"
    by (simp add: map_upt_Suc funpow_swap1 del: upt_Suc)
  finally show ?case by (simp add: sg)
qed

lemma unat_succ_serial:
  assumes "s \<noteq> 0"
  shows "unat (succ_serial s) = (unat s - 1 + 1) mod (2 ^ 32 - 1) + 1"
proof (cases "s + 1 = 0")
  case True
  then have "s = - 1" by (simp add: add_eq_0_iff2)
  then have "unat s = 2 ^ 32 - 1" by (simp add: unsigned_minus_1_eq_mask mask_eq_exp_minus_1)
  with True show ?thesis by (simp add: succ_serial_def)
next
  case False
  then have suc: "unat (s + 1) = Suc (unat s)"
    using unatSuc[of s] by (simp add: add.commute)
  have "unat s \<noteq> 0" using assms by (simp add: unat_eq_0)
  moreover have "Suc (unat s) < 2 ^ 32"
    using suc unat_u32_less[of "s + 1"] by simp
  ultimately show ?thesis using False suc by (simp add: succ_serial_def)
qed

lemma unat_succ_serial_pow:
  assumes "s \<noteq> 0"
  shows "unat ((succ_serial ^^ i) s) = (unat s - 1 + i) mod (2 ^ 32 - 1) + 1"
proof (induction i)
  case 0
  have "unat s - 1 < 2 ^ 32 - 1"
    using unat_u32_less[of s] assms by (simp add: unat_eq_0)
  moreover have "0 < unat s" using assms by (simp add: unat_gt_0)
  ultimately show ?case by simp
next
  case (Suc i)
  then have "(succ_serial ^^ i) s \<noteq> 0" by (metis add_is_0 one_neq_zero unat_0)
  from unat_succ_serial[OF this] Suc show ?case
    by (simp add: mod_Suc_eq)
qed

lemma serial_next_nonzero: "fst (serial_next g) \<noteq> 0"
  by (simp add: serial_next_eq)

lemma succ_serial_nonzero: "s \<noteq> 0 \<Longrightarrow> (succ_serial ^^ i) s \<noteq> 0"
  using unat_succ_serial_pow[of s i] by (metis add_is_0 one_neq_zero unat_0)

lemma mod_shift_inj:
  fixes a i j n :: nat
  assumes "(a + i) mod n = (a + j) mod n" and "i < n" "j < n"
  shows "i = j"
  using assms
proof (induction i j rule: linorder_wlog)
  case (le i j)
  then have "n dvd j - i"
    using mod_eq_dvd_iff_nat[of "a + i" "a + j" n] by simp
  moreover have "j - i < n" using le.prems by linarith
  ultimately have "j - i = 0" by (meson nat_dvd_not_less not_gr_zero)
  with le.hyps show ?case by simp
next
  case (sym i j)
  then show ?case by metis
qed

lemma succ_serial_pow_inj:
  assumes "s \<noteq> 0" "i < 2 ^ 32 - 1" "j < 2 ^ 32 - 1"
    and "(succ_serial ^^ i) s = (succ_serial ^^ j) s"
  shows "i = j"
proof -
  have "(unat s - 1 + i) mod (2 ^ 32 - 1) = (unat s - 1 + j) mod (2 ^ 32 - 1)"
    using unat_succ_serial_pow[OF assms(1), of i] unat_succ_serial_pow[OF assms(1), of j] assms(4)
    by simp
  then show ?thesis using assms(2,3) by (rule mod_shift_inj)
qed

section \<open>Properties\<close>

text \<open>
  C19. The generator hands out non-zero serials, and no serial twice within any run of
  \<open>2 ^ 32 - 1\<close> calls, in whatever state the counter starts (the wrap past zero included).
\<close>

theorem serials_distinct_nonzero:
  assumes "n \<le> 2 ^ 32 - 1"
  shows "distinct (serials n g) \<and> 0 \<notin> set (serials n g)"
proof -
  let ?s = "fst (serial_next g)"
  have "distinct (serials n g)"
    unfolding serials_eq distinct_map
    using assms succ_serial_pow_inj[OF serial_next_nonzero] by (auto intro!: inj_onI)
  moreover have "0 \<notin> set (serials n g)"
    unfolding serials_eq using succ_serial_nonzero[OF serial_next_nonzero] by auto
  ultimately show ?thesis ..
qed

theorem serials_distinct_nonzero_witness:
  "(2 :: nat) \<le> 2 ^ 32 - 1 \<and> distinct (serials 2 \<lparr>counter = - 1\<rparr>) \<and> 0 \<notin> set (serials 2 \<lparr>counter = - 1\<rparr>)"
  using serials_distinct_nonzero[of 2 "\<lparr>counter = - 1\<rparr>"] by simp

text \<open>
  Reply correlation: once a call is recorded under its route and forwarded serial, \<open>remove\<close>
  with that route and reply serial returns the recorded client and client serial, across any
  sequence of inserts and removals under other keys and of clean-ups within the timeout.
\<close>

lemma reply_correlation:
  assumes "sm_wf m" and "\<forall>op\<in>set ops. harmless (sm_timeout m) now (r, s) op"
  shows "map_option call_origin (fst (serial_map_remove r s
     (fold (corr_step sm_record sm_claim serial_map_cleanup_expired) ops
        (serial_map_insert now r s client client_serial m)))) = Some (client, client_serial)"
  using sm.claim_after_record[OF assms, of "(client, client_serial)"]
  by (simp add: sm_claim_def sm_record_def case_prod_unfold Let_def)

lemma reply_correlation_witness:
  "map_option call_origin (fst (serial_map_remove Host 7
     (fold (corr_step sm_record sm_claim serial_map_cleanup_expired)
        [Record 5 (Container, 7) (2, 9), Claim (Host, 8), Expire 29999]
        (serial_map_insert 0 Host 7 1 42 serial_map_new)))) = Some (1, 42)"
  by (rule reply_correlation)
     (simp_all add: sm_wf_def serial_map_new_def serial_map_with_timeout_def)

text \<open>
  A reply is delivered at most once: after \<open>remove\<close> under a key, no later \<open>remove\<close> under
  the same key finds anything until the key is inserted anew.
\<close>

lemma reply_at_most_once:
  assumes "sm_wf m" and "\<forall>op\<in>set ops. \<not> records_key (r, s) op"
  shows "fst (serial_map_remove r s
     (fold (corr_step sm_record sm_claim serial_map_cleanup_expired) ops (snd (serial_map_remove r s m)))) = None"
  using sm.claim_at_most_once[OF assms] by (simp add: sm_claim_def case_prod_unfold Let_def)

lemma reply_at_most_once_witness:
  "fst (serial_map_remove Host 7
     (fold (corr_step sm_record sm_claim serial_map_cleanup_expired)
        [Record 5 (Container, 7) (2, 9), Claim (Host, 7)]
        (snd (serial_map_remove Host 7 (serial_map_insert 0 Host 7 1 42 serial_map_new))))) = None"
  by (rule reply_at_most_once)
     (simp_all add: sm_wf_def serial_map_new_def serial_map_with_timeout_def serial_map_insert_def hm.wf_put)

text \<open>
  Clean-up is exact: \<open>cleanup_expired\<close> keeps every pending call younger than the timeout,
  drops every other one, and returns the number it dropped.
\<close>

lemma cleanup_expired_exact:
  assumes "sm_wf m" and "serial_map_cleanup_expired now m = (n, m')"
  shows "(\<forall>k. sm_entry m' k =
      (case sm_entry m k of None \<Rightarrow> None
       | Some (c, at) \<Rightarrow> if now - at < sm_timeout m then Some (c, at) else None))
     \<and> n = card {k. \<exists>c at. sm_entry m k = Some (c, at) \<and> \<not> now - at < sm_timeout m}"
  using sm.entry_expr[OF assms(1), of now] sm.expr_result[OF assms(1), of now] assms(2) by simp

lemma cleanup_expired_exact_witness:
  "let m = serial_map_insert 0 Host 7 1 42 serial_map_new
   in sm_wf m \<and> sm_entry (snd (serial_map_cleanup_expired 30000 m)) (Host, 7) = None"
proof -
  let ?m = "serial_map_insert 0 Host 7 1 42 serial_map_new"
  have "sm_wf ?m"
    by (simp add: sm_wf_def serial_map_new_def serial_map_with_timeout_def serial_map_insert_def hm.wf_put)
  moreover have "sm_entry ?m (Host, 7) = Some ((1, 42), 0)" "sm_timeout ?m = 30000"
    by (simp_all add: mux_simps serial_map_new_def serial_map_with_timeout_def)
  ultimately show ?thesis
    using cleanup_expired_exact[of ?m 30000 "fst (serial_map_cleanup_expired 30000 ?m)"
        "snd (serial_map_cleanup_expired 30000 ?m)"] by simp
qed

end
