(* ===== verification/Message_Rewriting.thy ===== *)
theory Message_Rewriting
  imports Dbus_Message
begin

text \<open>
  What the rewriting functions of \<open>message.rs\<close> change and what they keep, and a concrete instance
  of \<open>zbus_api\<close> that satisfies \<open>wire_laws\<close> and \<open>builder_laws\<close>.
\<close>

section \<open>An instance of the zbus interface\<close>

definition blank_header :: header where
  "blank_header = \<lparr>h_type = MethodCall, h_serial = 1, h_path = None, h_interface = None,
     h_member = None, h_error_name = None, h_destination = None, h_sender = None,
     h_reply_serial = None, h_signature = []\<rparr>"

definition sample_api :: zbus_api where
  "sample_api =
    \<lparr>z_from_bytes = (\<lambda>e bs. if length bs < 16 then Inl (OtherZbusError ''short message'')
       else Inr (header.extend (blank_header\<lparr>h_serial := from_bytes e (slice 8 12 bs)\<rparr>) (message.fields bs [] []))),
     z_method_return = (\<lambda>r. Inr (blank_header\<lparr>h_type := MethodReturn, h_reply_serial := Some (h_serial r)\<rparr>)),
     z_error = (\<lambda>r n. Inr (blank_header\<lparr>h_type := ErrorType, h_reply_serial := Some (h_serial r), h_error_name := Some n\<rparr>)),
     z_bus_name = Inr, z_error_name = Inr, z_object_path = Inr,
     z_set_destination = (\<lambda>d h. Inr (h\<lparr>h_destination := Some d\<rparr>)),
     z_set_path = (\<lambda>p h. Inr (h\<lparr>h_path := Some p\<rparr>)),
     z_build = (\<lambda>h v. Inr (header.extend h (message.fields [] [] []))),
     z_build_raw_body = (\<lambda>h b s fds. Inr (header.extend (h\<lparr>h_signature := s\<rparr>) (message.fields [] b fds))),
     fd_try_to_owned = Inr,
     de_string = (\<lambda>m. Inl ''none''), de_string_tuple1 = (\<lambda>m. Inl ''none''),
     de_string_tuple2 = (\<lambda>m. Inl ''none''), de_string_tuple3 = (\<lambda>m. Inl ''none''),
     de_string_u32 = (\<lambda>m. Inl ''none''), de_structure = (\<lambda>m. Inr []),
     de_object_path = (\<lambda>m. Inl ''none''), de_object_path_tuple1 = (\<lambda>m. Inl ''none''),
     de_u32 = (\<lambda>m. Inl ''none''), de_bool = (\<lambda>m. Inl ''none''), de_strings = (\<lambda>m. Inl ''none''),
     de_response = (\<lambda>m. Inl ''none''), de_error = error_from_zvariant\<rparr>"

lemmas header_conv = header.defs message.defs

lemma sample_api_builder_laws: "builder_laws sample_api"
  unfolding builder_laws_def sample_api_def by (simp add: header_conv blank_header_def)

lemma sample_api_wire_laws: "wire_laws sample_api"
proof -
  have "slice 8 12 (copy_slice 8 new bs) = new" if "length new = 4" "16 \<le> length bs" for new bs :: "u8 list"
    using slice_copy_slice[of 8 new bs] that by simp
  then show ?thesis
    unfolding wire_laws_def sample_api_def
    by (auto simp: header_conv blank_header_def length_copy_slice split: if_splits)
qed

section \<open>Forwarding a call\<close>

text \<open>The byte order that the first byte of a message announces.\<close>

definition announced_endian :: "u8 list \<Rightarrow> endian" where
  "announced_endian bs = (if bs ! 0 = 0x6C then Little else Big)"

lemma clone_message_with_serial_eq:
  "s \<noteq> 0 \<Longrightarrow> clone_message_with_serial Z msg s =
     map_err DBus (z_from_bytes Z (announced_endian (m_data msg))
       (copy_slice 8 (to_bytes (announced_endian (m_data msg)) s) (m_data msg)))"
  by (simp add: clone_message_with_serial_def announced_endian_def to_bytes_def Let_def)

lemma clone_message_rewrites:
  assumes "wire_laws Z" and "z_from_bytes Z (announced_endian (m_data msg)) (m_data msg) = Inr msg" and "s \<noteq> 0"
  shows "\<exists>m'. clone_message_with_serial Z msg s = Inr m' \<and> h_serial m' = s
     \<and> m'\<lparr>h_serial := h_serial msg, m_data := m_data msg\<rparr> = msg"
proof -
  let ?e = "announced_endian (m_data msg)" and ?new = "to_bytes (announced_endian (m_data msg)) s"
  have len: "16 \<le> length (m_data msg)"
    using assms(1,2) unfolding wire_laws_def by blast
  obtain m' where m': "z_from_bytes Z ?e (copy_slice 8 ?new (m_data msg)) = Inr m'"
    "m'\<lparr>h_serial := h_serial msg, m_data := m_data msg\<rparr> = msg"
    using assms unfolding wire_laws_def by (metis from_bytes_to_bytes length_to_bytes)
  have "h_serial m' = from_bytes ?e (slice 8 12 (copy_slice 8 ?new (m_data msg)))"
    using assms(1) m'(1) unfolding wire_laws_def by blast
  also have "\<dots> = s"
    using slice_copy_slice[of 8 ?new "m_data msg"] len by simp
  finally show ?thesis using m' assms(3) by (simp add: clone_message_with_serial_eq)
qed

text \<open>
  C20. Forwarding changes the serial and nothing else: for a message that was read from its
  bytes, \<open>clone_message_with_serial\<close> with a non-zero serial succeeds and yields the message with
  that serial, in either byte order; all other fields are those of the original.
\<close>

theorem clone_message_with_serial_correct:
  assumes "wire_laws Z" and "z_from_bytes Z (announced_endian (m_data msg)) (m_data msg) = Inr msg" and "s \<noteq> 0"
  shows "\<exists>m'. clone_message_with_serial Z msg s = Inr m' \<and> h_serial m' = s
     \<and> m'\<lparr>h_serial := h_serial msg, m_data := m_data msg\<rparr> = msg"
  by (rule clone_message_rewrites[OF assms])

definition sample_message :: message where
  "sample_message = header.extend blank_header (message.fields (0x6C # replicate 7 0 @ [1, 0, 0, 0] @ replicate 4 0) [] [])"

lemma sample_message_read:
  "z_from_bytes sample_api (announced_endian (m_data sample_message)) (m_data sample_message) = Inr sample_message"
  by (simp add: sample_message_def sample_api_def announced_endian_def header_conv blank_header_def
      slice_def from_bytes_def from_le_bytes_def numeral_eq_Suc)

theorem clone_message_with_serial_correct_witness:
  "\<exists>m'. clone_message_with_serial sample_api sample_message 7 = Inr m' \<and> h_serial m' = 7"
  using clone_message_with_serial_correct[OF sample_api_wire_laws sample_message_read, of 7] by auto

section \<open>Rewriting replies and signals\<close>

lemma builder_lawsD:
  assumes "builder_laws Z"
  shows "z_set_destination Z d h = Inr h' \<Longrightarrow> h' = h\<lparr>h_destination := Some d\<rparr>"
    and "z_set_path Z p h = Inr h' \<Longrightarrow> h' = h\<lparr>h_path := Some p\<rparr>"
    and "z_bus_name Z n = Inr n' \<Longrightarrow> n' = n"
    and "z_object_path Z n = Inr n' \<Longrightarrow> n' = n"
    and "z_error_name Z n = Inr n' \<Longrightarrow> n' = n"
    and "z_method_return Z r = Inr h \<Longrightarrow> h_type h = MethodReturn \<and> h_reply_serial h = Some (h_serial r)"
    and "z_error Z r n = Inr h \<Longrightarrow>
        h_type h = ErrorType \<and> h_reply_serial h = Some (h_serial r) \<and> h_error_name h = Some n"
    and "z_build Z h v = Inr m \<Longrightarrow> (msg_header m)\<lparr>h_signature := h_signature h\<rparr> = h"
    and "z_build_raw_body Z h b s fds = Inr m \<Longrightarrow>
        msg_header m = h\<lparr>h_signature := s\<rparr> \<and> m_body m = b \<and> m_fds m = fds"
  using assms unfolding builder_laws_def by - (elim conjE, simp)+

lemma rebuild_correct:
  assumes "builder_laws Z" and "rebuild Z msg b = Inr m'" and "h_serial b = h_serial msg"
  shows "msg_header m' = b\<lparr>h_signature := h_signature msg\<rparr>" "m_body m' = m_body msg"
    "clone_fds Z (m_fds msg) = Inr (m_fds m')"
proof -
  have "b\<lparr>h_serial := h_serial msg\<rparr> = b" using assms(3) by simp
  then obtain fds where fds: "clone_fds Z (m_fds msg) = Inr fds"
    "z_build_raw_body Z b (m_body msg) (h_signature msg) fds = Inr m'"
    using assms(2) by (auto simp: rebuild_def clone_fds_from_body_def Let_def split: sum.splits if_splits)
  then show "msg_header m' = b\<lparr>h_signature := h_signature msg\<rparr>" "m_body m' = m_body msg"
    "clone_fds Z (m_fds msg) = Inr (m_fds m')"
    using builder_lawsD(9)[OF assms(1) fds(2)] by simp_all
qed

lemma msg_header_fields [simp]:
  "h_serial (msg_header m) = h_serial m" "h_signature (msg_header m) = h_signature m"
  "h_path (msg_header m) = h_path m"
  by (simp_all add: header.truncate_def)

lemma clone_reply_rewrites:
  assumes "builder_laws Z" and "clone_reply_with_serial Z msg s = Inr m'"
  shows "msg_header m' = (msg_header msg)\<lparr>h_reply_serial := Some s\<rparr>" "m_body m' = m_body msg"
    "clone_fds Z (m_fds msg) = Inr (m_fds m')"
proof -
  have "rebuild Z msg ((msg_header msg)\<lparr>h_reply_serial := Some s\<rparr>) = Inr m'"
    using assms(2) by (simp add: clone_reply_with_serial_def split: if_splits)
  from rebuild_correct[OF assms(1) this]
  have r: "msg_header m' = (msg_header msg)\<lparr>h_reply_serial := Some s\<rparr>\<lparr>h_signature := h_signature msg\<rparr>"
    "m_body m' = m_body msg" "clone_fds Z (m_fds msg) = Inr (m_fds m')" by simp_all
  then show "msg_header m' = (msg_header msg)\<lparr>h_reply_serial := Some s\<rparr>"
    by (simp add: header.truncate_def)
  show "m_body m' = m_body msg" "clone_fds Z (m_fds msg) = Inr (m_fds m')" by (fact r)+
qed

text \<open>
  A rewritten reply refers to the client's call and is otherwise unchanged: when
  \<open>clone_reply_with_serial\<close> succeeds, the reply serial is the client's serial, every other header
  field and the body bytes are those of the bus's reply, and the descriptors are duplicates of
  its descriptors, in order. A zero serial is refused.
\<close>

lemma clone_reply_with_serial_correct:
  assumes "builder_laws Z"
  shows "clone_reply_with_serial Z msg 0 = Inl (Message InvalidSerial)
     \<and> (\<forall>s m'. clone_reply_with_serial Z msg s = Inr m' \<longrightarrow>
          msg_header m' = (msg_header msg)\<lparr>h_reply_serial := Some s\<rparr> \<and> m_body m' = m_body msg
          \<and> clone_fds Z (m_fds msg) = Inr (m_fds m'))"
  using clone_reply_rewrites[OF assms] by (simp add: clone_reply_with_serial_def[of Z msg 0])

lemma clone_reply_with_serial_correct_witness:
  "\<exists>m'. clone_reply_with_serial sample_api sample_message 9 = Inr m' \<and> h_reply_serial m' = Some 9"
proof -
  have "m_fds sample_message = []" by (simp add: sample_message_def header_conv)
  then obtain m' where m': "clone_reply_with_serial sample_api sample_message 9 = Inr m'"
    by (simp add: clone_reply_with_serial_def rebuild_def clone_fds_from_body_def sample_api_def Let_def)
  then have "msg_header m' = (msg_header sample_message)\<lparr>h_reply_serial := Some 9\<rparr>"
    using clone_reply_with_serial_correct[OF sample_api_builder_laws] by blast
  then have "h_reply_serial (msg_header m') = Some 9" by simp
  with m' show ?thesis by (simp add: header.truncate_def)
qed

lemma replace_skip:
  "p \<noteq> [] \<Longrightarrow> hd p \<notin> set a \<Longrightarrow> replace_nonempty p r (a @ s) = a @ replace_nonempty p r s"
  by (induction a) (cases p; auto simp: prefix_def)+

lemma replace_hit: "p \<noteq> [] \<Longrightarrow> replace_nonempty p r (p @ s) = r @ replace_nonempty p r s"
  by (cases p) auto

lemma replace_absent: "\<not> sublist p s \<Longrightarrow> replace_nonempty p r s = s"
proof (induction p r s rule: replace_nonempty.induct)
  case (2 p r c s)
  then have "\<not> prefix p (c # s)" "\<not> sublist p s"
    by (auto intro: prefix_imp_sublist sublist_Cons_right[THEN iffD2])
  with 2 show ?case by simp
qed simp

definition portal_path :: "string \<Rightarrow> string \<Rightarrow> string" where
  "portal_path pc token = ''/org/freedesktop/portal/desktop/request/'' @ pc @ ''/'' @ token"

lemma clone_portal_response_fields:
  assumes "builder_laws Z" and "clone_portal_response_signal Z msg mux client = Inr m'"
  shows "msg_header m' = (msg_header msg)\<lparr>h_destination := Some client,
      h_path := Some (replace_str (unique_name_to_path_component mux) (unique_name_to_path_component client)
        (case h_path msg of Some p \<Rightarrow> p | None \<Rightarrow> []))\<rparr>"
    and "m_body m' = m_body msg"
proof -
  obtain p b1 b2 where steps:
    "z_object_path Z (replace_str (unique_name_to_path_component mux) (unique_name_to_path_component client)
        (case h_path msg of Some p \<Rightarrow> p | None \<Rightarrow> [])) = Inr p"
    "z_set_destination Z client (msg_header msg) = Inr b1" "z_set_path Z p b1 = Inr b2"
    "rebuild Z msg b2 = Inr m'"
    using assms(2) by (auto simp: clone_portal_response_signal_def Let_def split: sum.splits)
  have b2: "b2 = (msg_header msg)\<lparr>h_destination := Some client, h_path := Some p\<rparr>"
    using builder_lawsD(1)[OF assms(1) steps(2)] builder_lawsD(2)[OF assms(1) steps(3)] by simp
  then have "h_serial b2 = h_serial msg" by simp
  from rebuild_correct[OF assms(1) steps(4) this] b2 builder_lawsD(4)[OF assms(1) steps(1)]
  show "msg_header m' = (msg_header msg)\<lparr>h_destination := Some client,
      h_path := Some (replace_str (unique_name_to_path_component mux) (unique_name_to_path_component client)
        (case h_path msg of Some p \<Rightarrow> p | None \<Rightarrow> []))\<rparr>"
    and "m_body m' = m_body msg"
    by (simp_all add: header.truncate_def)
qed

lemma replace_portal_path:
  assumes "pc \<noteq> []" and "hd pc \<in> set ''0123456789''"
  shows "replace_str pc c (portal_path pc token) = portal_path c (replace_nonempty pc c token)"
proof -
  have "hd pc \<notin> set ''/org/freedesktop/portal/desktop/request/''" and "hd pc \<notin> set ''/''"
    using assms(2) by auto
  then show ?thesis
    using assms(1)
    by (simp add: replace_str_def portal_path_def replace_skip replace_hit
        del: append_Cons set_simps replace_nonempty.simps)
qed

lemma portal_response_path:
  assumes "builder_laws Z" and "clone_portal_response_signal Z msg mux client = Inr m'"
    and "pc = unique_name_to_path_component mux" and "pc \<noteq> []" and "hd pc \<in> set ''0123456789''"
    and "h_path msg = Some (portal_path pc token)"
  shows "h_destination m' = Some client"
    and "h_path m' = Some (portal_path (unique_name_to_path_component client)
           (replace_nonempty pc (unique_name_to_path_component client) token))"
    and "m_body m' = m_body msg"
proof -
  have "msg_header m' = (msg_header msg)\<lparr>h_destination := Some client,
      h_path := Some (portal_path (unique_name_to_path_component client)
        (replace_nonempty pc (unique_name_to_path_component client) token))\<rparr>"
    using clone_portal_response_fields(1)[OF assms(1,2)] assms(3-6) by (simp add: replace_portal_path)
  then have "h_destination (msg_header m') = Some client"
    "h_path (msg_header m') = Some (portal_path (unique_name_to_path_component client)
       (replace_nonempty pc (unique_name_to_path_component client) token))" by simp_all
  then show "h_destination m' = Some client"
    and "h_path m' = Some (portal_path (unique_name_to_path_component client)
           (replace_nonempty pc (unique_name_to_path_component client) token))"
    by (simp_all add: header.truncate_def)
  show "m_body m' = m_body msg" by (rule clone_portal_response_fields(2)[OF assms(1,2)])
qed


text \<open>
  C27. A token that contains the path component of the multiplexer's unique name does not
  survive: every occurrence in the path is replaced, so the client sees a token it never chose.
\<close>

theorem portal_response_token_corrupted:
  assumes "builder_laws Z" and "clone_portal_response_signal Z msg mux client = Inr m'"
    and "pc = unique_name_to_path_component mux" and "pc \<noteq> []" and "hd pc \<in> set ''0123456789''"
    and "h_path msg = Some (portal_path pc (x @ pc @ y))" and "hd pc \<notin> set x" and "\<not> sublist pc y"
  shows "h_path m' = Some (portal_path (unique_name_to_path_component client)
           (x @ unique_name_to_path_component client @ y))"
  using portal_response_path[OF assms(1-6)] assms(4,7,8)
  by (simp add: replace_skip replace_hit replace_absent)

text \<open>A response for the token \<open>t\<close> of a multiplexer with the unique name \<open>:1.2\<close>.\<close>

definition sample_response :: "string \<Rightarrow> message" where
  "sample_response token = sample_message\<lparr>h_type := Signal, h_path := Some (portal_path ''1_2'' token)\<rparr>"

lemma path_component_12: "unique_name_to_path_component '':1.2'' = ''1_2''"
  and path_component_mux: "unique_name_to_path_component '':mux.5'' = ''mux_5''"
  by (simp_all add: unique_name_to_path_component_def replace_char_def)

lemma sample_response_rewritten:
  "\<exists>m'. clone_portal_response_signal sample_api (sample_response token) '':1.2'' '':mux.5'' = Inr m'"
proof -
  have "m_fds (sample_response token) = []"
    by (simp add: sample_response_def sample_message_def header_conv)
  then show ?thesis
    by (simp add: clone_portal_response_signal_def sample_api_def rebuild_def clone_fds_from_body_def Let_def)
qed


theorem portal_response_token_corrupted_witness:
  "\<exists>m'. clone_portal_response_signal sample_api (sample_response ''t1_2x'') '':1.2'' '':mux.5'' = Inr m'
     \<and> h_path m' = Some (portal_path ''mux_5'' ''tmux_5x'')"
proof -
  obtain m' where m': "clone_portal_response_signal sample_api (sample_response ''t1_2x'') '':1.2'' '':mux.5'' = Inr m'"
    using sample_response_rewritten by blast
  have "\<not> sublist ''1_2'' ''x''" by (simp add: sublist_Cons_right)
  then show ?thesis
    using m' portal_response_token_corrupted[OF sample_api_builder_laws m' path_component_12[symmetric], of "''t''" "''x''"]
    by (simp add: sample_response_def path_component_mux)
qed

section \<open>Generated replies\<close>

lemma with_destination_correct:
  "builder_laws Z \<Longrightarrow> with_destination Z (Some d) h = Inr h' \<Longrightarrow> h' = h\<lparr>h_destination := Some d\<rparr>"
  by (auto simp: with_destination_def dest: builder_lawsD split: sum.splits)

lemma mrb_build_fields:
  assumes "builder_laws Z" and "mrb_build Z (mrb_set_destination d (method_return_builder_new msg)) v = Inr m"
  shows "h_type m = MethodReturn" "h_reply_serial m = Some (h_serial msg)" "h_destination m = Some d"
proof -
  obtain h where h: "z_method_return Z (msg_header msg) = Inr h" "z_build Z (h\<lparr>h_destination := Some d\<rparr>) v = Inr m"
    using assms by (auto simp: mrb_build_def method_return_builder_new_def mrb_set_destination_def
        dest!: with_destination_correct[OF assms(1)] split: sum.splits)
  have "(msg_header m)\<lparr>h_signature := h_signature h\<rparr> = h\<lparr>h_destination := Some d\<rparr>"
    using builder_lawsD(8)[OF assms(1) h(2)] by simp
  then have "h_type ((msg_header m)\<lparr>h_signature := h_signature h\<rparr>) = h_type h"
    "h_reply_serial ((msg_header m)\<lparr>h_signature := h_signature h\<rparr>) = h_reply_serial h"
    "h_destination ((msg_header m)\<lparr>h_signature := h_signature h\<rparr>) = Some d" by simp_all
  then show "h_type m = MethodReturn" "h_reply_serial m = Some (h_serial msg)" "h_destination m = Some d"
    using builder_lawsD(6)[OF assms(1) h(1)] by (simp_all add: header.truncate_def)
qed

lemma eb_build_fields:
  assumes "builder_laws Z" and "eb_build Z (eb_set_destination d (error_builder_new msg e)) t = Inr m"
  shows "h_type m = ErrorType" "h_reply_serial m = Some (h_serial msg)" "h_destination m = Some d"
    "h_error_name m = Some e"
proof -
  obtain h where h: "z_error Z (msg_header msg) e = Inr h" "z_build Z (h\<lparr>h_destination := Some d\<rparr>) (Str1Body t) = Inr m"
    using assms by (auto simp: eb_build_def error_builder_new_def eb_set_destination_def
        dest!: with_destination_correct[OF assms(1)] builder_lawsD(5)[OF assms(1)] split: sum.splits)
  have "(msg_header m)\<lparr>h_signature := h_signature h\<rparr> = h\<lparr>h_destination := Some d\<rparr>"
    using builder_lawsD(8)[OF assms(1) h(2)] by simp
  then have "h_type ((msg_header m)\<lparr>h_signature := h_signature h\<rparr>) = h_type h"
    "h_reply_serial ((msg_header m)\<lparr>h_signature := h_signature h\<rparr>) = h_reply_serial h"
    "h_error_name ((msg_header m)\<lparr>h_signature := h_signature h\<rparr>) = h_error_name h"
    "h_destination ((msg_header m)\<lparr>h_signature := h_signature h\<rparr>) = Some d" by simp_all
  then show "h_type m = ErrorType" "h_reply_serial m = Some (h_serial msg)" "h_destination m = Some d"
    "h_error_name m = Some e"
    using builder_lawsD(7)[OF assms(1) h(1)] by (simp_all add: header.truncate_def)
qed

end
