(* ===== verification/Bus_Connection.thy ===== *)
theory Bus_Connection
  imports Serial_Map Message_Rewriting
begin

text \<open>
  The connections to the two buses (\<open>bus_connection.rs\<close>). The socket work of zbus is the
  environment of a step: \<open>env\<close> gives the result of every call and of every send a step makes,
  the clock and the process attributes; each step has its own environment. What a step sends is
  recorded as a list of \<open>effect\<close>s, in order; the calls made for an error path are in it too.
\<close>

section \<open>Environment and effects\<close>

text \<open>The methods of \<open>org.freedesktop.DBus\<close> that the program calls on a bus.\<close>

datatype bus_method =
    CallAddMatch string
  | CallRemoveMatch string
  | CallListNames
  | CallListActivatableNames
  | CallGetNameOwner string
  | CallNameHasOwner string
  | CallRequestName string u32
  | CallReleaseName string

datatype effect =
    SendBus route message
  | CallBus route bus_method
  | SendClient client_id message

record env =
  e_zbus :: zbus_api
  e_now :: instant
  e_call :: "route \<Rightarrow> bus_method \<Rightarrow> zbus_error + message"
  e_send :: "route \<Rightarrow> message \<Rightarrow> zbus_error + unit"
  e_machine_id :: "string option"
  e_uid :: u32
  e_pid :: u32
  e_gid :: u32

section \<open>The connection\<close>

record bus_connection =
  bc_unique_name :: "string option"
  bc_serial_gen :: serial_generator
  bc_name :: string

text \<open>
  Connecting: \<open>build\<close> is the result of building a connection for an address (its unique name),
  \<open>session\<close> that of the default session bus.
\<close>

definition bus_connect ::
    "(string \<Rightarrow> zbus_error + string option) \<Rightarrow> string \<Rightarrow> string \<Rightarrow> error + bus_connection" where
  "bus_connect build address name =
     (case build address of
        Inl e \<Rightarrow> Inl (DBus e)
      | Inr u \<Rightarrow> Inr \<lparr>bc_unique_name = u, bc_serial_gen = serial_generator_new, bc_name = name\<rparr>)"

definition bus_connect_session ::
    "(string \<Rightarrow> zbus_error + string option) \<Rightarrow> zbus_error + string option \<Rightarrow> string option \<Rightarrow> string \<Rightarrow>
     error + bus_connection" where
  "bus_connect_session build session address name =
     (case (case address of Some addr \<Rightarrow> build addr | None \<Rightarrow> session) of
        Inl e \<Rightarrow> Inl (DBus e)
      | Inr u \<Rightarrow> Inr \<lparr>bc_unique_name = u, bc_serial_gen = serial_generator_new, bc_name = name\<rparr>)"

definition bus_unique_name :: "bus_connection \<Rightarrow> string option" where
  "bus_unique_name c = bc_unique_name c"

definition next_serial :: "bus_connection \<Rightarrow> u32 \<times> bus_connection" where
  "next_serial c = (let (s, g) = serial_next (bc_serial_gen c) in (s, c\<lparr>bc_serial_gen := g\<rparr>))"

definition name_changes_rule :: string where
  "name_changes_rule =
     ''type='' @ [CHR 0x27] @ ''signal'' @ [CHR 0x27]
     @ '',sender='' @ [CHR 0x27] @ ''org.freedesktop.DBus'' @ [CHR 0x27]
     @ '',interface='' @ [CHR 0x27] @ ''org.freedesktop.DBus'' @ [CHR 0x27]
     @ '',member='' @ [CHR 0x27] @ ''NameOwnerChanged'' @ [CHR 0x27]"

definition subscribe_name_changes :: "env \<Rightarrow> route \<Rightarrow> (error + unit) \<times> effect list" where
  "subscribe_name_changes E r =
     (map_sum DBus (\<lambda>_. ()) (e_call E r (CallAddMatch name_changes_rule)),
      [CallBus r (CallAddMatch name_changes_rule)])"

text \<open>A call whose reply is deserialised, with both errors converted by \<open>?\<close>.\<close>

definition call_and_read :: "env \<Rightarrow> route \<Rightarrow> bus_method \<Rightarrow> (message \<Rightarrow> string + 'a) \<Rightarrow>
    (error + 'a) \<times> effect list" where
  "call_and_read E r method de =
     ((case e_call E r method of
         Inl e \<Rightarrow> Inl (DBus e)
       | Inr reply \<Rightarrow> map_err (de_error (e_zbus E)) (de reply)),
      [CallBus r method])"

definition list_names :: "env \<Rightarrow> route \<Rightarrow> (error + string list) \<times> effect list" where
  "list_names E r = call_and_read E r CallListNames (de_strings (e_zbus E))"

definition list_activatable_names :: "env \<Rightarrow> route \<Rightarrow> (error + string list) \<times> effect list" where
  "list_activatable_names E r = call_and_read E r CallListActivatableNames (de_strings (e_zbus E))"

definition bus_name_has_owner :: "env \<Rightarrow> route \<Rightarrow> string \<Rightarrow> (error + bool) \<times> effect list" where
  "bus_name_has_owner E r name = call_and_read E r (CallNameHasOwner name) (de_bool (e_zbus E))"

definition get_name_owner :: "env \<Rightarrow> route \<Rightarrow> string \<Rightarrow> (error + string option) \<times> effect list" where
  "get_name_owner E r name =
     ((case e_call E r (CallGetNameOwner name) of
         Inr reply \<Rightarrow> map_sum (de_error (e_zbus E)) Some (de_string (e_zbus E) reply)
       | Inl (MethodError err text) \<Rightarrow>
           if err = ''org.freedesktop.DBus.Error.NameHasNoOwner'' then Inr None
           else Inl (DBus (MethodError err text))
       | Inl e \<Rightarrow> Inl (DBus e)),
      [CallBus r (CallGetNameOwner name)])"

definition bus_send :: "env \<Rightarrow> route \<Rightarrow> message \<Rightarrow> (error + unit) \<times> effect list" where
  "bus_send E r msg = (map_err DBus (e_send E r msg), [SendBus r msg])"

text \<open>One item of the message stream; \<open>None\<close> is the end of the stream.\<close>

definition bus_recv :: "(zbus_error + message) option \<Rightarrow> error + message option" where
  "bus_recv item =
     (case item of
        Some (Inr msg) \<Rightarrow> Inr (Some msg)
      | Some (Inl e) \<Rightarrow> Inl (DBus e)
      | None \<Rightarrow> Inr None)"

lemma next_serial_eq:
  "next_serial c = (fst (serial_next (bc_serial_gen c)), c\<lparr>bc_serial_gen := snd (serial_next (bc_serial_gen c))\<rparr>)"
  by (simp add: next_serial_def case_prod_unfold Let_def)

end
