(* ===== verification/Router.thy ===== *)
theory Router
  imports Bus_Connection
begin

text \<open>
  The message router (\<open>router.rs\<close>): method calls get a fresh serial of the bus they are sent to,
  and replies find their way back through the serial map. The locks and reference counts that
  the router shares with the multiplexer are not modelled: the router's state is part of the
  multiplexer's.
\<close>

section \<open>State and operations\<close>

record message_router =
  container_conn :: bus_connection
  host_conn :: bus_connection
  rt_routing_table :: routing_table
  rt_serial_map :: serial_map

definition message_router_new ::
    "bus_connection \<Rightarrow> bus_connection \<Rightarrow> routing_table \<Rightarrow> message_router" where
  "message_router_new container host t =
     \<lparr>container_conn = container, host_conn = host, rt_routing_table = t, rt_serial_map = serial_map_new\<rparr>"

definition router_route_for :: "message_router \<Rightarrow> string \<Rightarrow> route" where
  "router_route_for r destination = route_for (rt_routing_table r) destination"

definition connection_for :: "message_router \<Rightarrow> route \<Rightarrow> bus_connection" where
  "connection_for r route = (case route of Container \<Rightarrow> container_conn r | Host \<Rightarrow> host_conn r)"

text \<open>The write through the shared reference that \<open>connection_for\<close> returns.\<close>

definition put_connection :: "route \<Rightarrow> bus_connection \<Rightarrow> message_router \<Rightarrow> message_router" where
  "put_connection route c r =
     (case route of Container \<Rightarrow> r\<lparr>container_conn := c\<rparr> | Host \<Rightarrow> r\<lparr>host_conn := c\<rparr>)"

definition forward_method_call ::
    "env \<Rightarrow> client_id \<Rightarrow> message \<Rightarrow> route \<Rightarrow> message_router \<Rightarrow>
     (error + unit) \<times> effect list \<times> message_router" where
  "forward_method_call E client_id msg route r =
     (let conn = connection_for r route;
          client_serial = serial msg;
          (forwarded_serial, conn') = next_serial conn;
          r1 = put_connection route conn' r
      in case clone_message_with_serial (e_zbus E) msg forwarded_serial of
           Inl e \<Rightarrow> (Inl e, [], r1)
         | Inr forwarded_msg \<Rightarrow>
             (case bus_send E route forwarded_msg of
                (Inl e, effs) \<Rightarrow> (Inl e, effs, r1)
              | (Inr _, effs) \<Rightarrow>
                  (Inr (), effs,
                   r1\<lparr>rt_serial_map := serial_map_insert (e_now E) route forwarded_serial client_id
                         client_serial (rt_serial_map r1)\<rparr>)))"

definition handle_reply ::
    "message \<Rightarrow> route \<Rightarrow> message_router \<Rightarrow> (error + (client_id \<times> u32) option) \<times> message_router" where
  "handle_reply msg route r =
     (case reply_serial msg of
        None \<Rightarrow> (Inl (Message NoReplySerial), r)
      | Some s \<Rightarrow>
          (let (pending, sm) = serial_map_remove route s (rt_serial_map r);
               r' = r\<lparr>rt_serial_map := sm\<rparr>
           in case pending of
                Some p \<Rightarrow> (Inr (Some (pc_client_id p, pc_client_serial p)), r')
              | None \<Rightarrow> (Inr None, r')))"

definition router_cleanup_expired :: "env \<Rightarrow> message_router \<Rightarrow> nat \<times> message_router" where
  "router_cleanup_expired E r =
     (let (count, sm) = serial_map_cleanup_expired (e_now E) (rt_serial_map r)
      in (count, r\<lparr>rt_serial_map := sm\<rparr>))"

section \<open>Lemmas\<close>

text \<open>The serial the router hands out next on a route.\<close>

definition next_on :: "message_router \<Rightarrow> route \<Rightarrow> u32" where
  "next_on r route = fst (serial_next (bc_serial_gen (connection_for r route)))"

lemma next_on_nonzero: "next_on r route \<noteq> 0"
  by (simp add: next_on_def serial_next_nonzero)

lemma put_connection_simps [simp]:
  "connection_for (put_connection a c r) b = (if b = a then c else connection_for r b)"
  "rt_serial_map (put_connection a c r) = rt_serial_map r"
  "rt_routing_table (put_connection a c r) = rt_routing_table r"
  by (cases a; cases b; simp add: connection_for_def put_connection_def)+

lemma connection_for_serial_map [simp]:
  "connection_for (r\<lparr>rt_serial_map := m\<rparr>) route = connection_for r route"
  by (simp add: connection_for_def split: route.splits)

lemma forward_cases:
  assumes "forward_method_call E c msg route r = (res, effs, r')"
  obtains (Clone_error) e where "clone_message_with_serial (e_zbus E) msg (next_on r route) = Inl e"
      "res = Inl e" "effs = []" "rt_serial_map r' = rt_serial_map r"
  | (Send_error) fm e where "clone_message_with_serial (e_zbus E) msg (next_on r route) = Inr fm"
      "e_send E route fm = Inl e" "res = Inl (DBus e)" "effs = [SendBus route fm]"
      "rt_serial_map r' = rt_serial_map r"
  | (Sent) fm where "clone_message_with_serial (e_zbus E) msg (next_on r route) = Inr fm"
      "e_send E route fm = Inr ()" "res = Inr ()" "effs = [SendBus route fm]"
      "rt_serial_map r' = serial_map_insert (e_now E) route (next_on r route) c (h_serial msg) (rt_serial_map r)"
  using assms
  by (auto simp: forward_method_call_def next_serial_eq next_on_def bus_send_def serial_def Let_def
      split: sum.splits)

text \<open>Whatever happens, the serial is consumed, and only on this route.\<close>

lemma forward_next_on:
  assumes "forward_method_call E c msg route r = (res, effs, r')"
  shows "next_on r' a = (if a = route then succ_serial (next_on r route) else next_on r a)"
proof -
  have "connection_for r' route =
      (connection_for r route)\<lparr>bc_serial_gen := snd (serial_next (bc_serial_gen (connection_for r route)))\<rparr>"
    and "a \<noteq> route \<Longrightarrow> connection_for r' a = connection_for r a"
    using assms by (auto simp: forward_method_call_def next_serial_eq bus_send_def Let_def split: sum.splits)
  moreover have "fst (serial_next (snd (serial_next g))) = succ_serial (fst (serial_next g))" for g
    by (rule serial_next_succ) simp
  ultimately show ?thesis by (simp add: next_on_def)
qed

lemma forward_routing_table:
  "forward_method_call E c msg route r = (res, effs, r') \<Longrightarrow> rt_routing_table r' = rt_routing_table r"
  by (auto simp: forward_method_call_def next_serial_eq bus_send_def Let_def split: sum.splits)

lemma handle_reply_entry:
  assumes "h_reply_serial reply = Some s"
  shows "fst (handle_reply reply route r) = Inr (map_option fst (sm_entry (rt_serial_map r) (route, s)))"
    and "sm_entry (rt_serial_map (snd (handle_reply reply route r))) k =
           (if k = (route, s) then None else sm_entry (rt_serial_map r) k)"
  using assms
  by (auto simp: handle_reply_def mux_simps prod_eq_iff split: option.splits)

lemma sm_entry_insert:
  "sm_entry (serial_map_insert now route s c cs m) k = (if k = (route, s) then Some ((c, cs), now) else sm_entry m k)"
  using sm.entry_rec[of now "(route, s)" "(c, cs)" m k] by (simp add: sm_record_def)

lemma clone_message_serial:
  assumes "wire_laws Z" and "clone_message_with_serial Z msg s = Inr fm"
  shows "h_serial fm = s"
proof -
  have s: "s \<noteq> 0" using assms(2) by (auto simp: clone_message_with_serial_def)
  let ?e = "announced_endian (m_data msg)"
  let ?bs = "copy_slice 8 (to_bytes ?e s) (m_data msg)"
  have "z_from_bytes Z ?e ?bs = Inr fm"
    using assms(2) by (simp add: clone_message_with_serial_eq[OF s])
  with assms(1) have "16 \<le> length ?bs" "h_serial fm = from_bytes ?e (slice 8 12 ?bs)"
    unfolding wire_laws_def by blast+
  moreover from this(1) have "8 + length (to_bytes ?e s) \<le> length (m_data msg)"
    by (simp add: copy_slice_def)
  ultimately show ?thesis using slice_copy_slice[of 8 "to_bytes ?e s" "m_data msg"] by simp
qed

section \<open>Many calls in flight\<close>

type_synonym call = "env \<times> client_id \<times> message \<times> route"

fun forward_all :: "call list \<Rightarrow> message_router \<Rightarrow> ((error + unit) \<times> effect list) list \<times> message_router" where
  "forward_all [] r = ([], r)"
| "forward_all ((E, c, msg, route) # calls) r =
     (let (res, effs, r1) = forward_method_call E c msg route r;
          (out, r2) = forward_all calls r1
      in ((res, effs) # out, r2))"

lemma forward_keeps_entry:
  assumes "forward_method_call E c msg a r = (res, effs, r1)"
    and "sm_entry (rt_serial_map r) (route, s) = Some x" and "a = route \<Longrightarrow> s \<noteq> next_on r route"
  shows "sm_entry (rt_serial_map r1) (route, s) = Some x"
  using assms(1) by (cases rule: forward_cases) (use assms(2,3) in \<open>auto simp: sm_entry_insert\<close>)

lemma forward_all_keeps_entry:
  "\<lbrakk>forward_all calls r = (out, r'); sm_entry (rt_serial_map r) (route, s) = Some x;
    \<forall>j<length calls. s \<noteq> (succ_serial ^^ j) (next_on r route)\<rbrakk>
     \<Longrightarrow> sm_entry (rt_serial_map r') (route, s) = Some x"
proof (induction calls arbitrary: r out)
  case (Cons call calls)
  obtain E c msg a where call: "call = (E, c, msg, a)" by (cases call)
  obtain res effs r1 where f: "forward_method_call E c msg a r = (res, effs, r1)"
    by (metis prod_cases3)
  obtain out' where rest: "forward_all calls r1 = (out', r')"
    using Cons.prems(1) by (auto simp: call f split: prod.splits)
  have "sm_entry (rt_serial_map r1) (route, s) = Some x"
    using Cons.prems(3) by (intro forward_keeps_entry[OF f Cons.prems(2)]) auto
  moreover have "\<forall>j<length calls. s \<noteq> (succ_serial ^^ j) (next_on r1 route)"
  proof (intro allI impI)
    fix j assume "j < length calls"
    then have "s \<noteq> (succ_serial ^^ j) (next_on r route)" "s \<noteq> (succ_serial ^^ Suc j) (next_on r route)"
      using Cons.prems(3) by auto
    then show "s \<noteq> (succ_serial ^^ j) (next_on r1 route)"
      by (auto simp: forward_next_on[OF f] funpow_swap1)
  qed
  ultimately show ?case by (rule Cons.IH[OF rest])
qed simp

lemma forward_all_entry:
  "\<lbrakk>forward_all calls r = (out, r'); length calls \<le> 2 ^ 32 - 1; i < length calls;
    calls ! i = (E, c, msg, route); out ! i = (Inr (), [SendBus route fm]); wire_laws (e_zbus E)\<rbrakk>
     \<Longrightarrow> sm_entry (rt_serial_map r') (route, h_serial fm) = Some ((c, h_serial msg), e_now E)"
proof (induction calls arbitrary: r out i)
  case (Cons call calls)
  obtain E0 c0 msg0 a where call: "call = (E0, c0, msg0, a)" by (cases call)
  obtain res effs r1 where f: "forward_method_call E0 c0 msg0 a r = (res, effs, r1)"
    by (metis prod_cases3)
  obtain out' where rest: "forward_all calls r1 = (out', r')" and out: "out = (res, effs) # out'"
    using Cons.prems(1) by (auto simp: call f split: prod.splits)
  show ?case
  proof (cases i)
    case (Suc k)
    then show ?thesis using Cons.IH[OF rest, of k] Cons.prems by (simp add: out)
  next
    case 0
    then have eqs: "E0 = E" "c0 = c" "msg0 = msg" "a = route" "res = Inr ()" "effs = [SendBus route fm]"
      using Cons.prems by (simp_all add: call out)
    let ?s = "next_on r route"
    from f have "clone_message_with_serial (e_zbus E) msg ?s = Inr fm"
      and map: "rt_serial_map r1 = serial_map_insert (e_now E) route ?s c (h_serial msg) (rt_serial_map r)"
      by (cases rule: forward_cases; simp add: eqs)+
    then have fm: "h_serial fm = ?s" using Cons.prems(6) by (auto intro: clone_message_serial)
    have "?s \<noteq> (succ_serial ^^ j) (next_on r1 route)" if "j < length calls" for j
    proof
      assume "?s = (succ_serial ^^ j) (next_on r1 route)"
      then have "(succ_serial ^^ 0) ?s = (succ_serial ^^ Suc j) ?s"
        by (simp add: forward_next_on[OF f] eqs funpow_swap1)
      with succ_serial_pow_inj[OF next_on_nonzero, of 0 "Suc j"] that Cons.prems(2) show False by simp
    qed
    with forward_all_keeps_entry[OF rest, of route ?s] show ?thesis
      by (simp add: fm map sm_entry_insert)
  qed
qed simp

text \<open>
  C1. Replies never reach the wrong client: forward any number of calls up to \<open>2 ^ 32 - 1\<close>, of
  any clients with any serials, to either bus, some of them failing; a reply that refers to
  the serial under which the \<open>i\<close>-th call was sent on its bus is then answered with the client of
  the \<open>i\<close>-th call and the serial that client used.
\<close>

theorem replies_reach_their_callers:
  assumes "forward_all calls r = (out, r')" and "length calls \<le> 2 ^ 32 - 1" and "i < length calls"
    and "calls ! i = (E, c, msg, route)" and "out ! i = (Inr (), [SendBus route fm])"
    and "wire_laws (e_zbus E)" and "h_reply_serial reply = Some (h_serial fm)"
  shows "fst (handle_reply reply route r') = Inr (Some (c, h_serial msg))"
  using forward_all_entry[OF assms(1-6)] handle_reply_entry(1)[OF assms(7)] by simp

text \<open>A bus whose calls and sends succeed.\<close>

definition sample_env :: env where
  "sample_env = \<lparr>e_zbus = sample_api, e_now = 0, e_call = (\<lambda>r m. Inr sample_message),
     e_send = (\<lambda>r m. Inr ()), e_machine_id = None, e_uid = 0, e_pid = 1, e_gid = 0\<rparr>"

definition sample_router :: message_router where
  "sample_router = message_router_new
     \<lparr>bc_unique_name = Some '':1.1'', bc_serial_gen = serial_generator_new, bc_name = ''container''\<rparr>
     \<lparr>bc_unique_name = Some '':1.2'', bc_serial_gen = serial_generator_new, bc_name = ''host''\<rparr>
     routing_table_new"

lemma forward_sample:
  obtains fm where "fst (forward_all [(sample_env, 1, sample_message, Host), (sample_env, 2, sample_message, Host)]
      sample_router) ! 1 = (Inr (), [SendBus Host fm])"
proof -
  obtain m2 where "clone_message_with_serial sample_api sample_message s = Inr (m2 s)" if "s \<noteq> 0" for s
    using clone_message_rewrites[OF sample_api_wire_laws sample_message_read] by metis
  moreover have "next_on r Host \<noteq> 0" for r by (rule next_on_nonzero)
  ultimately show thesis
    by (auto simp: forward_method_call_def next_serial_eq bus_send_def sample_env_def next_on_def
        case_prod_unfold Let_def intro: that)
qed

theorem replies_reach_their_callers_witness:
  "\<exists>fm. fst (forward_all [(sample_env, 1, sample_message, Host), (sample_env, 2, sample_message, Host)]
        sample_router) ! 1 = (Inr (), [SendBus Host fm])
    \<and> fst (handle_reply (sample_message\<lparr>h_reply_serial := Some (h_serial fm)\<rparr>) Host
        (snd (forward_all [(sample_env, 1, sample_message, Host), (sample_env, 2, sample_message, Host)]
          sample_router))) = Inr (Some (2, h_serial sample_message))"
proof -
  let ?calls = "[(sample_env, 1 :: client_id, sample_message, Host), (sample_env, 2, sample_message, Host)]"
  obtain fm where fm: "fst (forward_all ?calls sample_router) ! 1 = (Inr (), [SendBus Host fm])"
    by (rule forward_sample)
  then have "fst (handle_reply (sample_message\<lparr>h_reply_serial := Some (h_serial fm)\<rparr>) Host
      (snd (forward_all ?calls sample_router))) = Inr (Some (2, h_serial sample_message))"
    by (intro replies_reach_their_callers[OF prod.collapse[symmetric], where i = 1 and E = sample_env])
       (simp_all add: sample_env_def sample_api_wire_laws)
  with fm show ?thesis by (intro exI[of _ fm] conjI)
qed

end
