(* ===== verification/Match_Semantics.thy ===== *)
theory Match_Semantics
  imports Match_Rules Message_Rewriting
begin

text \<open>
  What the matching of \<open>match_rules.rs\<close> means: a rule is the conjunction of its filters over
  the complete argument list of the message, the rules of a client are a set keyed by their
  text, and the reference counts decide which rules are subscribed on a bus.
\<close>

section \<open>Filters\<close>

lemma field_matches_iff [simp]: "field_matches fltr x \<longleftrightarrow> (\<forall>v. fltr = Some v \<longrightarrow> x = Some v)"
  by (auto simp: field_matches_def split: option.splits)

lemma extract_fields_take:
  assumes "unat mx < 255" and "i \<le> unat mx + 1"
  shows "extract_fields i mx fs = take (unat mx + 1 - i) (map extract_field fs)"
  using assms(2)
proof (induction fs arbitrary: i)
  case (Cons f fs)
  have "unat (of_nat i :: u8) = i" using assms(1) Cons.prems by (simp add: unat_of_nat)
  then have "(of_nat i :: u8) > mx \<longleftrightarrow> i = unat mx + 1"
    using Cons.prems by (auto simp: word_less_nat_alt)
  then show ?case
    using Cons.IH[of "i + 1"] Cons.prems by (cases "i = unat mx + 1") (auto simp: Suc_diff_le)
qed simp

lemma fold_max_ge: "x \<in> set xs \<Longrightarrow> x \<le> fold max xs (a :: 'a :: linorder)" and
  fold_max_ge_start: "a \<le> fold max xs a"
proof -
  show start: "a \<le> fold max xs a" for a and xs :: "'a list"
    by (induction xs arbitrary: a) (auto intro: order_trans[OF max.cobounded2])
  show "x \<in> set xs \<Longrightarrow> x \<le> fold max xs a"
    by (induction xs arbitrary: a) (auto intro: order_trans[OF max.cobounded1 start])
qed

lemma fold_max_le: "\<forall>x\<in>set xs. x \<le> b \<Longrightarrow> a \<le> b \<Longrightarrow> fold max xs a \<le> (b :: 'a :: linorder)"
  by (induction xs arbitrary: a) auto

text \<open>Argument indices of a parsed rule are at most 63.\<close>

definition index_map_ok :: "(u8, string) hmap \<Rightarrow> bool" where
  "index_map_ok m = (hm_wf m \<and> list_all (\<lambda>i. i \<le> 63) (map fst m))"

definition rule_wf :: "match_rule \<Rightarrow> bool" where
  "rule_wf r = (index_map_ok (mr_args r) \<and> index_map_ok (mr_arg_paths r))"

lemma max_arg_index_le: "rule_wf r \<Longrightarrow> unat (max_arg_index r) \<le> 63"
proof -
  assume "rule_wf r"
  then have "max_arg_index r \<le> 63"
    unfolding max_arg_index_def
    by (intro fold_max_le) (auto simp: rule_wf_def index_map_ok_def list_all_iff)
  then show ?thesis by (simp add: word_le_nat_alt)
qed

lemma max_arg_index_ge:
  "i \<in> fst ` set (mr_args r) \<union> fst ` set (mr_arg_paths r) \<Longrightarrow> unat i \<le> unat (max_arg_index r)"
  unfolding max_arg_index_def word_le_nat_alt[symmetric] by (rule fold_max_ge) auto

lemma index_map_ok_insert: "index_map_ok m \<Longrightarrow> i \<le> 63 \<Longrightarrow> index_map_ok (hm_insert i v m)"
  using dom_update[of i v m] by (auto simp: index_map_ok_def list_all_iff hm_insert_def
      hm_wf_def distinct_update)

lemma parse_arg_index_bound: "parse_arg_index k s = Inr i \<Longrightarrow> i \<le> 63"
  by (auto simp: parse_arg_index_def word_le_nat_alt unat_of_nat split: sum.splits if_splits)

lemma apply_key_keeps:
  assumes "rule_wf r" and "apply_key k v r = Inr r'"
  shows "rule_wf r'" "rule_string r' = rule_string r"
  using assms
  by (auto simp: apply_key_def rule_wf_def intro!: index_map_ok_insert
      dest!: parse_arg_index_bound split: if_splits sum.splits)

lemma parse_loop_keeps:
  "parse_loop s r = Inr r' \<Longrightarrow> rule_wf r \<Longrightarrow> rule_wf r' \<and> rule_string r' = rule_string r"
proof (induction s r rule: parse_loop.induct)
  case (1 s r)
  show ?case
  proof (cases "skip_separator s = []")
    case True
    with "1.prems" show ?thesis by (simp add: parse_loop.simps[of s])
  next
    case False
    then obtain i v rest r1 where step:
      "find_char CHR ''='' (skip_separator s) = Some i"
      "parse_value (drop (i + 1) (skip_separator s)) = Inr (v, rest)"
      "apply_key (trim (take i (skip_separator s))) v r = Inr r1" "parse_loop rest r1 = Inr r'"
      using "1.prems"(1) by (auto simp: parse_loop.simps[of s] Let_def split: option.splits sum.splits)
    have "rule_wf r1" "rule_string r1 = rule_string r"
      using apply_key_keeps[OF "1.prems"(2) step(3)] .
    with "1.IH"[OF refl False step(1,2) refl step(3,4)] show ?thesis by simp
  qed
qed

lemma parse_wf: "parse s = Inr r \<Longrightarrow> rule_wf r \<and> rule_string r = s"
proof -
  assume *: "parse s = Inr r"
  have "rule_wf (empty_rule s)" "rule_string (empty_rule s) = s"
    by (simp_all add: rule_wf_def index_map_ok_def empty_rule_def)
  with * parse_loop_keeps[of "trim s" "empty_rule s" r] show ?thesis
    by (auto simp: parse_def split: if_splits)
qed

section \<open>A rule is the conjunction of its filters\<close>

lemma list_get_take: "i < n \<Longrightarrow> list_get (take n xs) i = list_get xs i"
  by (simp add: list_get_def)

lemma list_get_map_Some: "list_get (map f xs) i = Some y \<longleftrightarrow> i < length xs \<and> f (xs ! i) = y"
  by (auto simp: list_get_def)

lemma extract_string_args_structure:
  "rule_wf r \<Longrightarrow> de_structure Z msg = Inr fs \<Longrightarrow>
     extract_string_args Z r msg = Some (take (unat (max_arg_index r) + 1) (map extract_field fs))"
  using max_arg_index_le[of r] extract_fields_take[of "max_arg_index r" 0 fs]
  by (simp add: extract_string_args_def)

text \<open>The filters on the arguments, over all arguments of the message.\<close>

definition args_satisfied :: "match_rule \<Rightarrow> string list \<Rightarrow> bool" where
  "args_satisfied r args =
     (list_all (\<lambda>(i, v). list_get args (unat i) = Some v) (mr_args r)
      \<and> list_all (\<lambda>(i, p). \<exists>a\<in>set_option (list_get args (unat i)). matches_path_filter a p) (mr_arg_paths r)
      \<and> (\<forall>ns\<in>set_option (mr_arg0namespace r). \<exists>a\<in>set_option (list_get args 0). in_namespace ''.'' ns a))"

lemma args_match_all:
  assumes "rule_wf r" and "de_structure Z msg = Inr fs"
  shows "args_match Z r msg \<longleftrightarrow> args_satisfied r (map extract_field fs)"
proof -
  define all where "all = map extract_field fs"
  define args where "args = take (unat (max_arg_index r) + 1) all"
  have get: "(i, v) \<in> set (mr_args r) \<Longrightarrow> list_get args (unat i) = list_get all (unat i)"
    "(i, v) \<in> set (mr_arg_paths r) \<Longrightarrow> list_get args (unat i) = list_get all (unat i)" for i v
    unfolding args_def using max_arg_index_ge[of i r] by (force intro!: list_get_take)+
  have first: "(case args of [] \<Rightarrow> False | a # _ \<Rightarrow> P a) \<longleftrightarrow> (\<exists>a\<in>set_option (list_get all 0). P a)" for P
    by (cases all) (auto simp: list_get_def args_def)
  have arg: "list_all (\<lambda>(i, v). list_get args (unat i) = Some v) (mr_args r)
      = list_all (\<lambda>(i, v). list_get all (unat i) = Some v) (mr_args r)"
    by (rule list.pred_cong) (auto simp: get)
  have path: "list_all (\<lambda>(i, p). case list_get args (unat i) of
        Some a \<Rightarrow> matches_path_filter a p | None \<Rightarrow> False) (mr_arg_paths r)
      = list_all (\<lambda>(i, p). \<exists>a\<in>set_option (list_get all (unat i)). matches_path_filter a p) (mr_arg_paths r)"
    by (rule list.pred_cong) (auto simp: get split: option.splits)
  have ns: "(case mr_arg0namespace r of None \<Rightarrow> True
        | Some ns \<Rightarrow> (case args of [] \<Rightarrow> False | a # _ \<Rightarrow> in_namespace ''.'' ns a))
      = (\<forall>ns\<in>set_option (mr_arg0namespace r). \<exists>a\<in>set_option (list_get all 0). in_namespace ''.'' ns a)"
    by (cases "mr_arg0namespace r") (simp_all add: first)
  have ext: "extract_string_args Z r msg = Some args"
    unfolding args_def all_def by (rule extract_string_args_structure[OF assms])
  show ?thesis
    unfolding args_match_def args_satisfied_def ext option.case arg path ns all_def[symmetric]
    by (cases "mr_arg0namespace r"; cases "mr_args r"; cases "mr_arg_paths r") simp_all
qed

lemma rule_matches_conj:
  "rule_matches Z r msg = (header_matches r msg \<and> destination_matches r msg \<and> args_match Z r msg)"
  by (simp add: rule_matches_def)

text \<open>
  C22. Matching is the conjunction of the rule's filters: for a parsed rule and a message whose
  body is a structure, \<open>matches\<close> accepts exactly the messages that satisfy every filter present
  in the rule, where the argument filters range over all arguments of the message although the
  code extracts only those up to the greatest index it needs.
\<close>

theorem rule_matches_iff_filters:
  assumes "parse s = Inr r" and "de_structure Z msg = Inr fs"
  shows "rule_matches Z r msg \<longleftrightarrow>
     (\<forall>v. mr_type r = Some v \<longrightarrow> msg_type_str msg = v)
     \<and> (\<forall>v. mr_sender r = Some v \<longrightarrow> h_sender msg = Some v)
     \<and> (\<forall>v. mr_interface r = Some v \<longrightarrow> h_interface msg = Some v)
     \<and> (\<forall>v. mr_member r = Some v \<longrightarrow> h_member msg = Some v)
     \<and> (\<forall>v. mr_path r = Some v \<longrightarrow> h_path msg = Some v)
     \<and> (\<forall>v. mr_path_namespace r = Some v \<longrightarrow>
          (\<exists>p. h_path msg = Some p \<and> (p = v \<or> prefix (v @ ''/'') p)))
     \<and> (\<forall>v. mr_destination r = Some v \<longrightarrow> h_destination msg = Some v \<or> h_destination msg = None \<and> v = [])
     \<and> (\<forall>i v. hm_get (mr_args r) i = Some v \<longrightarrow> unat i < length fs \<and> extract_field (fs ! unat i) = v)
     \<and> (\<forall>i v. hm_get (mr_arg_paths r) i = Some v \<longrightarrow>
          unat i < length fs \<and> matches_path_filter (extract_field (fs ! unat i)) v)
     \<and> (\<forall>v. mr_arg0namespace r = Some v \<longrightarrow>
          0 < length fs \<and> (extract_field (fs ! 0) = v \<or> prefix (v @ ''.'') (extract_field (fs ! 0))))"
proof -
  have wf: "rule_wf r" using parse_wf[OF assms(1)] by simp
  have get: "hm_get (mr_args r) i = Some v \<longleftrightarrow> (i, v) \<in> set (mr_args r)"
    "hm_get (mr_arg_paths r) i = Some v \<longleftrightarrow> (i, v) \<in> set (mr_arg_paths r)" for i v
    using wf by (simp_all add: rule_wf_def index_map_ok_def hm_get_set)
  have hdr: "header_matches r msg \<longleftrightarrow>
     (\<forall>v. mr_type r = Some v \<longrightarrow> msg_type_str msg = v)
     \<and> (\<forall>v. mr_sender r = Some v \<longrightarrow> h_sender msg = Some v)
     \<and> (\<forall>v. mr_interface r = Some v \<longrightarrow> h_interface msg = Some v)
     \<and> (\<forall>v. mr_member r = Some v \<longrightarrow> h_member msg = Some v)
     \<and> (\<forall>v. mr_path r = Some v \<longrightarrow> h_path msg = Some v)
     \<and> (\<forall>v. mr_path_namespace r = Some v \<longrightarrow>
          (\<exists>p. h_path msg = Some p \<and> (p = v \<or> prefix (v @ ''/'') p)))"
    by (simp add: header_matches_def in_namespace_def mux_simps split: option.splits)
  have dst: "destination_matches r msg \<longleftrightarrow> (\<forall>v. mr_destination r = Some v \<longrightarrow>
      h_destination msg = Some v \<or> h_destination msg = None \<and> v = [])"
    by (auto simp: destination_matches_def mux_simps split: option.splits)
  show ?thesis
    unfolding rule_matches_conj hdr dst args_match_all[OF wf assms(2)] get
    by (fastforce simp: args_satisfied_def list_all_iff list_get_def in_namespace_def split: if_splits)
qed

theorem rule_matches_iff_filters_witness:
  "parse [] = Inr (empty_rule []) \<and> de_structure sample_api sample_message = Inr []
   \<and> rule_matches sample_api (empty_rule []) sample_message"
proof -
  have "parse [] = Inr (empty_rule [])" "de_structure sample_api sample_message = Inr []"
    by (simp_all add: parse_def sample_api_def)
  with rule_matches_iff_filters[OF this] show ?thesis by (simp add: empty_rule_def)
qed

lemma drop_destination [simp]:
  "header_matches (r\<lparr>mr_destination := d\<rparr>) msg = header_matches r msg"
  "extract_string_args Z (r\<lparr>mr_destination := d\<rparr>) msg = extract_string_args Z r msg"
  by (simp_all add: header_matches_def extract_string_args_def max_arg_index_def cong: sum.case_cong)

lemma drop_destination_args [simp]: "args_match Z (r\<lparr>mr_destination := d\<rparr>) msg = args_match Z r msg"
  by (simp add: args_match_def cong: option.case_cong)

text \<open>
  \<open>matches_ignoring_destination\<close> accepts exactly the messages that \<open>matches\<close> accepts for the
  rule without its destination filter.
\<close>

lemma ignoring_destination_drops_filter:
  "rule_matches_ignoring_destination Z r msg = rule_matches Z (r\<lparr>mr_destination := None\<rparr>) msg"
  by (simp add: rule_matches_ignoring_destination_def rule_matches_def destination_matches_def)

text \<open>
  The path filter of the D-Bus specification: argument and filter are interchangeable, and
  they match exactly when they are equal or the one that ends in a slash is a prefix of the other.
\<close>

lemma matches_path_filter_spec:
  "matches_path_filter a f = matches_path_filter f a
   \<and> (matches_path_filter a f \<longleftrightarrow> a = f \<or> (\<exists>d t. (a, f) = (d @ ''/'', d @ ''/'' @ t) \<or> (f, a) = (d @ ''/'', d @ ''/'' @ t)))"
proof -
  have def': "matches_path_filter a f \<longleftrightarrow> a = f \<or> (suffix ''/'' f \<and> prefix f a) \<or> (suffix ''/'' a \<and> prefix a f)" for a f
    by (simp add: matches_path_filter_def)
  have dir: "suffix ''/'' x \<and> prefix x y \<longleftrightarrow> (\<exists>d t. (x, y) = (d @ ''/'', d @ ''/'' @ t))" for x y :: string
    by (auto simp: suffix_def prefix_def)
  show ?thesis unfolding def' dir by metis
qed

text \<open>
  A rule with \<open>path_namespace='/'\<close> accepts no message below the root: the code asks for the
  prefix \<open>//\<close>, which no object path has.
\<close>

lemma root_namespace_misses_children:
  assumes "mr_path_namespace r = Some ''/''" and "h_path msg = Some (CHR ''/'' # c # cs)" and "c \<noteq> CHR ''/''"
  shows "\<not> rule_matches Z r msg"
  using assms by (simp add: rule_matches_def header_matches_def in_namespace_def mux_simps)

lemma root_namespace_misses_children_witness:
  "\<not> rule_matches sample_api ((empty_rule [])\<lparr>mr_path_namespace := Some ''/''\<rparr>)
      (sample_message\<lparr>h_path := Some ''/org''\<rparr>)"
  by (rule root_namespace_misses_children[where c = "CHR ''o''" and cs = "''rg''"]) simp_all

section \<open>The rules of a client\<close>

definition client_rules_wf :: "client_match_rules \<Rightarrow> bool" where
  "client_rules_wf c = distinct (rule_strings c)"

lemma rule_strings_add:
  "rule_strings (rules_add r c) =
     (if rule_string r \<in> set (rule_strings c) then rule_strings c else rule_strings c @ [rule_string r])"
  by (auto simp: rules_add_def rule_strings_def list_ex_iff intro: rev_image_eqI)

lemma rule_strings_remove:
  "rule_strings (snd (rules_remove s c)) = filter (\<lambda>t. t \<noteq> s) (rule_strings c)"
  "fst (rules_remove s c) = (s \<in> set (rule_strings c))"
proof -
  show "rule_strings (snd (rules_remove s c)) = filter (\<lambda>t. t \<noteq> s) (rule_strings c)"
    by (simp add: rules_remove_def rule_strings_def filter_map comp_def Let_def)
  have "length (filter P xs) < length xs \<longleftrightarrow> (\<exists>x\<in>set xs. \<not> P x)" for P and xs :: "match_rule list"
    by (metis filter_True length_filter_less less_irrefl)
  then show "fst (rules_remove s c) = (s \<in> set (rule_strings c))"
    by (auto simp: rules_remove_def rule_strings_def Let_def)
qed

lemma client_rules_wf_ops [inv_intros]:
  "client_rules_wf client_match_rules_new"
  "client_rules_wf c \<Longrightarrow> client_rules_wf (rules_add r c)"
  "client_rules_wf c \<Longrightarrow> client_rules_wf (snd (rules_remove s c))"
  by (auto simp: client_rules_wf_def rule_strings_add rule_strings_remove)
     (simp add: client_match_rules_new_def rule_strings_def)

section \<open>Reference counts\<close>

datatype 'k ref_op = Inc 'k | Dec 'k

text \<open>A counter and the set of keys subscribed upstream according to its answers.\<close>

primrec sub_step :: "('k \<Rightarrow> 't \<Rightarrow> bool \<times> 't) \<Rightarrow> ('k \<Rightarrow> 't \<Rightarrow> bool \<times> 't) \<Rightarrow> 'k ref_op \<Rightarrow>
    'k set \<times> 't \<Rightarrow> 'k set \<times> 't" where
  "sub_step inc dec (Inc k) st =
     (if fst (inc k (snd st)) then insert k (fst st) else fst st, snd (inc k (snd st)))"
| "sub_step inc dec (Dec k) st =
     (if fst (dec k (snd st)) then fst st - {k} else fst st, snd (dec k (snd st)))"

locale reference_counter =
  fixes ref :: "'t \<Rightarrow> 'k \<Rightarrow> nat"
    and inc :: "'k \<Rightarrow> 't \<Rightarrow> bool \<times> 't"
    and dec :: "'k \<Rightarrow> 't \<Rightarrow> bool \<times> 't"
  assumes inc_first: "fst (inc k t) = (ref t k = 0)"
    and ref_inc: "ref (snd (inc k t)) j = (if j = k then ref t k + 1 else ref t j)"
    and dec_last: "fst (dec k t) = (ref t k = 1)"
    and ref_dec: "ref (snd (dec k t)) j = (if j = k then ref t k - 1 else ref t j)"
begin

lemma tracks_step:
  "fst st = {k. ref (snd st) k > 0} \<Longrightarrow>
     fst (sub_step inc dec op st) = {k. ref (snd (sub_step inc dec op st)) k > 0}"
  by (cases op) (auto simp: inc_first ref_inc dec_last ref_dec)

lemma tracks_run:
  "fst st = {k. ref (snd st) k > 0} \<Longrightarrow>
     fst (fold (sub_step inc dec) ops st) = {k. ref (snd (fold (sub_step inc dec) ops st)) k > 0}"
  by (induction ops arbitrary: st) (simp_all add: tracks_step)

text \<open>An answer of \<open>true\<close> always changes the subscription: none is made or dropped twice.\<close>

lemma answers_change:
  assumes "fst st = {k. ref (snd st) k > 0}"
  shows "fst (inc k (snd st)) \<Longrightarrow> k \<notin> fst st" "fst (dec k (snd st)) \<Longrightarrow> k \<in> fst st"
  using assms by (auto simp: inc_first dec_last)

lemma dec_inc: "ref (snd (dec k (snd (inc k t)))) j = ref t j"
  by (simp add: ref_inc ref_dec)

end

definition ref :: "match_rule_ref_count \<Rightarrow> string \<times> string \<Rightarrow> nat" where
  "ref rc k = (case hm_get (counts rc) k of Some n \<Rightarrow> n | None \<Rightarrow> 0)"

definition inc_key :: "string \<times> string \<Rightarrow> match_rule_ref_count \<Rightarrow> bool \<times> match_rule_ref_count" where
  "inc_key k rc = increment (fst k) (snd k) rc"

definition dec_key :: "string \<times> string \<Rightarrow> match_rule_ref_count \<Rightarrow> bool \<times> match_rule_ref_count" where
  "dec_key k rc = decrement (fst k) (snd k) rc"

interpretation mrc: reference_counter ref inc_key dec_key
  by unfold_locales
     (auto simp: ref_def inc_key_def dec_key_def increment_def decrement_def Let_def split: option.splits)

definition ref_counts_wf :: "match_rule_ref_count \<Rightarrow> bool" where
  "ref_counts_wf rc = hm_wf (counts rc)"

lemma ref_counts_wf_ops [inv_intros]:
  "ref_counts_wf ref_count_new"
  "ref_counts_wf rc \<Longrightarrow> ref_counts_wf (snd (increment bus rule rc))"
  "ref_counts_wf rc \<Longrightarrow> ref_counts_wf (snd (decrement bus rule rc))"
  by (simp add: ref_counts_wf_def ref_count_new_def)
     (auto simp: ref_counts_wf_def increment_def decrement_def Let_def split: option.splits)

lemma ref_counts_wf_run:
  "ref_counts_wf (snd st) \<Longrightarrow> ref_counts_wf (snd (fold (sub_step inc_key dec_key) ops st))"
proof (induction ops arbitrary: st)
  case (Cons op ops)
  have "ref_counts_wf (snd (sub_step inc_key dec_key op st))"
    using Cons.prems by (cases op) (auto simp: inc_key_def dec_key_def intro: inv_intros)
  then show ?case by (simp add: Cons.IH)
qed simp

lemma rules_for_bus_ref:
  assumes "ref_counts_wf rc"
  shows "set (rules_for_bus bus rc) = {rule. ref rc (bus, rule) > 0}"
proof -
  have "rule \<in> set (rules_for_bus bus rc) \<longleftrightarrow> (\<exists>n>0. ((bus, rule), n) \<in> set (counts rc))" for rule
    by (auto simp: rules_for_bus_def image_iff Bex_def)
  then show ?thesis
    using assms by (auto simp: ref_def hm_get_set[symmetric] ref_counts_wf_def split: option.splits)
qed

lemma increment_ref:
  "fst (increment bus rule rc) = (ref rc (bus, rule) = 0)"
  "ref (snd (increment bus rule rc)) k = (if k = (bus, rule) then ref rc k + 1 else ref rc k)"
  using mrc.inc_first[of "(bus, rule)" rc] mrc.ref_inc[of "(bus, rule)" rc k] by (auto simp: inc_key_def)

lemma decrement_ref:
  "fst (decrement bus rule rc) = (ref rc (bus, rule) = 1)"
  "ref (snd (decrement bus rule rc)) k = (if k = (bus, rule) then ref rc k - 1 else ref rc k)"
  using mrc.dec_last[of "(bus, rule)" rc] mrc.ref_dec[of "(bus, rule)" rc k] by (auto simp: dec_key_def)

text \<open>
  The upstream subscriptions are exact: after any sequence of \<open>increment\<close> and \<open>decrement\<close>
  calls, if the rule is added to the bus when \<open>increment\<close> answers true and removed when
  \<open>decrement\<close> answers true, the rules subscribed on a bus are exactly those with a count above
  zero, which is also what \<open>rules_for_bus\<close> lists.
\<close>

lemma upstream_subscriptions_exact:
  fixes ops bus
  defines "st \<equiv> fold (sub_step inc_key dec_key) ops ({}, ref_count_new)"
  shows "{rule. (bus, rule) \<in> fst st} = {rule. ref (snd st) (bus, rule) > 0}
     \<and> set (rules_for_bus bus (snd st)) = {rule. (bus, rule) \<in> fst st}"
proof -
  have "fst st = {k. ref (snd st) k > 0}"
    unfolding st_def by (rule mrc.tracks_run) (simp add: ref_def ref_count_new_def)
  moreover have "ref_counts_wf (snd st)"
    unfolding st_def by (rule ref_counts_wf_run) (simp add: inv_intros)
  ultimately show ?thesis by (simp add: rules_for_bus_ref)
qed

lemma remove_client_rules_spec:
  "distinct rules \<Longrightarrow>
     fst (remove_client_rules bus rules rc) = filter (\<lambda>r. ref rc (bus, r) = 1) rules
     \<and> ref (snd (remove_client_rules bus rules rc)) k =
         (if fst k = bus \<and> snd k \<in> set rules then ref rc k - 1 else ref rc k)"
proof (induction rules arbitrary: rc)
  case (Cons rule rules)
  then have IH: "fst (remove_client_rules bus rules rc1) = filter (\<lambda>r. ref rc1 (bus, r) = 1) rules"
    "ref (snd (remove_client_rules bus rules rc1)) k =
       (if fst k = bus \<and> snd k \<in> set rules then ref rc1 k - 1 else ref rc1 k)" for rc1
    by simp_all
  have "filter (\<lambda>r. ref (snd (decrement bus rule rc)) (bus, r) = 1) rules
      = filter (\<lambda>r. ref rc (bus, r) = 1) rules"
    using Cons.prems by (intro filter_cong) (auto simp: decrement_ref)
  then show ?case
    using Cons.prems by (auto simp: IH decrement_ref case_prod_unfold)
qed simp

text \<open>
  \<open>remove_client_rules\<close> drops one reference of each of the client's rules on the bus and
  returns, in order, exactly the rules whose last reference this was; rules of other buses and
  rules the client does not hold keep their counts.
\<close>

lemma remove_client_rules_correct:
  assumes "client_rules_wf c" and "remove_client_rules bus (rule_strings c) rc = (gone, rc')"
  shows "gone = filter (\<lambda>r. ref rc (bus, r) = 1) (rule_strings c)
     \<and> (\<forall>b r. ref rc' (b, r) = (if b = bus \<and> r \<in> set (rule_strings c) then ref rc (b, r) - 1 else ref rc (b, r)))"
  using assms remove_client_rules_spec[of "rule_strings c" bus rc]
  by (auto simp: client_rules_wf_def)

lemma remove_client_rules_correct_witness:
  "let c = rules_add (empty_rule ''a'') client_match_rules_new;
       rc = snd (increment ''host'' ''a'' ref_count_new)
   in client_rules_wf c \<and> fst (remove_client_rules ''host'' (rule_strings c) rc) = [''a'']"
proof -
  let ?c = "rules_add (empty_rule ''a'') client_match_rules_new"
    and ?rc = "snd (increment ''host'' ''a'' ref_count_new)"
  have wf: "client_rules_wf ?c" by (intro inv_intros)
  moreover have "rule_strings ?c = [''a'']" "ref ?rc (''host'', ''a'') = 1"
    by (simp_all add: rules_add_def increment_def empty_rule_def client_match_rules_new_def
        rule_strings_def ref_def ref_count_new_def)
  ultimately show ?thesis
    using remove_client_rules_correct[OF wf prod.collapse[symmetric], of "''host''" ?rc] by simp
qed

end
