(* ===== verification/Portal_Request.thy ===== *)
theory Portal_Request
  imports Dbus_Message Correlation
begin

text \<open>
  Portal request tracking (\<open>portal_request.rs\<close>): which client waits for the \<open>Response\<close> signal of
  a request path. The tracker is the second implementation of \<open>correlation_table\<close>.
  \<open>Instant::now()\<close> is an argument; log output is not modelled.
\<close>

section \<open>Data\<close>

record pending_portal_request =
  ppr_client_id :: client_id
  ppr_timestamp :: instant

record portal_request_tracker =
  pt_requests :: "(string, pending_portal_request) hmap"
  pt_timeout :: duration

section \<open>Operations\<close>

definition tracker_new :: portal_request_tracker where
  "tracker_new = \<lparr>pt_requests = [], pt_timeout = 300 * 1000\<rparr>"

definition tracker_register ::
    "instant \<Rightarrow> string \<Rightarrow> client_id \<Rightarrow> portal_request_tracker \<Rightarrow> portal_request_tracker" where
  "tracker_register now request_path client_id t =
     t\<lparr>pt_requests := hm_insert request_path
         \<lparr>ppr_client_id = client_id, ppr_timestamp = now\<rparr> (pt_requests t)\<rparr>"

definition lookup_and_remove ::
    "string \<Rightarrow> portal_request_tracker \<Rightarrow> client_id option \<times> portal_request_tracker" where
  "lookup_and_remove request_path t =
     (case hm_get (pt_requests t) request_path of
        Some pending \<Rightarrow> (Some (ppr_client_id pending), t\<lparr>pt_requests := hm_remove request_path (pt_requests t)\<rparr>)
      | None \<Rightarrow> (None, t))"

definition tracker_cleanup_expired ::
    "instant \<Rightarrow> portal_request_tracker \<Rightarrow> nat \<times> portal_request_tracker" where
  "tracker_cleanup_expired now t =
     (let timeout = pt_timeout t;
          before = length (pt_requests t);
          t' = t\<lparr>pt_requests :=
                 hm_retain (\<lambda>path pending.
                   let expired = now - ppr_timestamp pending \<ge> timeout in \<not> expired) (pt_requests t)\<rparr>
      in (before - length (pt_requests t'), t'))"

definition tracker_remove_client ::
    "client_id \<Rightarrow> portal_request_tracker \<Rightarrow> nat \<times> portal_request_tracker" where
  "tracker_remove_client client_id t =
     (let before = length (pt_requests t);
          t' = t\<lparr>pt_requests :=
                 hm_retain (\<lambda>path pending. if ppr_client_id pending = client_id then False else True)
                   (pt_requests t)\<rparr>
      in (before - length (pt_requests t'), t'))"

definition is_portal_request_method :: "message \<Rightarrow> bool" where
  "is_portal_request_method msg =
     (if \<not> is_method_call msg then False
      else (case interface_str msg of
         None \<Rightarrow> False
       | Some i \<Rightarrow>
           if \<not> starts_with i ''org.freedesktop.portal.'' then False
           else if i = ''org.freedesktop.portal.Request''
             \<or> i = ''org.freedesktop.portal.Session''
             \<or> i = ''org.freedesktop.portal.Settings''
             \<or> i = ''org.freedesktop.portal.ProxyResolver''
             \<or> i = ''org.freedesktop.portal.NetworkMonitor''
             \<or> i = ''org.freedesktop.portal.MemoryMonitor''
             \<or> i = ''org.freedesktop.portal.PowerProfileMonitor''
           then False
           else True))"

definition is_portal_response_signal :: "message \<Rightarrow> bool" where
  "is_portal_response_signal msg =
     (if \<not> is_signal msg then False
      else interface_str msg = Some ''org.freedesktop.portal.Request''
        \<and> member_str msg = Some ''Response'')"

definition decode_portal_response :: "zbus_api \<Rightarrow> message \<Rightarrow> u32 option" where
  "decode_portal_response Z msg = (case de_response Z msg of Inr code \<Rightarrow> Some code | Inl _ \<Rightarrow> None)"

definition request_prefix :: string where
  "request_prefix = ''/org/freedesktop/portal/desktop/request/''"

definition extract_request_handle :: "zbus_api \<Rightarrow> message \<Rightarrow> string option" where
  "extract_request_handle Z msg =
     (if \<not> is_method_return msg then None
      else
        let second =
          (case de_object_path_tuple1 Z msg of
             Inr path \<Rightarrow> if starts_with path request_prefix then Some path else None
           | Inl _ \<Rightarrow> None)
        in case de_object_path Z msg of
             Inr path \<Rightarrow> if starts_with path request_prefix then Some path else second
           | Inl _ \<Rightarrow> second)"

section \<open>The tracker as a correlation table\<close>

definition pt_entry :: "portal_request_tracker \<Rightarrow> string \<Rightarrow> (client_id \<times> instant) option" where
  "pt_entry t k = map_option (\<lambda>p. (ppr_client_id p, ppr_timestamp p)) (hm_get (pt_requests t) k)"

definition pt_wf :: "portal_request_tracker \<Rightarrow> bool" where
  "pt_wf t = hm_wf (pt_requests t)"

lemmas tracker_defs [mux_simps] =
  tracker_register_def lookup_and_remove_def tracker_cleanup_expired_def pt_entry_def pt_wf_def

interpretation pt: correlation_table pt_entry tracker_register lookup_and_remove
  tracker_cleanup_expired pt_timeout pt_wf
proof unfold_locales
  fix t now
  assume "pt_wf t"
  then have "fst (tracker_cleanup_expired now t) =
      card {k. \<exists>v. hm_get (pt_requests t) k = Some v \<and> \<not> now - ppr_timestamp v < pt_timeout t}"
    by (simp add: mux_simps Let_def not_le hm.len_retain_dropped)
  also have "\<dots> = card {k. \<exists>c at. pt_entry t k = Some (c, at) \<and> \<not> now - at < pt_timeout t}"
    by (rule arg_cong[where f = card]) (auto simp: pt_entry_def)
  finally show "fst (tracker_cleanup_expired now t) =
      card {k. \<exists>c at. pt_entry t k = Some (c, at) \<and> \<not> now - at < pt_timeout t}" .
qed (auto simp: mux_simps Let_def not_le hm.get_retain split: option.splits)

lemma pt_wf_ops [inv_intros]:
  "pt_wf tracker_new" "pt_wf t \<Longrightarrow> pt_wf (snd (tracker_remove_client c t))"
  by (simp_all add: pt_wf_def tracker_new_def tracker_remove_client_def Let_def hm.wf_retain)

lemma pt_entry_remove_client:
  "pt_wf t \<Longrightarrow> pt_entry (snd (tracker_remove_client c t)) k =
     (case pt_entry t k of None \<Rightarrow> None | Some (d, at) \<Rightarrow> if d = c then None else Some (d, at))"
  by (auto simp: pt_entry_def pt_wf_def tracker_remove_client_def Let_def hm.get_retain split: option.splits)

text \<open>
  A portal response reaches the requester: after a client registers a request path,
  \<open>lookup_and_remove\<close> returns that client across any sequence of registrations and look-ups of
  other paths and clean-ups within the five minutes of the timeout.
\<close>

lemma portal_response_finds_requester:
  assumes "pt_wf t" and "\<forall>op\<in>set ops. harmless (pt_timeout t) now path op"
  shows "fst (lookup_and_remove path
     (fold (corr_step tracker_register lookup_and_remove tracker_cleanup_expired) ops
        (tracker_register now path c t))) = Some c"
  by (rule pt.claim_after_record[OF assms])

lemma portal_response_finds_requester_witness:
  "fst (lookup_and_remove ''/r/a''
     (fold (corr_step tracker_register lookup_and_remove tracker_cleanup_expired)
        [Record 5 ''/r/b'' 2, Claim ''/r/c'', Expire 299999]
        (tracker_register 0 ''/r/a'' 1 tracker_new))) = Some 1"
  by (rule portal_response_finds_requester) (simp_all add: inv_intros tracker_new_def pt_wf_def)

text \<open>
  After \<open>remove_client\<close> no request of the client is left, requests of other clients are
  untouched, and the count it returns is the number of requests it dropped.
\<close>

lemma tracker_remove_client_correct:
  assumes "pt_wf t" and "tracker_remove_client c t = (n, t')"
  shows "(\<forall>path at. pt_entry t' path \<noteq> Some (c, at))
     \<and> (\<forall>path d at. d \<noteq> c \<longrightarrow> pt_entry t' path = Some (d, at) \<longleftrightarrow> pt_entry t path = Some (d, at))
     \<and> n = card {path. \<exists>at. pt_entry t path = Some (c, at)}"
proof -
  have entry: "pt_entry t' k = (case pt_entry t k of None \<Rightarrow> None | Some (d, at) \<Rightarrow> if d = c then None else Some (d, at))" for k
    using pt_entry_remove_client[OF assms(1), of c k] assms(2) by simp
  have "n = card {k. \<exists>v. hm_get (pt_requests t) k = Some v \<and> ppr_client_id v = c}"
    using assms hm.len_retain_dropped[of "pt_requests t" "\<lambda>path p. ppr_client_id p \<noteq> c"]
    by (auto simp: tracker_remove_client_def pt_wf_def Let_def)
  also have "\<dots> = card {path. \<exists>at. pt_entry t path = Some (c, at)}"
    by (rule arg_cong[where f = card]) (auto simp: pt_entry_def)
  finally show ?thesis by (auto simp: entry split: option.splits prod.splits if_splits)
qed

lemma tracker_remove_client_correct_witness:
  "let t = tracker_register 0 ''/r/a'' 1 tracker_new
   in pt_wf t \<and> pt_entry (snd (tracker_remove_client 1 t)) ''/r/a'' \<noteq> Some (1, 0)"
proof -
  let ?t = "tracker_register 0 ''/r/a'' 1 tracker_new"
  have wf: "pt_wf ?t" by (simp add: pt_wf_def tracker_register_def tracker_new_def hm.wf_put)
  show ?thesis
    using wf tracker_remove_client_correct[OF wf prod.collapse[symmetric], of 1] by simp
qed

end
