(* ===== verification/Name_Queue.thy ===== *)
theory Name_Queue
  imports Rust_Strings
begin

unbundle bit_operations_syntax

text \<open>
  The ownership queues of \<open>name_queue.rs\<close>. The specification is a list of entries per name,
  the owner first; \<open>queue_of\<close> abstracts a manager to it, and each operation refines its
  specification on every manager that satisfies \<open>manager_wf\<close>. The contract the multiplexer
  relies on is the locale \<open>ownership\<close>, interpreted on the manager's operations.
\<close>

section \<open>Data\<close>

definition ALLOW_REPLACEMENT :: u32 where "ALLOW_REPLACEMENT = 0x1"
definition REPLACE_EXISTING :: u32 where "REPLACE_EXISTING = 0x2"
definition DO_NOT_QUEUE :: u32 where "DO_NOT_QUEUE = 0x4"

definition PRIMARY_OWNER :: u32 where "PRIMARY_OWNER = 1"
definition IN_QUEUE :: u32 where "IN_QUEUE = 2"
definition EXISTS :: u32 where "EXISTS = 3"
definition ALREADY_OWNER :: u32 where "ALREADY_OWNER = 4"

definition RELEASED :: u32 where "RELEASED = 1"
definition NON_EXISTENT :: u32 where "NON_EXISTENT = 2"
definition NOT_OWNER :: u32 where "NOT_OWNER = 3"

record queue_entry =
  qe_client_id :: client_id
  qe_unique_name :: string
  qe_allow_replacement :: bool

record name_queue =
  primary_owner :: "queue_entry option"
  waiters :: "queue_entry list"

record name_queue_manager =
  queues :: "(string, name_queue) hmap"

record request_name_result =
  rn_reply_code :: u32
  rn_forward_to_bus :: bool
  rn_replaced_owner :: "string option"

record release_name_result =
  rl_reply_code :: u32
  rl_forward_to_bus :: bool
  rl_new_owner :: "(client_id \<times> string) option"

section \<open>Operations\<close>

definition all_owners :: "name_queue \<Rightarrow> string list" where
  "all_owners q =
     (case primary_owner q of Some owner \<Rightarrow> [qe_unique_name owner] | None \<Rightarrow> [])
       @ map qe_unique_name (waiters q)"

definition contains_client :: "name_queue \<Rightarrow> client_id \<Rightarrow> bool" where
  "contains_client q c =
     ((case primary_owner q of Some owner \<Rightarrow> qe_client_id owner = c | None \<Rightarrow> False)
      \<or> list_ex (\<lambda>e. qe_client_id e = c) (waiters q))"

definition is_primary_owner :: "name_queue \<Rightarrow> client_id \<Rightarrow> bool" where
  "is_primary_owner q c =
     (case primary_owner q of Some o' \<Rightarrow> qe_client_id o' = c | None \<Rightarrow> False)"

definition name_queue_default :: name_queue where
  "name_queue_default = \<lparr>primary_owner = None, waiters = []\<rparr>"

definition name_queue_manager_new :: name_queue_manager where
  "name_queue_manager_new = \<lparr>queues = []\<rparr>"

definition set_queue :: "string \<Rightarrow> name_queue \<Rightarrow> name_queue_manager \<Rightarrow> name_queue_manager" where
  "set_queue name q m = m\<lparr>queues := hm_insert name q (queues m)\<rparr>"

text \<open>\<open>entry(name).or_default()\<close>: the queue of the name, and the map that holds it.\<close>

definition entry_or_default :: "string \<Rightarrow> name_queue_manager \<Rightarrow> name_queue \<times> name_queue_manager" where
  "entry_or_default name m =
     (case hm_get (queues m) name of
        Some q \<Rightarrow> (q, m)
      | None \<Rightarrow> (name_queue_default, set_queue name name_queue_default m))"

definition request_name :: "string \<Rightarrow> client_id \<Rightarrow> string \<Rightarrow> u32 \<Rightarrow> name_queue_manager \<Rightarrow>
    request_name_result \<times> name_queue_manager" where
  "request_name name client_id unique_name flags m =
     (let allow_replacement = (flags AND ALLOW_REPLACEMENT \<noteq> 0);
          replace_existing = (flags AND REPLACE_EXISTING \<noteq> 0);
          do_not_queue = (flags AND DO_NOT_QUEUE \<noteq> 0);
          (queue, m) = entry_or_default name m
      in if is_primary_owner queue client_id then
           (\<lparr>rn_reply_code = ALREADY_OWNER, rn_forward_to_bus = False, rn_replaced_owner = None\<rparr>, m)
         else if contains_client queue client_id then
           (\<lparr>rn_reply_code = IN_QUEUE, rn_forward_to_bus = False, rn_replaced_owner = None\<rparr>, m)
         else
           (let entry = \<lparr>qe_client_id = client_id, qe_unique_name = unique_name,
                         qe_allow_replacement = allow_replacement\<rparr>
            in case primary_owner queue of
                 None \<Rightarrow>
                   (\<lparr>rn_reply_code = PRIMARY_OWNER, rn_forward_to_bus = True,
                     rn_replaced_owner = None\<rparr>,
                    set_queue name (queue\<lparr>primary_owner := Some entry\<rparr>) m)
               | Some current_owner \<Rightarrow>
                   if replace_existing \<and> qe_allow_replacement current_owner then
                     (\<lparr>rn_reply_code = PRIMARY_OWNER, rn_forward_to_bus = True,
                       rn_replaced_owner = Some (qe_unique_name current_owner)\<rparr>,
                      set_queue name (queue\<lparr>waiters := current_owner # waiters queue,
                                             primary_owner := Some entry\<rparr>) m)
                   else if do_not_queue then
                     (\<lparr>rn_reply_code = EXISTS, rn_forward_to_bus = False,
                       rn_replaced_owner = None\<rparr>, m)
                   else
                     (\<lparr>rn_reply_code = IN_QUEUE, rn_forward_to_bus = False,
                       rn_replaced_owner = None\<rparr>,
                      set_queue name (queue\<lparr>waiters := waiters queue @ [entry]\<rparr>) m)))"

definition release_name :: "string \<Rightarrow> client_id \<Rightarrow> name_queue_manager \<Rightarrow>
    release_name_result \<times> name_queue_manager" where
  "release_name name client_id m =
     (case hm_get (queues m) name of
        None \<Rightarrow>
          (\<lparr>rl_reply_code = NON_EXISTENT, rl_forward_to_bus = False, rl_new_owner = None\<rparr>, m)
      | Some queue \<Rightarrow>
          if is_primary_owner queue client_id then
            (case waiters queue of
               next # rest \<Rightarrow>
                 (\<lparr>rl_reply_code = RELEASED, rl_forward_to_bus = False,
                   rl_new_owner = Some (qe_client_id next, qe_unique_name next)\<rparr>,
                  set_queue name (queue\<lparr>primary_owner := Some next, waiters := rest\<rparr>) m)
             | [] \<Rightarrow>
                 (\<lparr>rl_reply_code = RELEASED, rl_forward_to_bus = True, rl_new_owner = None\<rparr>,
                  m\<lparr>queues := hm_remove name (queues m)\<rparr>))
          else
            (let kept = filter (\<lambda>e. qe_client_id e \<noteq> client_id) (waiters queue);
                 m' = set_queue name (queue\<lparr>waiters := kept\<rparr>) m
             in if length kept < length (waiters queue) then
                  (\<lparr>rl_reply_code = RELEASED, rl_forward_to_bus = False, rl_new_owner = None\<rparr>, m')
                else
                  (\<lparr>rl_reply_code = NOT_OWNER, rl_forward_to_bus = False, rl_new_owner = None\<rparr>, m')))"

definition list_queued_owners :: "string \<Rightarrow> name_queue_manager \<Rightarrow> string list" where
  "list_queued_owners name m =
     (case hm_get (queues m) name of Some q \<Rightarrow> all_owners q | None \<Rightarrow> [])"

text \<open>
  One iteration of the loop of \<open>remove_client\<close>: the entry of \<open>results\<close> it pushes, if any,
  whether it pushes the name to \<open>empty_queues\<close>, and the queue it leaves.
\<close>

definition remove_from_queue :: "client_id \<Rightarrow> name_queue \<Rightarrow>
    (client_id \<times> string) option option \<times> bool \<times> name_queue" where
  "remove_from_queue client_id queue =
     (if is_primary_owner queue client_id then
        (case waiters queue of
           next # rest \<Rightarrow>
             (Some (Some (qe_client_id next, qe_unique_name next)), False,
              queue\<lparr>primary_owner := Some next, waiters := rest\<rparr>)
         | [] \<Rightarrow> (Some None, True, queue\<lparr>primary_owner := None\<rparr>))
      else
        (let queue' = queue\<lparr>waiters := filter (\<lambda>e. qe_client_id e \<noteq> client_id) (waiters queue)\<rparr>
         in (None, primary_owner queue' = None \<and> waiters queue' = [], queue')))"

fun remove_client_loop :: "client_id \<Rightarrow> (string, name_queue) hmap \<Rightarrow>
    (string \<times> (client_id \<times> string) option) list \<times> string list \<times> (string, name_queue) hmap" where
  "remove_client_loop client_id [] = ([], [], [])"
| "remove_client_loop client_id ((name, queue) # rest) =
     (let (pushed, emptied, queue') = remove_from_queue client_id queue;
          (results, empty_queues, rest') = remove_client_loop client_id rest
      in ((case pushed of Some new_owner \<Rightarrow> (name, new_owner) # results | None \<Rightarrow> results),
          (if emptied then name # empty_queues else empty_queues),
          (name, queue') # rest'))"

definition remove_client :: "client_id \<Rightarrow> name_queue_manager \<Rightarrow>
    (string \<times> (client_id \<times> string) option) list \<times> name_queue_manager" where
  "remove_client client_id m =
     (let (results, empty_queues, qs) = remove_client_loop client_id (queues m)
      in (results, m\<lparr>queues := fold hm_remove empty_queues qs\<rparr>))"

definition name_has_owner :: "string \<Rightarrow> name_queue_manager \<Rightarrow> bool" where
  "name_has_owner name m =
     (case hm_get (queues m) name of Some q \<Rightarrow> primary_owner q \<noteq> None | None \<Rightarrow> False)"

definition get_primary_owner :: "string \<Rightarrow> name_queue_manager \<Rightarrow> (client_id \<times> string) option" where
  "get_primary_owner name m =
     (case hm_get (queues m) name of
        Some q \<Rightarrow> map_option (\<lambda>o'. (qe_client_id o', qe_unique_name o')) (primary_owner q)
      | None \<Rightarrow> None)"

section \<open>Specification\<close>

type_synonym ownership_queue = "queue_entry list"

definition queue_list :: "name_queue \<Rightarrow> ownership_queue" where
  "queue_list q = (case primary_owner q of Some e \<Rightarrow> [e] | None \<Rightarrow> []) @ waiters q"

definition queue_of :: "name_queue_manager \<Rightarrow> string \<Rightarrow> ownership_queue" where
  "queue_of m name = (case hm_get (queues m) name of Some q \<Rightarrow> queue_list q | None \<Rightarrow> [])"

definition without :: "client_id \<Rightarrow> ownership_queue \<Rightarrow> ownership_queue" where
  "without c q = filter (\<lambda>e. qe_client_id e \<noteq> c) q"

definition owner_info :: "ownership_queue \<Rightarrow> (client_id \<times> string) option" where
  "owner_info q = (case q of e # _ \<Rightarrow> Some (qe_client_id e, qe_unique_name e) | [] \<Rightarrow> None)"

definition owned_by :: "client_id \<Rightarrow> ownership_queue \<Rightarrow> bool" where
  "owned_by c q = (case q of e # _ \<Rightarrow> qe_client_id e = c | [] \<Rightarrow> False)"

definition waits_in :: "client_id \<Rightarrow> ownership_queue \<Rightarrow> bool" where
  "waits_in c q = list_ex (\<lambda>e. qe_client_id e = c) q"

definition flag_entry :: "client_id \<Rightarrow> string \<Rightarrow> u32 \<Rightarrow> queue_entry" where
  "flag_entry c u flags =
     \<lparr>qe_client_id = c, qe_unique_name = u, qe_allow_replacement = (flags AND ALLOW_REPLACEMENT \<noteq> 0)\<rparr>"

text \<open>The D-Bus rules for a request: reply code and new queue.\<close>

definition spec_request :: "client_id \<Rightarrow> string \<Rightarrow> u32 \<Rightarrow> ownership_queue \<Rightarrow> u32 \<times> ownership_queue" where
  "spec_request c u flags q =
     (if q = [] then (PRIMARY_OWNER, [flag_entry c u flags])
      else if owned_by c q then (ALREADY_OWNER, q)
      else if waits_in c q then (IN_QUEUE, q)
      else if flags AND REPLACE_EXISTING \<noteq> 0 \<and> qe_allow_replacement (hd q)
           then (PRIMARY_OWNER, flag_entry c u flags # q)
      else if flags AND DO_NOT_QUEUE \<noteq> 0 then (EXISTS, q)
      else (IN_QUEUE, q @ [flag_entry c u flags]))"

definition spec_release_code :: "client_id \<Rightarrow> ownership_queue \<Rightarrow> u32" where
  "spec_release_code c q =
     (if q = [] then NON_EXISTENT else if waits_in c q then RELEASED else NOT_OWNER)"

text \<open>
  A manager is well formed when every queue it stores has an owner, and no client is twice
  in one queue.
\<close>

definition queue_wf :: "name_queue \<Rightarrow> bool" where
  "queue_wf q = (primary_owner q \<noteq> None \<and> distinct (map qe_client_id (queue_list q)))"

definition manager_wf :: "name_queue_manager \<Rightarrow> bool" where
  "manager_wf m = (hm_wf (queues m) \<and> list_all (\<lambda>(n, q). queue_wf q) (queues m))"


text \<open>Sequences of operations, on a manager and on the specification.\<close>

datatype queue_op =
    RequestOp string client_id string u32
  | ReleaseOp string client_id
  | DropOp client_id

primrec queue_step :: "(string \<Rightarrow> client_id \<Rightarrow> string \<Rightarrow> u32 \<Rightarrow> 'm \<Rightarrow> request_name_result \<times> 'm) \<Rightarrow>
    (string \<Rightarrow> client_id \<Rightarrow> 'm \<Rightarrow> release_name_result \<times> 'm) \<Rightarrow>
    (client_id \<Rightarrow> 'm \<Rightarrow> (string \<times> (client_id \<times> string) option) list \<times> 'm) \<Rightarrow>
    queue_op \<Rightarrow> 'm \<Rightarrow> 'm" where
  "queue_step req rel drp (RequestOp n c u f) m = snd (req n c u f m)"
| "queue_step req rel drp (ReleaseOp n c) m = snd (rel n c m)"
| "queue_step req rel drp (DropOp c) m = snd (drp c m)"

primrec spec_step :: "queue_op \<Rightarrow> (string \<Rightarrow> ownership_queue) \<Rightarrow> string \<Rightarrow> ownership_queue" where
  "spec_step (RequestOp n c u f) Q = Q(n := snd (spec_request c u f (Q n)))"
| "spec_step (ReleaseOp n c) Q = Q(n := without c (Q n))"
| "spec_step (DropOp c) Q = (\<lambda>n. without c (Q n))"

section \<open>Lemmas on ownership queues\<close>

lemma without_Nil [simp]: "without c [] = []"
  by (simp add: without_def)

lemma without_Cons [simp]: "without c (e # q) = (if qe_client_id e = c then without c q else e # without c q)"
  by (simp add: without_def)

lemma without_append [simp]: "without c (p @ q) = without c p @ without c q"
  by (simp add: without_def)

lemma waits_in_simps [simp]:
  "\<not> waits_in c []" "waits_in c (e # q) \<longleftrightarrow> qe_client_id e = c \<or> waits_in c q"
  "waits_in c (p @ q) \<longleftrightarrow> waits_in c p \<or> waits_in c q"
  by (auto simp: waits_in_def)

lemma waits_in_set: "waits_in c q \<longleftrightarrow> c \<in> qe_client_id ` set q"
  by (auto simp: waits_in_def list_ex_iff)

lemma without_absent: "\<not> waits_in c q \<Longrightarrow> without c q = q"
  by (induction q) auto

lemma without_notin [simp]: "c \<notin> qe_client_id ` set q \<Longrightarrow> without c q = q"
  by (rule without_absent) (simp add: waits_in_set)

lemma waits_in_without [simp]: "waits_in d (without c q) \<longleftrightarrow> d \<noteq> c \<and> waits_in d q"
  by (induction q) auto

lemma map_without: "map qe_client_id (without c q) = filter (\<lambda>d. d \<noteq> c) (map qe_client_id q)"
  by (induction q) auto

lemma distinct_without: "distinct (map qe_client_id q) \<Longrightarrow> distinct (map qe_client_id (without c q))"
  by (simp add: map_without)

lemma owned_by_waits: "owned_by c q \<Longrightarrow> waits_in c q"
  by (cases q) (auto simp: owned_by_def)

lemma length_without: "length (without c q) < length q \<longleftrightarrow> waits_in c q"
proof (induction q)
  case (Cons e q)
  then show ?case by (auto simp: without_def less_Suc_eq_le)
qed simp

lemma flag_entry_id [simp]: "qe_client_id (flag_entry c u f) = c"
  by (simp add: flag_entry_def)

lemma distinct_spec_request:
  "distinct (map qe_client_id q) \<Longrightarrow> distinct (map qe_client_id (snd (spec_request c u f q)))"
  by (auto simp: spec_request_def waits_in_set)

lemma spec_request_nonempty: "snd (spec_request c u f q) \<noteq> []"
  by (simp add: spec_request_def)

lemma spec_request_PRIMARY:
  "fst (spec_request c u f q) = PRIMARY_OWNER \<longleftrightarrow>
     q = [] \<or> (\<not> waits_in c q \<and> f AND REPLACE_EXISTING \<noteq> 0 \<and> qe_allow_replacement (hd q))"
  by (auto simp: spec_request_def PRIMARY_OWNER_def ALREADY_OWNER_def IN_QUEUE_def EXISTS_def
      dest: owned_by_waits)

lemma spec_request_revert:
  "fst (spec_request c u f q) = PRIMARY_OWNER \<Longrightarrow> without c (snd (spec_request c u f q)) = q"
  unfolding spec_request_PRIMARY
  by (auto simp: spec_request_def without_absent dest: owned_by_waits)

section \<open>The contract of the queue manager\<close>

locale ownership =
  fixes queue :: "'m \<Rightarrow> string \<Rightarrow> ownership_queue"
    and req :: "string \<Rightarrow> client_id \<Rightarrow> string \<Rightarrow> u32 \<Rightarrow> 'm \<Rightarrow> request_name_result \<times> 'm"
    and rel :: "string \<Rightarrow> client_id \<Rightarrow> 'm \<Rightarrow> release_name_result \<times> 'm"
    and drp :: "client_id \<Rightarrow> 'm \<Rightarrow> (string \<times> (client_id \<times> string) option) list \<times> 'm"
    and wf :: "'m \<Rightarrow> bool"
  assumes req_queue: "wf m \<Longrightarrow> queue (snd (req n c u f m)) =
          (queue m)(n := snd (spec_request c u f (queue m n)))"
    and req_code: "wf m \<Longrightarrow> rn_reply_code (fst (req n c u f m)) = fst (spec_request c u f (queue m n))"
    and req_forward: "wf m \<Longrightarrow> rn_forward_to_bus (fst (req n c u f m)) \<longleftrightarrow>
          fst (spec_request c u f (queue m n)) = PRIMARY_OWNER"
    and rel_queue: "wf m \<Longrightarrow> queue (snd (rel n c m)) = (queue m)(n := without c (queue m n))"
    and rel_code: "wf m \<Longrightarrow> rl_reply_code (fst (rel n c m)) = spec_release_code c (queue m n)"
    and rel_new_owner: "wf m \<Longrightarrow> rl_new_owner (fst (rel n c m)) =
          (if owned_by c (queue m n) then owner_info (without c (queue m n)) else None)"
    and rel_forward: "wf m \<Longrightarrow> rl_forward_to_bus (fst (rel n c m)) \<longleftrightarrow>
          owned_by c (queue m n) \<and> without c (queue m n) = []"
    and drp_queue: "wf m \<Longrightarrow> queue (snd (drp c m)) = (\<lambda>n. without c (queue m n))"
    and drp_results: "wf m \<Longrightarrow> set (fst (drp c m)) =
          {(n, owner_info (without c (queue m n))) | n. owned_by c (queue m n)}"
    and wf_ops: "wf m \<Longrightarrow> wf (snd (req n c u f m))" "wf m \<Longrightarrow> wf (snd (rel n c m))"
          "wf m \<Longrightarrow> wf (snd (drp c m))"
    and wf_distinct: "wf m \<Longrightarrow> distinct (map qe_client_id (queue m n))"
begin

text \<open>A request that took the name is undone by a release, as the error path does.\<close>

lemma request_revert:
  assumes "wf m" and "rn_forward_to_bus (fst (req n c u f m))"
  shows "queue (snd (rel n c (snd (req n c u f m)))) = queue m"
  using assms by (simp add: rel_queue req_queue wf_ops req_forward spec_request_revert)

lemma dropped_gone: "wf m \<Longrightarrow> \<not> waits_in c (queue (snd (drp c m)) n)"
  by (simp add: drp_queue)

lemma release_keeps_owner:
  "\<lbrakk>wf m; \<not> owned_by c (queue m n)\<rbrakk> \<Longrightarrow>
     owner_info (queue (snd (rel n c m)) n) = owner_info (queue m n)"
  by (cases "queue m n") (auto simp: rel_queue owned_by_def owner_info_def)

lemma wf_step: "wf m \<Longrightarrow> wf (queue_step req rel drp op m)"
  by (cases op) (auto intro: wf_ops)

lemma queue_step_refines:
  "wf m \<Longrightarrow> queue (queue_step req rel drp op m) = spec_step op (queue m)"
  by (cases op) (auto simp: req_queue rel_queue drp_queue)

lemma queue_run_refines:
  "wf m \<Longrightarrow> wf (fold (queue_step req rel drp) ops m)
     \<and> queue (fold (queue_step req rel drp) ops m) = fold spec_step ops (queue m)"
  by (induction ops arbitrary: m) (simp_all add: wf_step queue_step_refines)

end

section \<open>The manager refines the contract\<close>

lemma queue_list_simps [simp]:
  "queue_list \<lparr>primary_owner = None, waiters = ws\<rparr> = ws"
  "queue_list \<lparr>primary_owner = Some e, waiters = ws\<rparr> = e # ws"
  by (simp_all add: queue_list_def)

lemma queue_of_set_queue [simp]:
  "queue_of (set_queue n q m) = (queue_of m)(n := queue_list q)"
  by (auto simp: queue_of_def set_queue_def)

lemma set_queue_set_queue [simp]: "set_queue n q (set_queue n q' m) = set_queue n q m"
  by (simp add: set_queue_def)

lemma queue_of_remove [simp]:
  "queue_of (m\<lparr>queues := hm_remove n (queues m)\<rparr>) = (queue_of m)(n := [])"
  by (auto simp: queue_of_def)

lemma queue_wfE:
  assumes "queue_wf q"
  obtains e ws where "q = \<lparr>primary_owner = Some e, waiters = ws\<rparr>"
    and "distinct (map qe_client_id (e # ws))"
  using assms by (cases q) (auto simp: queue_wf_def)

lemma queue_wf_simp [simp]:
  "queue_wf \<lparr>primary_owner = p, waiters = ws\<rparr> \<longleftrightarrow>
     (\<exists>e. p = Some e \<and> distinct (map qe_client_id (e # ws)))"
  by (auto simp: queue_wf_def)

lemma manager_wf_get: "manager_wf m \<Longrightarrow> hm_get (queues m) n = Some q \<Longrightarrow> queue_wf q"
  by (auto simp: manager_wf_def list_all_iff dest!: hm_get_SomeD)

lemma manager_wf_iff:
  "manager_wf m \<longleftrightarrow> hm_wf (queues m) \<and> (\<forall>n q. hm_get (queues m) n = Some q \<longrightarrow> queue_wf q)"
  by (auto simp: manager_wf_def list_all_iff hm_get_set)

lemma manager_wf_new [simp, inv_intros]: "manager_wf name_queue_manager_new"
  by (simp add: manager_wf_def name_queue_manager_new_def)

lemma queue_of_new [simp]: "queue_of name_queue_manager_new = (\<lambda>_. [])"
  by (auto simp: queue_of_def name_queue_manager_new_def)

lemma manager_wf_set_queue: "manager_wf m \<Longrightarrow> queue_wf q \<Longrightarrow> manager_wf (set_queue n q m)"
  by (auto simp: manager_wf_iff set_queue_def)

lemma manager_wf_remove: "manager_wf m \<Longrightarrow> manager_wf (m\<lparr>queues := hm_remove n (queues m)\<rparr>)"
  by (auto simp: manager_wf_iff)

text \<open>A well-formed manager stores nothing under a name, or a queue with an owner.\<close>

lemma manager_cases:
  assumes "manager_wf m"
  obtains (none) "hm_get (queues m) n = None" "queue_of m n = []"
  | (some) e ws where "hm_get (queues m) n = Some \<lparr>primary_owner = Some e, waiters = ws\<rparr>"
      "queue_of m n = e # ws" "distinct (map qe_client_id (e # ws))"
proof (cases "hm_get (queues m) n")
  case None
  then show ?thesis using none by (simp add: queue_of_def)
next
  case (Some q)
  with assms have "queue_wf q" by (rule manager_wf_get)
  then show ?thesis
    by (elim queue_wfE) (use Some some in \<open>auto simp: queue_of_def\<close>)
qed

lemmas queue_predicates = is_primary_owner_def contains_client_def owned_by_def waits_in_def

lemma request_name_refines:
  assumes "manager_wf m"
  shows "manager_wf (snd (request_name n c u f m))"
    and "queue_of (snd (request_name n c u f m)) =
           (queue_of m)(n := snd (spec_request c u f (queue_of m n)))"
    and "rn_reply_code (fst (request_name n c u f m)) = fst (spec_request c u f (queue_of m n))"
    and "rn_forward_to_bus (fst (request_name n c u f m)) \<longleftrightarrow>
           fst (spec_request c u f (queue_of m n)) = PRIMARY_OWNER"
    and "rn_replaced_owner (fst (request_name n c u f m)) =
           (if fst (spec_request c u f (queue_of m n)) = PRIMARY_OWNER
            then map_option snd (owner_info (queue_of m n)) else None)"
proof -
  have codes: "PRIMARY_OWNER \<noteq> IN_QUEUE" "PRIMARY_OWNER \<noteq> EXISTS" "PRIMARY_OWNER \<noteq> ALREADY_OWNER"
    by (simp_all add: PRIMARY_OWNER_def IN_QUEUE_def EXISTS_def ALREADY_OWNER_def)
  note defs = request_name_def entry_or_default_def name_queue_default_def queue_predicates
    spec_request_def flag_entry_def owner_info_def Let_def
  note this [simp] = codes codes [symmetric]
  show "manager_wf (snd (request_name n c u f m))"
    using assms by (cases rule: manager_cases[OF assms, of n])
      (auto simp: defs list_ex_iff intro!: manager_wf_set_queue split: if_splits)
  show "queue_of (snd (request_name n c u f m)) =
           (queue_of m)(n := snd (spec_request c u f (queue_of m n)))"
    by (cases rule: manager_cases[OF assms, of n]) (auto simp: defs)
  show "rn_reply_code (fst (request_name n c u f m)) = fst (spec_request c u f (queue_of m n))"
    by (cases rule: manager_cases[OF assms, of n]) (auto simp: defs)
  show "rn_forward_to_bus (fst (request_name n c u f m)) \<longleftrightarrow>
           fst (spec_request c u f (queue_of m n)) = PRIMARY_OWNER"
    by (cases rule: manager_cases[OF assms, of n]) (auto simp: defs)
  show "rn_replaced_owner (fst (request_name n c u f m)) =
           (if fst (spec_request c u f (queue_of m n)) = PRIMARY_OWNER
            then map_option snd (owner_info (queue_of m n)) else None)"
    by (cases rule: manager_cases[OF assms, of n]) (auto simp: defs)
qed

lemma release_name_refines:
  assumes "manager_wf m"
  shows "manager_wf (snd (release_name n c m))"
    and "queue_of (snd (release_name n c m)) = (queue_of m)(n := without c (queue_of m n))"
    and "rl_reply_code (fst (release_name n c m)) = spec_release_code c (queue_of m n)"
    and "rl_new_owner (fst (release_name n c m)) =
           (if owned_by c (queue_of m n) then owner_info (without c (queue_of m n)) else None)"
    and "rl_forward_to_bus (fst (release_name n c m)) \<longleftrightarrow>
           owned_by c (queue_of m n) \<and> without c (queue_of m n) = []"
proof -
  note defs = release_name_def is_primary_owner_def owned_by_def spec_release_code_def owner_info_def
  show "manager_wf (snd (release_name n c m))"
    using assms by (cases rule: manager_cases[OF assms, of n])
      (auto simp: defs distinct_without[unfolded without_def] Let_def
        intro!: manager_wf_set_queue manager_wf_remove split: list.splits)
  show "queue_of (snd (release_name n c m)) = (queue_of m)(n := without c (queue_of m n))"
    by (cases rule: manager_cases[OF assms, of n])
      (auto simp: defs Let_def without_def[symmetric] split: list.splits)
  show "rl_reply_code (fst (release_name n c m)) = spec_release_code c (queue_of m n)"
    by (cases rule: manager_cases[OF assms, of n])
      (auto simp: defs Let_def without_def[symmetric] length_without split: list.splits)
  show "rl_new_owner (fst (release_name n c m)) =
           (if owned_by c (queue_of m n) then owner_info (without c (queue_of m n)) else None)"
    by (cases rule: manager_cases[OF assms, of n])
      (auto simp: defs Let_def split: list.splits)
  show "rl_forward_to_bus (fst (release_name n c m)) \<longleftrightarrow>
           owned_by c (queue_of m n) \<and> without c (queue_of m n) = []"
    by (cases rule: manager_cases[OF assms, of n])
      (auto simp: defs Let_def split: list.splits)
qed

text \<open>The loop of \<open>remove_client\<close>, in closed form.\<close>

lemma remove_client_loop_eq:
  "remove_client_loop c qs =
     (concat (map (\<lambda>(n, q). case fst (remove_from_queue c q) of Some x \<Rightarrow> [(n, x)] | None \<Rightarrow> []) qs),
      map fst (filter (\<lambda>(n, q). fst (snd (remove_from_queue c q))) qs),
      map (\<lambda>(n, q). (n, snd (snd (remove_from_queue c q)))) qs)"
  by (induction qs) (auto simp: Let_def split: option.splits prod.splits)

lemma remove_from_queue_wf:
  assumes "queue_wf q"
  shows "fst (remove_from_queue c q) =
           (if owned_by c (queue_list q) then Some (owner_info (without c (queue_list q))) else None)"
    and "fst (snd (remove_from_queue c q)) \<longleftrightarrow> without c (queue_list q) = []"
    and "queue_list (snd (snd (remove_from_queue c q))) = without c (queue_list q)"
    and "\<not> fst (snd (remove_from_queue c q)) \<Longrightarrow> queue_wf (snd (snd (remove_from_queue c q)))"
  using assms
  by (auto elim!: queue_wfE simp: remove_from_queue_def is_primary_owner_def owned_by_def
      owner_info_def without_def[symmetric] distinct_without Let_def split: list.splits if_splits)
    (auto simp: without_def waits_in_set)

lemma hm_get_fold_remove:
  "hm_get (fold hm_remove ns m) k = (if k \<in> set ns then None else hm_get m k)"
  by (induction ns arbitrary: m) auto

lemma hm_wf_fold_remove: "hm_wf m \<Longrightarrow> hm_wf (fold hm_remove ns m)"
  by (induction ns arbitrary: m) auto

lemma hm_get_map_snd: "hm_get (map (\<lambda>(n, q). (n, f q)) m) k = map_option f (hm_get m k)"
  by (induction m) (auto simp: hm_get_def)

lemma hm_wf_map_snd: "hm_wf (map (\<lambda>(n, q). (n, f q)) m) = hm_wf m"
  by (simp add: hm_wf_def comp_def case_prod_unfold)

lemma hm_get_remove_client:
  assumes "manager_wf m"
  shows "hm_get (queues (snd (remove_client c m))) n =
     (case hm_get (queues m) n of
        None \<Rightarrow> None
      | Some q \<Rightarrow> if without c (queue_list q) = [] then None
                  else Some (snd (snd (remove_from_queue c q))))"
proof -
  have emptied: "n \<in> fst ` {x \<in> set (queues m). case x of (n, q) \<Rightarrow> fst (snd (remove_from_queue c q))}
      \<longleftrightarrow> (\<exists>q. hm_get (queues m) n = Some q \<and> without c (queue_list q) = [])"
    using assms
    by (auto simp: manager_wf_iff hm_get_set remove_from_queue_wf image_iff split: prod.splits)
  have "hm_get (queues (snd (remove_client c m))) n =
      (if \<exists>q. hm_get (queues m) n = Some q \<and> without c (queue_list q) = [] then None
       else map_option (\<lambda>q. snd (snd (remove_from_queue c q))) (hm_get (queues m) n))"
    by (auto simp: remove_client_def remove_client_loop_eq hm_get_fold_remove emptied hm_get_map_snd)
  then show ?thesis by (auto split: option.splits)
qed

lemma remove_client_refines:
  assumes "manager_wf m"
  shows "manager_wf (snd (remove_client c m))"
    and "queue_of (snd (remove_client c m)) = (\<lambda>n. without c (queue_of m n))"
    and "set (fst (remove_client c m)) =
           {(n, owner_info (without c (queue_of m n))) | n. owned_by c (queue_of m n)}"
proof -
  have wf: "hm_wf (queues m)" and qwf: "\<And>n q. hm_get (queues m) n = Some q \<Longrightarrow> queue_wf q"
    using assms by (auto simp: manager_wf_iff)
  have "hm_wf (queues (snd (remove_client c m)))"
    using wf by (simp add: remove_client_def remove_client_loop_eq hm_wf_fold_remove
        hm_wf_map_snd)
  then show "manager_wf (snd (remove_client c m))"
    using qwf by (auto simp: manager_wf_iff hm_get_remove_client[OF assms] remove_from_queue_wf
        split: option.splits if_splits)
  show "queue_of (snd (remove_client c m)) = (\<lambda>n. without c (queue_of m n))"
    using qwf by (auto simp: queue_of_def hm_get_remove_client[OF assms] remove_from_queue_wf
        fun_eq_iff split: option.splits)
  show "set (fst (remove_client c m)) =
      {(n, owner_info (without c (queue_of m n))) | n. owned_by c (queue_of m n)}" (is "_ = ?R")
  proof (intro set_eqI iffI)
    fix x assume "x \<in> set (fst (remove_client c m))"
    then obtain n q where "(n, q) \<in> set (queues m)" "owned_by c (queue_list q)"
      "x = (n, owner_info (without c (queue_list q)))"
      using qwf wf by (auto simp: remove_client_def remove_client_loop_eq hm_get_set
          remove_from_queue_wf split: option.splits if_splits prod.splits)
    then show "x \<in> ?R" using wf by (auto simp: queue_of_def hm_get_set[symmetric])
  next
    fix x assume "x \<in> ?R"
    then obtain n q where "(n, q) \<in> set (queues m)" "owned_by c (queue_list q)"
      "x = (n, owner_info (without c (queue_list q)))"
      by (auto simp: queue_of_def owned_by_def dest: hm_get_SomeD split: option.splits)
    moreover from this have "queue_wf q" using qwf wf by (auto simp: hm_get_set)
    ultimately show "x \<in> set (fst (remove_client c m))"
      by (force simp: remove_client_def remove_client_loop_eq remove_from_queue_wf)
  qed
qed

interpretation nq: ownership queue_of request_name release_name remove_client manager_wf
proof unfold_locales
  fix m n
  show "manager_wf m \<Longrightarrow> distinct (map qe_client_id (queue_of m n))"
    by (auto simp: queue_of_def queue_wf_def dest: manager_wf_get split: option.splits)
qed (simp_all add: request_name_refines release_name_refines remove_client_refines)

lemma manager_wf_ops [inv_intros]:
  "manager_wf m \<Longrightarrow> manager_wf (snd (request_name n c u f m))"
  "manager_wf m \<Longrightarrow> manager_wf (snd (release_name n c m))"
  "manager_wf m \<Longrightarrow> manager_wf (snd (remove_client c m))"
  by (simp_all add: request_name_refines release_name_refines remove_client_refines)

lemma observers_queue_of:
  "list_queued_owners n m = map qe_unique_name (queue_of m n)"
  "manager_wf m \<Longrightarrow> name_has_owner n m \<longleftrightarrow> queue_of m n \<noteq> []"
  "manager_wf m \<Longrightarrow> get_primary_owner n m = owner_info (queue_of m n)"
proof -
  show "list_queued_owners n m = map qe_unique_name (queue_of m n)"
    by (auto simp: list_queued_owners_def all_owners_def queue_of_def queue_list_def split: option.splits)
  show "manager_wf m \<Longrightarrow> name_has_owner n m \<longleftrightarrow> queue_of m n \<noteq> []"
    by (auto simp: name_has_owner_def queue_of_def queue_list_def queue_wf_def
        dest!: manager_wf_get split: option.splits)
  show "manager_wf m \<Longrightarrow> get_primary_owner n m = owner_info (queue_of m n)"
    by (auto simp: get_primary_owner_def queue_of_def queue_list_def queue_wf_def owner_info_def
        dest!: manager_wf_get split: option.splits)
qed

section \<open>Properties\<close>

text \<open>A manager with one owned name, for the instances of the properties.\<close>

definition sample_manager :: name_queue_manager where
  "sample_manager = snd (request_name ''org.a'' 1 '':mux.1'' 0 name_queue_manager_new)"

lemma sample_manager_facts:
  "manager_wf sample_manager" "queue_of sample_manager ''org.a'' = [flag_entry 1 '':mux.1'' 0]"
  by (simp_all add: sample_manager_def request_name_refines queue_of_def[of name_queue_manager_new]
        name_queue_manager_new_def[THEN arg_cong[where f = queues]] spec_request_def)

text \<open>
  C6. Trace refinement: after any sequence of requests, releases and disconnects, starting
  from the empty manager, the queues are those of the specification (one ordered list of
  clients per name, owner first), every stored queue has an owner, no client is twice in a
  queue, and the observers \<open>list_queued_owners\<close>, \<open>name_has_owner\<close> and \<open>get_primary_owner\<close> report
  the list, whether it is non-empty, and its head.
\<close>

theorem name_queue_refines_spec:
  fixes ops n
  defines "m \<equiv> fold (queue_step request_name release_name remove_client) ops name_queue_manager_new"
    and "Q \<equiv> fold spec_step ops (\<lambda>_. [])"
  shows "queue_of m = Q \<and> manager_wf m \<and> distinct (map qe_client_id (Q n))
     \<and> list_queued_owners n m = map qe_unique_name (Q n)
     \<and> name_has_owner n m = (Q n \<noteq> [])
     \<and> get_primary_owner n m = owner_info (Q n)"
proof -
  have "queue_of name_queue_manager_new = (\<lambda>_. [])"
    by (simp add: queue_of_def name_queue_manager_new_def fun_eq_iff)
  then have Q: "queue_of m = Q" and wf: "manager_wf m"
    using nq.queue_run_refines[of name_queue_manager_new ops] by (simp_all add: m_def Q_def)
  then show ?thesis
    using nq.wf_distinct[OF wf, of n] by (simp add: observers_queue_of Q[symmetric])
qed

text \<open>
  \<open>request_name\<close> follows the rules of the specification on every branch: the reply code and
  the new queue are those of \<open>spec_request\<close>, the queues of other names are untouched, the call
  is forwarded to the bus exactly when the client becomes the owner, and the replaced owner is
  reported exactly then.
\<close>

lemma request_name_correct:
  assumes "manager_wf m" and "request_name n c u f m = (res, m')"
  shows "rn_reply_code res = fst (spec_request c u f (queue_of m n))
     \<and> queue_of m' = (queue_of m)(n := snd (spec_request c u f (queue_of m n)))
     \<and> (rn_forward_to_bus res \<longleftrightarrow> owned_by c (queue_of m' n) \<and> \<not> owned_by c (queue_of m n))
     \<and> rn_replaced_owner res =
         (if rn_forward_to_bus res then map_option snd (owner_info (queue_of m n)) else None)"
proof -
  have codes: "PRIMARY_OWNER \<noteq> IN_QUEUE" "PRIMARY_OWNER \<noteq> EXISTS" "PRIMARY_OWNER \<noteq> ALREADY_OWNER"
    by (simp_all add: PRIMARY_OWNER_def IN_QUEUE_def EXISTS_def ALREADY_OWNER_def)
  have "fst (spec_request c u f q) = PRIMARY_OWNER \<longleftrightarrow>
      owned_by c (snd (spec_request c u f q)) \<and> \<not> owned_by c q" for q
    using codes by (cases q) (auto simp: spec_request_def owned_by_def flag_entry_def)
  then show ?thesis
    using request_name_refines[OF assms(1), of n c u f] assms(2) by simp
qed

lemma request_name_correct_witness:
  "manager_wf sample_manager
   \<and> rn_reply_code (fst (request_name ''org.a'' 2 '':mux.2'' 0
        sample_manager)) = IN_QUEUE"
  using sample_manager_facts
    request_name_correct[OF sample_manager_facts(1) prod.collapse[symmetric], where n = "''org.a''" and c = 2 and u = "'':mux.2''" and f = 0]
  by (simp add: spec_request_def owned_by_def flag_entry_def)

text \<open>
  \<open>release_name\<close> is correct on every branch: it removes exactly this client from the name's
  queue, keeps the order of the others, and answers \<open>NON_EXISTENT\<close>, \<open>RELEASED\<close> or \<open>NOT_OWNER\<close> as
  the client stood in the queue; it names a new owner exactly when the owner left and someone
  waits, and forwards to the bus exactly when the owner left and nobody waits.
\<close>

lemma release_name_correct:
  assumes "manager_wf m" and "release_name n c m = (res, m')"
  shows "queue_of m' = (queue_of m)(n := without c (queue_of m n))
     \<and> rl_reply_code res = spec_release_code c (queue_of m n)
     \<and> rl_new_owner res =
         (if owned_by c (queue_of m n) then owner_info (without c (queue_of m n)) else None)
     \<and> (rl_forward_to_bus res \<longleftrightarrow> owned_by c (queue_of m n) \<and> without c (queue_of m n) = [])"
  using release_name_refines[OF assms(1), of n c] assms(2) by simp

lemma release_name_correct_witness:
  "manager_wf sample_manager
   \<and> rl_forward_to_bus (fst (release_name ''org.a'' 1
        sample_manager))"
  using sample_manager_facts
    release_name_correct[OF sample_manager_facts(1) prod.collapse[symmetric], where n = "''org.a''" and c = 1]
  by (simp add: owned_by_def flag_entry_def)

text \<open>
  The error path of \<open>RequestName\<close> restores the queue: when a request made the client the
  owner (whether the name was free or its owner was replaced), releasing the name again gives
  back the queues of every name as they were before the request.
\<close>

lemma request_name_reverted_by_release:
  assumes "manager_wf m" and "request_name n c u f m = (res, m')" and "rn_forward_to_bus res"
  shows "queue_of (snd (release_name n c m')) = queue_of m"
  using nq.request_revert[OF assms(1), of n c u f] assms(2,3) by simp

lemma request_name_reverted_by_release_witness:
  "rn_forward_to_bus (fst (request_name ''org.b'' 1 '':mux.1'' 0 sample_manager))
   \<and> queue_of (snd (release_name ''org.b'' 1 (snd (request_name ''org.b'' 1 '':mux.1'' 0 sample_manager))))
       = queue_of sample_manager"
proof -
  have fwd: "rn_forward_to_bus (fst (request_name ''org.b'' 1 '':mux.1'' 0 sample_manager))"
    by (simp add: request_name_refines sample_manager_facts(1) sample_manager_def queue_of_def
        name_queue_manager_new_def[THEN arg_cong[where f = queues]] spec_request_def)
  then show ?thesis
    using request_name_reverted_by_release[OF sample_manager_facts(1) prod.collapse[symmetric] fwd] by simp
qed

text \<open>
  \<open>remove_client\<close> takes a disconnecting client out of every queue, keeps the order of the
  others, and reports exactly the names it owned, each with the waiter that now owns it, if any.
\<close>

lemma remove_client_correct:
  assumes "manager_wf m" and "remove_client c m = (res, m')"
  shows "queue_of m' = (\<lambda>n. without c (queue_of m n))
     \<and> (\<forall>n. \<not> waits_in c (queue_of m' n))
     \<and> set res = {(n, owner_info (queue_of m' n)) | n. owned_by c (queue_of m n)}"
  using remove_client_refines[OF assms(1), of c] nq.dropped_gone[OF assms(1), of c] assms(2) by simp

lemma remove_client_correct_witness:
  "manager_wf sample_manager
   \<and> queue_of (snd (remove_client 1
        sample_manager)) ''org.a'' = []"
  using sample_manager_facts
    remove_client_correct[OF sample_manager_facts(1) prod.collapse[symmetric], where c = 1]
  by (simp add: flag_entry_def)

end
