(* ===== verification/Multiplexer.thy ===== *)
theory Multiplexer
  imports Router Match_Semantics Portal_Request Name_Queue
begin

text \<open>
  The multiplexer (\<open>multiplexer.rs\<close>). Its state is the record \<open>multiplexer\<close>: the router with the
  bus connections, the routing table and the serial map, the connected clients, the reference
  counts of the match rules, the name queues and the portal requests. A handler is a function
  from an environment and a state to a state; what it sends is appended to \<open>mx_effects\<close>. The
  main loop runs one handler at a time; the task of a client that disconnects runs beside it, so
  its clean-up is given as the sequence of steps between which other handlers may run.
  A message handed to the channel of a client counts as sent: a channel that is full or closed
  delays or drops it there. Log output is not modelled.
\<close>

section \<open>State\<close>

record client_credentials =
  cc_uid :: u32
  cc_pid :: "u32 option"
  cc_gid :: u32

record client_info =
  ci_unique_name :: string
  ci_owned_names :: "string list"
  ci_match_rules :: client_match_rules
  ci_credentials :: client_credentials

record multiplexer =
  mx_router :: message_router
  mx_clients :: "(client_id, client_info) hmap"
  mx_guid :: string
  mx_refcount :: match_rule_ref_count
  mx_name_queue :: name_queue_manager
  mx_portal_requests :: portal_request_tracker
  mx_effects :: "effect list"

definition emit :: "effect list \<Rightarrow> multiplexer \<Rightarrow> multiplexer" where
  "emit effs mx = mx\<lparr>mx_effects := mx_effects mx @ effs\<rparr>"

definition mx_table :: "multiplexer \<Rightarrow> routing_table" where
  "mx_table mx = rt_routing_table (mx_router mx)"

definition upd_table :: "(routing_table \<Rightarrow> routing_table) \<Rightarrow> multiplexer \<Rightarrow> multiplexer" where
  "upd_table f mx = mx\<lparr>mx_router := (mx_router mx)\<lparr>rt_routing_table := f (rt_routing_table (mx_router mx))\<rparr>\<rparr>"

text \<open>\<open>if let Some(info) = clients.get_mut(&id)\<close>\<close>

definition upd_client :: "client_id \<Rightarrow> (client_info \<Rightarrow> client_info) \<Rightarrow> multiplexer \<Rightarrow> multiplexer" where
  "upd_client c f mx =
     (case hm_get (mx_clients mx) c of
        Some info \<Rightarrow> mx\<lparr>mx_clients := hm_insert c (f info) (mx_clients mx)\<rparr>
      | None \<Rightarrow> mx)"

definition own :: "string \<Rightarrow> client_info \<Rightarrow> client_info" where
  "own name info = info\<lparr>ci_owned_names := List.insert name (ci_owned_names info)\<rparr>"

definition disown :: "string \<Rightarrow> client_info \<Rightarrow> client_info" where
  "disown name info = info\<lparr>ci_owned_names := hs_remove name (ci_owned_names info)\<rparr>"

section \<open>Start\<close>

definition sync_routing_table :: "env \<Rightarrow> routing_table \<Rightarrow> (error + routing_table) \<times> effect list" where
  "sync_routing_table E table =
     (case list_names E Container of
        (Inl e, f1) \<Rightarrow> (Inl e, f1)
      | (Inr cns, f1) \<Rightarrow>
          (let t1 = set_container_names (filter (\<lambda>n. \<not> starts_with n '':'') cns) table
           in case list_names E Host of
                (Inl e, f2) \<Rightarrow> (Inl e, f1 @ f2)
              | (Inr hns, f2) \<Rightarrow>
                  (let t2 = set_host_names (filter (\<lambda>n. \<not> starts_with n '':'') hns) t1
                   in case list_activatable_names E Host of
                        (Inl e, f3) \<Rightarrow> (Inl e, f1 @ f2 @ f3)
                      | (Inr activatable, f3) \<Rightarrow> (Inr (set_host_activatable activatable t2), f1 @ f2 @ f3))))"

text \<open>
  \<open>Multiplexer::new\<close> after the listener socket is bound: connect to both buses, read the names,
  subscribe to their changes.
\<close>

definition multiplexer_new ::
    "env \<Rightarrow> (string \<Rightarrow> zbus_error + string option) \<Rightarrow> zbus_error + string option \<Rightarrow> string \<Rightarrow>
     string \<Rightarrow> string option \<Rightarrow> error + multiplexer" where
  "multiplexer_new E build session guid container_bus host_bus =
     (case bus_connect build container_bus ''container'' of Inl e \<Rightarrow> Inl e
      | Inr container \<Rightarrow>
     (case bus_connect_session build session host_bus ''host'' of Inl e \<Rightarrow> Inl e
      | Inr host \<Rightarrow>
     (case sync_routing_table E routing_table_new of (Inl e, _) \<Rightarrow> Inl e
      | (Inr table, f1) \<Rightarrow>
     (case subscribe_name_changes E Container of (Inl e, _) \<Rightarrow> Inl e
      | (Inr _, f2) \<Rightarrow>
     (case subscribe_name_changes E Host of (Inl e, _) \<Rightarrow> Inl e
      | (Inr _, f3) \<Rightarrow>
          Inr \<lparr>mx_router = message_router_new container host table, mx_clients = [], mx_guid = guid,
               mx_refcount = ref_count_new, mx_name_queue = name_queue_manager_new,
               mx_portal_requests = tracker_new, mx_effects = f1 @ f2 @ f3\<rparr>)))))"

section \<open>Replies to clients\<close>

definition send_reply_to_client ::
    "env \<Rightarrow> client_id \<Rightarrow> message \<Rightarrow> body_value \<Rightarrow> multiplexer \<Rightarrow> multiplexer" where
  "send_reply_to_client E c original_msg body mx =
     (case hm_get (mx_clients mx) c of
        Some info \<Rightarrow>
          (case mrb_build (e_zbus E)
                  (mrb_set_destination (ci_unique_name info) (method_return_builder_new original_msg)) body of
             Inr msg \<Rightarrow> emit [SendClient c msg] mx
           | Inl _ \<Rightarrow> mx)
      | None \<Rightarrow> mx)"

definition send_error_to_client ::
    "env \<Rightarrow> client_id \<Rightarrow> message \<Rightarrow> string \<Rightarrow> string \<Rightarrow> multiplexer \<Rightarrow> multiplexer" where
  "send_error_to_client E c original_msg error_name text mx =
     (case hm_get (mx_clients mx) c of
        Some info \<Rightarrow>
          (case eb_build (e_zbus E)
                  (eb_set_destination (ci_unique_name info) (error_builder_new original_msg error_name)) text of
             Inr msg \<Rightarrow> emit [SendClient c msg] mx
           | Inl _ \<Rightarrow> mx)
      | None \<Rightarrow> mx)"

definition invalid_args :: "env \<Rightarrow> client_id \<Rightarrow> message \<Rightarrow> string \<Rightarrow> multiplexer \<Rightarrow> multiplexer" where
  "invalid_args E c msg e mx = send_error_to_client E c msg INVALID_ARGS (''Invalid arguments: '' @ e) mx"

definition squoted :: "string \<Rightarrow> string" where
  "squoted s = CHR 0x27 # s @ [CHR 0x27]"

section \<open>Methods of the bus daemon\<close>

definition find_client_credentials :: "multiplexer \<Rightarrow> string \<Rightarrow> client_credentials option" where
  "find_client_credentials mx name =
     (case find (\<lambda>info. ci_unique_name info = name) (map snd (mx_clients mx)) of
        Some info \<Rightarrow> Some (ci_credentials info)
      | None \<Rightarrow>
          (case find (\<lambda>info. name \<in> set (ci_owned_names info)) (map snd (mx_clients mx)) of
             Some info \<Rightarrow> Some (ci_credentials info)
           | None \<Rightarrow> None))"

definition handle_hello :: "env \<Rightarrow> client_id \<Rightarrow> message \<Rightarrow> multiplexer \<Rightarrow> multiplexer" where
  "handle_hello E c msg mx =
     (case hm_get (mx_clients mx) c of
        Some info \<Rightarrow>
          (case mrb_build (e_zbus E)
                  (mrb_set_destination (ci_unique_name info) (method_return_builder_new msg))
                  (StrBody (ci_unique_name info)) of
             Inr reply \<Rightarrow> emit [SendClient c reply] mx
           | Inl _ \<Rightarrow> mx)
      | None \<Rightarrow> mx)"

definition handle_request_name :: "env \<Rightarrow> client_id \<Rightarrow> message \<Rightarrow> multiplexer \<Rightarrow> multiplexer" where
  "handle_request_name E c msg mx =
     (case de_string_u32 (e_zbus E) msg of
        Inl e \<Rightarrow> invalid_args E c msg e mx
      | Inr (name, flags) \<Rightarrow>
     (case hm_get (mx_clients mx) c of
        None \<Rightarrow> mx
      | Some info \<Rightarrow>
          (let unique_name = ci_unique_name info;
               (queue_result, q) = request_name name c unique_name flags (mx_name_queue mx);
               mx1 = mx\<lparr>mx_name_queue := q\<rparr>
           in if rn_forward_to_bus queue_result then
                (let mx2 = emit [CallBus Container (CallRequestName name flags)] mx1 in
                 case e_call E Container (CallRequestName name flags) of
                   Inr reply \<Rightarrow>
                     (let bus_reply_code = (case de_u32 (e_zbus E) reply of Inr code \<Rightarrow> code | Inl _ \<Rightarrow> 0);
                          mx3 = (if bus_reply_code = PRIMARY_OWNER \<or> bus_reply_code = ALREADY_OWNER
                                 then upd_client c (own name)
                                        (upd_table (on_container_name_change name [] unique_name) mx2)
                                 else mx2)
                      in send_reply_to_client E c msg (U32Body (rn_reply_code queue_result)) mx3)
                 | Inl e \<Rightarrow>
                     (let mx3 = mx2\<lparr>mx_name_queue := snd (release_name name c (mx_name_queue mx2))\<rparr>
                      in send_error_to_client E c msg FAILED (''RequestName failed: '' @ zbus_text e) mx3))
              else send_reply_to_client E c msg (U32Body (rn_reply_code queue_result)) mx1)))"

definition handle_release_name :: "env \<Rightarrow> client_id \<Rightarrow> message \<Rightarrow> multiplexer \<Rightarrow> multiplexer" where
  "handle_release_name E c msg mx =
     (case de_string (e_zbus E) msg of
        Inl e \<Rightarrow> invalid_args E c msg e mx
      | Inr name \<Rightarrow>
          (let (queue_result, q) = release_name name c (mx_name_queue mx);
               mx1 = mx\<lparr>mx_name_queue := q\<rparr>;
               mx2 =
                 (case rl_new_owner queue_result of
                    Some (new_owner_id, new_owner_name) \<Rightarrow>
                      upd_client new_owner_id (own name)
                        (upd_client c (disown name)
                          (upd_table (on_container_name_change name [] new_owner_name) mx1))
                  | None \<Rightarrow>
                      if rl_forward_to_bus queue_result then
                        (let unique_name = map_option ci_unique_name (hm_get (mx_clients mx1) c);
                             mx' = emit [CallBus Container (CallReleaseName name)] mx1
                         in case e_call E Container (CallReleaseName name) of
                              Inr _ \<Rightarrow>
                                upd_client c (disown name)
                                  (case unique_name of
                                     Some u \<Rightarrow> upd_table (on_container_name_change name u []) mx'
                                   | None \<Rightarrow> mx')
                            | Inl _ \<Rightarrow> mx')
                      else upd_client c (disown name) mx1)
           in send_reply_to_client E c msg (U32Body (rl_reply_code queue_result)) mx2))"

definition handle_list_names :: "env \<Rightarrow> client_id \<Rightarrow> message \<Rightarrow> multiplexer \<Rightarrow> multiplexer" where
  "handle_list_names E c msg mx = send_reply_to_client E c msg (StrsBody (all_names (mx_table mx))) mx"

definition handle_list_activatable_names :: "env \<Rightarrow> client_id \<Rightarrow> message \<Rightarrow> multiplexer \<Rightarrow> multiplexer" where
  "handle_list_activatable_names E c msg mx =
     (let (result, effs) = list_activatable_names E Host; mx1 = emit effs mx in
      case result of
        Inr ns \<Rightarrow> send_reply_to_client E c msg (StrsBody ns) mx1
      | Inl e \<Rightarrow> send_error_to_client E c msg FAILED (''ListActivatableNames failed: '' @ display_error e) mx1)"

definition handle_get_name_owner :: "env \<Rightarrow> client_id \<Rightarrow> message \<Rightarrow> multiplexer \<Rightarrow> multiplexer" where
  "handle_get_name_owner E c msg mx =
     (case de_string (e_zbus E) msg of
        Inl e \<Rightarrow> invalid_args E c msg e mx
      | Inr name \<Rightarrow>
          (let route = (case get_name_owner_route (mx_table mx) name of Some Container \<Rightarrow> Container | _ \<Rightarrow> Host);
               (result, effs) = get_name_owner E route name;
               mx1 = emit effs mx
           in case result of
                Inr (Some owner) \<Rightarrow> send_reply_to_client E c msg (StrBody owner) mx1
              | Inr None \<Rightarrow> send_error_to_client E c msg NAME_HAS_NO_OWNER (''Name '' @ name @ '' has no owner'') mx1
              | Inl e \<Rightarrow> send_error_to_client E c msg FAILED (''GetNameOwner failed: '' @ display_error e) mx1))"

definition handle_name_has_owner :: "env \<Rightarrow> client_id \<Rightarrow> message \<Rightarrow> multiplexer \<Rightarrow> multiplexer" where
  "handle_name_has_owner E c msg mx =
     (case de_string (e_zbus E) msg of
        Inl e \<Rightarrow> invalid_args E c msg e mx
      | Inr name \<Rightarrow> send_reply_to_client E c msg (BoolBody (table_name_has_owner (mx_table mx) name)) mx)"

definition handle_get_id :: "env \<Rightarrow> client_id \<Rightarrow> message \<Rightarrow> multiplexer \<Rightarrow> multiplexer" where
  "handle_get_id E c msg mx = send_reply_to_client E c msg (StrBody (mx_guid mx)) mx"

definition handle_ping :: "env \<Rightarrow> client_id \<Rightarrow> message \<Rightarrow> multiplexer \<Rightarrow> multiplexer" where
  "handle_ping E c msg mx = send_reply_to_client E c msg UnitBody mx"

definition handle_get_machine_id :: "env \<Rightarrow> client_id \<Rightarrow> message \<Rightarrow> multiplexer \<Rightarrow> multiplexer" where
  "handle_get_machine_id E c msg mx =
     (let machine_id = trim (case e_machine_id E of Some s \<Rightarrow> s | None \<Rightarrow> ''00000000000000000000000000000000'')
      in send_reply_to_client E c msg (StrBody machine_id) mx)"

definition handle_get_connection_unix_user :: "env \<Rightarrow> client_id \<Rightarrow> message \<Rightarrow> multiplexer \<Rightarrow> multiplexer" where
  "handle_get_connection_unix_user E c msg mx =
     (case de_string (e_zbus E) msg of
        Inl e \<Rightarrow> invalid_args E c msg e mx
      | Inr name \<Rightarrow>
          if name = ''org.freedesktop.DBus'' then send_reply_to_client E c msg (U32Body 0) mx
          else (case find_client_credentials mx name of
             Some creds \<Rightarrow> send_reply_to_client E c msg (U32Body (cc_uid creds)) mx
           | None \<Rightarrow>
               send_error_to_client E c msg NAME_HAS_NO_OWNER
                 (''Could not get UID of name '' @ squoted name @ '': no such name'') mx))"

definition handle_get_connection_unix_process_id ::
    "env \<Rightarrow> client_id \<Rightarrow> message \<Rightarrow> multiplexer \<Rightarrow> multiplexer" where
  "handle_get_connection_unix_process_id E c msg mx =
     (case de_string (e_zbus E) msg of
        Inl e \<Rightarrow> invalid_args E c msg e mx
      | Inr name \<Rightarrow>
          if name = ''org.freedesktop.DBus'' then send_reply_to_client E c msg (U32Body (e_pid E)) mx
          else (case find_client_credentials mx name of
             Some creds \<Rightarrow>
               (case cc_pid creds of
                  Some pid \<Rightarrow> send_reply_to_client E c msg (U32Body pid) mx
                | None \<Rightarrow>
                    send_error_to_client E c msg UNIX_PROCESS_ID_UNKNOWN
                      (''Could not get PID of name '' @ squoted name @ '': not available'') mx)
           | None \<Rightarrow>
               send_error_to_client E c msg NAME_HAS_NO_OWNER
                 (''Could not get PID of name '' @ squoted name @ '': no such name'') mx))"

definition handle_get_connection_credentials ::
    "env \<Rightarrow> client_id \<Rightarrow> message \<Rightarrow> multiplexer \<Rightarrow> multiplexer" where
  "handle_get_connection_credentials E c msg mx =
     (case de_string (e_zbus E) msg of
        Inl e \<Rightarrow> invalid_args E c msg e mx
      | Inr name \<Rightarrow>
          if name = ''org.freedesktop.DBus'' then
            (let creds = hm_insert ''UnixGroupID'' (e_gid E)
                   (hm_insert ''ProcessID'' (e_pid E) (hm_insert ''UnixUserID'' (e_uid E) []))
             in send_reply_to_client E c msg (DictBody creds) mx)
          else (case find_client_credentials mx name of
             Some client_creds \<Rightarrow>
               (let creds0 = hm_insert ''UnixUserID'' (cc_uid client_creds) [];
                    creds1 = (case cc_pid client_creds of
                                Some pid \<Rightarrow> hm_insert ''ProcessID'' pid creds0 | None \<Rightarrow> creds0);
                    creds = hm_insert ''UnixGroupID'' (cc_gid client_creds) creds1
                in send_reply_to_client E c msg (DictBody creds) mx)
           | None \<Rightarrow>
               send_error_to_client E c msg NAME_HAS_NO_OWNER
                 (''Could not get credentials of name '' @ squoted name @ '': no such name'') mx))"

definition handle_list_queued_owners :: "env \<Rightarrow> client_id \<Rightarrow> message \<Rightarrow> multiplexer \<Rightarrow> multiplexer" where
  "handle_list_queued_owners E c msg mx =
     (case de_string (e_zbus E) msg of
        Inl e \<Rightarrow> invalid_args E c msg e mx
      | Inr name \<Rightarrow> send_reply_to_client E c msg (StrsBody (list_queued_owners name (mx_name_queue mx))) mx)"

definition dq :: string where
  "dq = [CHR 0x22]"

text \<open>The introspection document, by lines.\<close>

definition introspect_lines :: "string list" where
  "introspect_lines =
    [''<!DOCTYPE node PUBLIC '' @ dq @ ''-//freedesktop//DTD D-BUS Object Introspection 1.0//EN'' @ dq,
     dq @ ''http://www.freedesktop.org/standards/dbus/1.0/introspect.dtd'' @ dq @ ''>'',
     ''<node>'',
     ''  <interface name='' @ dq @ ''org.freedesktop.DBus'' @ dq @ ''>'',
     ''    <method name='' @ dq @ ''Hello'' @ dq @ ''>'',
     ''      <arg direction='' @ dq @ ''out'' @ dq @ '' type='' @ dq @ ''s'' @ dq @ ''/>'',
     ''    </method>'',
     ''    <method name='' @ dq @ ''RequestName'' @ dq @ ''>'',
     ''      <arg direction='' @ dq @ ''in'' @ dq @ '' type='' @ dq @ ''s'' @ dq @ ''/>'',
     ''      <arg direction='' @ dq @ ''in'' @ dq @ '' type='' @ dq @ ''u'' @ dq @ ''/>'',
     ''      <arg direction='' @ dq @ ''out'' @ dq @ '' type='' @ dq @ ''u'' @ dq @ ''/>'',
     ''    </method>'',
     ''    <method name='' @ dq @ ''ReleaseName'' @ dq @ ''>'',
     ''      <arg direction='' @ dq @ ''in'' @ dq @ '' type='' @ dq @ ''s'' @ dq @ ''/>'',
     ''      <arg direction='' @ dq @ ''out'' @ dq @ '' type='' @ dq @ ''u'' @ dq @ ''/>'',
     ''    </method>'',
     ''    <method name='' @ dq @ ''ListNames'' @ dq @ ''>'',
     ''      <arg direction='' @ dq @ ''out'' @ dq @ '' type='' @ dq @ ''as'' @ dq @ ''/>'',
     ''    </method>'',
     ''    <method name='' @ dq @ ''ListActivatableNames'' @ dq @ ''>'',
     ''      <arg direction='' @ dq @ ''out'' @ dq @ '' type='' @ dq @ ''as'' @ dq @ ''/>'',
     ''    </method>'',
     ''    <method name='' @ dq @ ''GetNameOwner'' @ dq @ ''>'',
     ''      <arg direction='' @ dq @ ''in'' @ dq @ '' type='' @ dq @ ''s'' @ dq @ ''/>'',
     ''      <arg direction='' @ dq @ ''out'' @ dq @ '' type='' @ dq @ ''s'' @ dq @ ''/>'',
     ''    </method>'',
     ''    <method name='' @ dq @ ''NameHasOwner'' @ dq @ ''>'',
     ''      <arg direction='' @ dq @ ''in'' @ dq @ '' type='' @ dq @ ''s'' @ dq @ ''/>'',
     ''      <arg direction='' @ dq @ ''out'' @ dq @ '' type='' @ dq @ ''b'' @ dq @ ''/>'',
     ''    </method>'',
     ''    <method name='' @ dq @ ''GetId'' @ dq @ ''>'',
     ''      <arg direction='' @ dq @ ''out'' @ dq @ '' type='' @ dq @ ''s'' @ dq @ ''/>'',
     ''    </method>'',
     ''    <method name='' @ dq @ ''GetConnectionUnixUser'' @ dq @ ''>'',
     ''      <arg direction='' @ dq @ ''in'' @ dq @ '' type='' @ dq @ ''s'' @ dq @ ''/>'',
     ''      <arg direction='' @ dq @ ''out'' @ dq @ '' type='' @ dq @ ''u'' @ dq @ ''/>'',
     ''    </method>'',
     ''    <method name='' @ dq @ ''GetConnectionCredentials'' @ dq @ ''>'',
     ''      <arg direction='' @ dq @ ''in'' @ dq @ '' type='' @ dq @ ''s'' @ dq @ ''/>'',
     ''      <arg direction='' @ dq @ ''out'' @ dq @ '' type='' @ dq @ ''a{sv}'' @ dq @ ''/>'',
     ''    </method>'',
     ''    <method name='' @ dq @ ''ListQueuedOwners'' @ dq @ ''>'',
     ''      <arg direction='' @ dq @ ''in'' @ dq @ '' type='' @ dq @ ''s'' @ dq @ ''/>'',
     ''      <arg direction='' @ dq @ ''out'' @ dq @ '' type='' @ dq @ ''as'' @ dq @ ''/>'',
     ''    </method>'',
     ''    <method name='' @ dq @ ''AddMatch'' @ dq @ ''>'',
     ''      <arg direction='' @ dq @ ''in'' @ dq @ '' type='' @ dq @ ''s'' @ dq @ ''/>'',
     ''    </method>'',
     ''    <method name='' @ dq @ ''RemoveMatch'' @ dq @ ''>'',
     ''      <arg direction='' @ dq @ ''in'' @ dq @ '' type='' @ dq @ ''s'' @ dq @ ''/>'',
     ''    </method>'',
     ''    <signal name='' @ dq @ ''NameOwnerChanged'' @ dq @ ''>'',
     ''      <arg type='' @ dq @ ''s'' @ dq @ ''/>'',
     ''      <arg type='' @ dq @ ''s'' @ dq @ ''/>'',
     ''      <arg type='' @ dq @ ''s'' @ dq @ ''/>'',
     ''    </signal>'',
     ''    <signal name='' @ dq @ ''NameAcquired'' @ dq @ ''>'',
     ''      <arg type='' @ dq @ ''s'' @ dq @ ''/>'',
     ''    </signal>'',
     ''    <signal name='' @ dq @ ''NameLost'' @ dq @ ''>'',
     ''      <arg type='' @ dq @ ''s'' @ dq @ ''/>'',
     ''    </signal>'',
     ''  </interface>'',
     ''  <interface name='' @ dq @ ''org.freedesktop.DBus.Peer'' @ dq @ ''>'',
     ''    <method name='' @ dq @ ''Ping'' @ dq @ ''/>'',
     ''    <method name='' @ dq @ ''GetMachineId'' @ dq @ ''>'',
     ''      <arg direction='' @ dq @ ''out'' @ dq @ '' type='' @ dq @ ''s'' @ dq @ ''/>'',
     ''    </method>'',
     ''  </interface>'',
     ''  <interface name='' @ dq @ ''org.freedesktop.DBus.Introspectable'' @ dq @ ''>'',
     ''    <method name='' @ dq @ ''Introspect'' @ dq @ ''>'',
     ''      <arg direction='' @ dq @ ''out'' @ dq @ '' type='' @ dq @ ''s'' @ dq @ ''/>'',
     ''    </method>'',
     ''  </interface>'',
     ''</node>'']"

fun join_lines :: "string list \<Rightarrow> string" where
  "join_lines [] = []"
| "join_lines [l] = l"
| "join_lines (l # ls) = l @ [CHR 0x0A] @ join_lines ls"

definition handle_introspect :: "env \<Rightarrow> client_id \<Rightarrow> message \<Rightarrow> multiplexer \<Rightarrow> multiplexer" where
  "handle_introspect E c msg mx = send_reply_to_client E c msg (StrBody (join_lines introspect_lines)) mx"

text \<open>One count of a rule on a bus, and the call that a change of subscription makes.\<close>

definition subscribe_on :: "route \<Rightarrow> string \<Rightarrow> string \<Rightarrow> multiplexer \<Rightarrow> multiplexer" where
  "subscribe_on r bus rule mx =
     (let (first, rc) = increment bus rule (mx_refcount mx);
          mx1 = mx\<lparr>mx_refcount := rc\<rparr>
      in if first then emit [CallBus r (CallAddMatch rule)] mx1 else mx1)"

definition unsubscribe_on :: "route \<Rightarrow> string \<Rightarrow> string \<Rightarrow> multiplexer \<Rightarrow> multiplexer" where
  "unsubscribe_on r bus rule mx =
     (let (last, rc) = decrement bus rule (mx_refcount mx);
          mx1 = mx\<lparr>mx_refcount := rc\<rparr>
      in if last then emit [CallBus r (CallRemoveMatch rule)] mx1 else mx1)"

definition handle_add_match :: "env \<Rightarrow> client_id \<Rightarrow> message \<Rightarrow> multiplexer \<Rightarrow> multiplexer" where
  "handle_add_match E c msg mx =
     (case de_string (e_zbus E) msg of
        Inl e \<Rightarrow> invalid_args E c msg e mx
      | Inr str \<Rightarrow>
     (case parse str of
        Inl e \<Rightarrow>
          send_error_to_client E c msg MATCH_RULE_INVALID
            (''Invalid match rule: '' @ display_match_rule_error e) mx
      | Inr rule \<Rightarrow>
          (let mx1 = upd_client c (\<lambda>info. info\<lparr>ci_match_rules := rules_add rule (ci_match_rules info)\<rparr>) mx;
               mx2 = subscribe_on Container ''container'' str mx1;
               mx3 = subscribe_on Host ''host'' str mx2
           in send_reply_to_client E c msg UnitBody mx3)))"

definition handle_remove_match :: "env \<Rightarrow> client_id \<Rightarrow> message \<Rightarrow> multiplexer \<Rightarrow> multiplexer" where
  "handle_remove_match E c msg mx =
     (case de_string (e_zbus E) msg of
        Inl e \<Rightarrow> invalid_args E c msg e mx
      | Inr str \<Rightarrow>
          (let (removed, mx1) =
                 (case hm_get (mx_clients mx) c of
                    Some info \<Rightarrow>
                      (let (removed, rules) = rules_remove str (ci_match_rules info)
                       in (removed, mx\<lparr>mx_clients := hm_insert c (info\<lparr>ci_match_rules := rules\<rparr>) (mx_clients mx)\<rparr>))
                  | None \<Rightarrow> (False, mx))
           in if \<not> removed then
                send_error_to_client E c msg MATCH_RULE_NOT_FOUND ''Match rule not found'' mx1
              else
                (let mx2 = unsubscribe_on Container ''container'' str mx1;
                     mx3 = unsubscribe_on Host ''host'' str mx2
                 in send_reply_to_client E c msg UnitBody mx3)))"

definition handle_get_all :: "env \<Rightarrow> client_id \<Rightarrow> message \<Rightarrow> multiplexer \<Rightarrow> multiplexer" where
  "handle_get_all E c msg mx = send_reply_to_client E c msg (DictBody []) mx"

text \<open>Forwarding, with the router's effects and errors.\<close>

definition forward :: "env \<Rightarrow> client_id \<Rightarrow> message \<Rightarrow> route \<Rightarrow> multiplexer \<Rightarrow> (error + unit) \<times> multiplexer" where
  "forward E c msg route mx =
     (let (result, effs, r) = forward_method_call E c msg route (mx_router mx)
      in (result, emit effs (mx\<lparr>mx_router := r\<rparr>)))"

definition handle_dbus_method :: "env \<Rightarrow> client_id \<Rightarrow> message \<Rightarrow> multiplexer \<Rightarrow> multiplexer" where
  "handle_dbus_method E c msg mx =
     (let member = (case member_str msg of Some s \<Rightarrow> s | None \<Rightarrow> []) in
      if member = ''Hello'' then handle_hello E c msg mx
      else if member = ''RequestName'' then handle_request_name E c msg mx
      else if member = ''ReleaseName'' then handle_release_name E c msg mx
      else if member = ''ListNames'' then handle_list_names E c msg mx
      else if member = ''ListActivatableNames'' then handle_list_activatable_names E c msg mx
      else if member = ''GetNameOwner'' then handle_get_name_owner E c msg mx
      else if member = ''NameHasOwner'' then handle_name_has_owner E c msg mx
      else if member = ''GetId'' then handle_get_id E c msg mx
      else if member = ''Ping'' then handle_ping E c msg mx
      else if member = ''GetMachineId'' then handle_get_machine_id E c msg mx
      else if member = ''GetConnectionUnixUser'' then handle_get_connection_unix_user E c msg mx
      else if member = ''GetConnectionUnixProcessID'' then handle_get_connection_unix_process_id E c msg mx
      else if member = ''GetConnectionCredentials'' then handle_get_connection_credentials E c msg mx
      else if member = ''ListQueuedOwners'' then handle_list_queued_owners E c msg mx
      else if member = ''AddMatch'' then handle_add_match E c msg mx
      else if member = ''RemoveMatch'' then handle_remove_match E c msg mx
      else if member = ''Introspect'' then handle_introspect E c msg mx
      else if member = ''GetAll'' then handle_get_all E c msg mx
      else
        (case forward E c msg Container mx of
           (Inr _, mx1) \<Rightarrow> mx1
         | (Inl e, mx1) \<Rightarrow> send_error_to_client E c msg UNKNOWN_METHOD (''Unknown method: '' @ member) mx1))"

definition handle_client_message :: "env \<Rightarrow> client_id \<Rightarrow> message \<Rightarrow> multiplexer \<Rightarrow> multiplexer" where
  "handle_client_message E c msg mx =
     (if is_dbus_daemon_call msg \<and> is_method_call msg then handle_dbus_method E c msg mx
      else
        (let destination = (case destination_str msg of Some d \<Rightarrow> d | None \<Rightarrow> []);
             route = router_route_for (mx_router mx) destination
         in if is_method_call msg then
              (case forward E c msg route mx of
                 (Inr _, mx1) \<Rightarrow> mx1
               | (Inl e, mx1) \<Rightarrow>
                   send_error_to_client E c msg FAILED (''Failed to forward: '' @ display_error e) mx1)
            else mx))"

section \<open>Messages from the buses\<close>

definition handle_bus_reply :: "env \<Rightarrow> message \<Rightarrow> route \<Rightarrow> multiplexer \<Rightarrow> multiplexer" where
  "handle_bus_reply E msg route mx =
     (let (result, r) = handle_reply msg route (mx_router mx);
          mx1 = mx\<lparr>mx_router := r\<rparr>
      in case result of
           Inr (Some (c, client_serial)) \<Rightarrow>
             (let mx2 =
                    (if \<not> is_error msg then
                       (case extract_request_handle (e_zbus E) msg of
                          Some request_path \<Rightarrow>
                            mx1\<lparr>mx_portal_requests :=
                                  tracker_register (e_now E) request_path c (mx_portal_requests mx1)\<rparr>
                        | None \<Rightarrow> mx1)
                     else mx1);
                  reply_msg = (case clone_reply_with_serial (e_zbus E) msg client_serial of Inr m \<Rightarrow> m | Inl _ \<Rightarrow> msg)
              in case hm_get (mx_clients mx2) c of
                   Some info \<Rightarrow> emit [SendClient c reply_msg] mx2
                 | None \<Rightarrow> mx2)
         | _ \<Rightarrow> mx1)"

definition is_unicast_to_mux :: "message \<Rightarrow> route \<Rightarrow> multiplexer \<Rightarrow> bool" where
  "is_unicast_to_mux msg route mx =
     (case destination_str msg of
        Some dest \<Rightarrow>
          (case bus_unique_name (connection_for (mx_router mx) route) of Some n \<Rightarrow> n = dest | None \<Rightarrow> False)
      | None \<Rightarrow> False)"

definition deliver_signal :: "env \<Rightarrow> message \<Rightarrow> route \<Rightarrow> multiplexer \<Rightarrow> multiplexer" where
  "deliver_signal E msg route mx =
     (let unicast = is_unicast_to_mux msg route mx;
          should_forward = (\<lambda>info.
            if unicast then rules_match_ignoring_destination (e_zbus E) (ci_match_rules info) msg
            else rules_match (e_zbus E) (ci_match_rules info) msg)
      in emit (map (\<lambda>(c, info). SendClient c msg) (filter (\<lambda>(c, info). should_forward info) (mx_clients mx))) mx)"

definition handle_bus_signal :: "env \<Rightarrow> message \<Rightarrow> route \<Rightarrow> multiplexer \<Rightarrow> multiplexer" where
  "handle_bus_signal E msg route mx =
     (if is_portal_response_signal msg then
        (case path_str msg of
           Some path \<Rightarrow>
             (let (owner, t) = lookup_and_remove path (mx_portal_requests mx);
                  mx1 = mx\<lparr>mx_portal_requests := t\<rparr>
              in case owner of
                   Some c \<Rightarrow>
                     (case hm_get (mx_clients mx1) c of
                        Some info \<Rightarrow>
                          (let mux_unique_name =
                                 (case bus_unique_name (host_conn (mx_router mx1)) of Some n \<Rightarrow> n | None \<Rightarrow> []);
                               rewritten_msg =
                                 (case clone_portal_response_signal (e_zbus E) msg mux_unique_name
                                         (ci_unique_name info) of
                                    Inr m \<Rightarrow> m | Inl _ \<Rightarrow> msg)
                           in emit [SendClient c rewritten_msg] mx1)
                      | None \<Rightarrow> mx1)
                 | None \<Rightarrow> deliver_signal E msg route mx1)
         | None \<Rightarrow> deliver_signal E msg route mx)
      else deliver_signal E msg route mx)"

definition handle_bus_message :: "env \<Rightarrow> message \<Rightarrow> route \<Rightarrow> multiplexer \<Rightarrow> multiplexer" where
  "handle_bus_message E msg route mx =
     (if is_name_owner_changed msg then
        (case parse_name_owner_changed (e_zbus E) msg of
           Inr (name, old_owner, new_owner) \<Rightarrow>
             (case route of
                Container \<Rightarrow> upd_table (on_container_name_change name old_owner new_owner) mx
              | Host \<Rightarrow> upd_table (on_host_name_change name old_owner new_owner) mx)
         | Inl _ \<Rightarrow> mx)
      else
        (let mx1 = (if is_method_return msg \<or> is_error msg then handle_bus_reply E msg route mx else mx)
         in if is_signal msg then handle_bus_signal E msg route mx1 else mx1))"

section \<open>Clients that come and go\<close>

text \<open>The registration of an accepted client.\<close>

definition register_client :: "client_id \<Rightarrow> string \<Rightarrow> client_credentials \<Rightarrow> multiplexer \<Rightarrow> multiplexer" where
  "register_client c unique_name creds mx =
     mx\<lparr>mx_clients := hm_insert c \<lparr>ci_unique_name = unique_name, ci_owned_names = [],
           ci_match_rules = client_match_rules_new, ci_credentials = creds\<rparr> (mx_clients mx)\<rparr>"

text \<open>
  The clean-up of a client whose handler ended, in its steps: take it out of the client map,
  drop its references to match rules, its portal requests and its places in the name queues,
  then for each name it owned transfer or release it, and at last release what \<open>owned_names\<close>
  still holds.
\<close>

definition unregister_client :: "client_id \<Rightarrow> multiplexer \<Rightarrow> (string list \<times> string list) \<times> multiplexer" where
  "unregister_client c mx =
     (case hm_get (mx_clients mx) c of
        Some info \<Rightarrow>
          ((ci_owned_names info, rule_strings (ci_match_rules info)),
           mx\<lparr>mx_clients := hm_remove c (mx_clients mx)\<rparr>)
      | None \<Rightarrow> (([], []), mx))"

definition release_rule :: "string \<Rightarrow> multiplexer \<Rightarrow> multiplexer" where
  "release_rule rule mx = unsubscribe_on Host ''host'' rule (unsubscribe_on Container ''container'' rule mx)"

definition release_rules :: "string list \<Rightarrow> multiplexer \<Rightarrow> multiplexer" where
  "release_rules rules mx = fold release_rule rules mx"

definition drop_portal_requests :: "client_id \<Rightarrow> multiplexer \<Rightarrow> multiplexer" where
  "drop_portal_requests c mx =
     mx\<lparr>mx_portal_requests := snd (tracker_remove_client c (mx_portal_requests mx))\<rparr>"

definition leave_queues ::
    "client_id \<Rightarrow> multiplexer \<Rightarrow> (string \<times> (client_id \<times> string) option) list \<times> multiplexer" where
  "leave_queues c mx =
     (let (results, q) = remove_client c (mx_name_queue mx) in (results, mx\<lparr>mx_name_queue := q\<rparr>))"

definition hand_over ::
    "string \<Rightarrow> string \<times> (client_id \<times> string) option \<Rightarrow> multiplexer \<Rightarrow> multiplexer" where
  "hand_over unique_name result mx =
     (case result of
        (name, Some (new_owner_id, new_owner_name)) \<Rightarrow>
          upd_client new_owner_id (own name)
            (upd_table (on_container_name_change name unique_name new_owner_name) mx)
      | (name, None) \<Rightarrow>
          emit [CallBus Container (CallReleaseName name)]
            (upd_table (on_container_name_change name unique_name []) mx))"

definition release_owned :: "string \<Rightarrow> string \<Rightarrow> multiplexer \<Rightarrow> multiplexer" where
  "release_owned unique_name name mx =
     (if name_has_owner name (mx_name_queue mx) then mx
      else
        emit [CallBus Container (CallReleaseName name)]
          (upd_table (on_container_name_change name unique_name []) mx))"

definition disconnect_client :: "client_id \<Rightarrow> string \<Rightarrow> multiplexer \<Rightarrow> multiplexer" where
  "disconnect_client c unique_name mx =
     (let ((owned_names, match_rules), mx1) = unregister_client c mx;
          mx2 = release_rules match_rules mx1;
          mx3 = drop_portal_requests c mx2;
          (queue_results, mx4) = leave_queues c mx3;
          mx5 = fold (hand_over unique_name) queue_results mx4
      in fold (release_owned unique_name) owned_names mx5)"

section \<open>The main loop\<close>

definition periodic_cleanup :: "env \<Rightarrow> multiplexer \<Rightarrow> multiplexer" where
  "periodic_cleanup E mx =
     (let (count, r) = router_cleanup_expired E (mx_router mx);
          (portal_count, t) = tracker_cleanup_expired (e_now E) (mx_portal_requests mx)
      in mx\<lparr>mx_router := r, mx_portal_requests := t\<rparr>)"

datatype event =
    BusItem route "(zbus_error + message) option"
  | ClientMessage client_id message
  | Tick

text \<open>One turn of the loop; an error ends it.\<close>

fun run_step :: "env \<Rightarrow> event \<Rightarrow> multiplexer \<Rightarrow> error + multiplexer" where
  "run_step E (BusItem route item) mx =
     (case bus_recv item of
        Inr (Some msg) \<Rightarrow> Inr (handle_bus_message E msg route mx)
      | Inr None \<Rightarrow>
          Inl (ConnectionClosed (case route of Container \<Rightarrow> ''container bus'' | Host \<Rightarrow> ''host bus''))
      | Inl e \<Rightarrow> Inl e)"
| "run_step E (ClientMessage c msg) mx = Inr (handle_client_message E c msg mx)"
| "run_step E Tick mx = Inr (periodic_cleanup E mx)"

end
