(* ===== verification/Mux_Frames.thy ===== *)
theory Mux_Frames
  imports Multiplexer
begin

text \<open>
  What each handler of the multiplexer leaves alone, and the well-formedness of the whole state.
  \<open>quiet\<close> relates two states that differ in their effects at most, and not in the subscription
  calls among them: most methods of the bus daemon only answer.
\<close>

section \<open>Fields after the basic updates\<close>

lemma emit_fields [simp]:
  "mx_router (emit effs mx) = mx_router mx" "mx_clients (emit effs mx) = mx_clients mx"
  "mx_guid (emit effs mx) = mx_guid mx" "mx_refcount (emit effs mx) = mx_refcount mx"
  "mx_name_queue (emit effs mx) = mx_name_queue mx"
  "mx_portal_requests (emit effs mx) = mx_portal_requests mx"
  "mx_effects (emit effs mx) = mx_effects mx @ effs"
  by (simp_all add: emit_def)

lemma upd_table_fields [simp]:
  "mx_table (upd_table f mx) = f (mx_table mx)" "mx_clients (upd_table f mx) = mx_clients mx"
  "rt_serial_map (mx_router (upd_table f mx)) = rt_serial_map (mx_router mx)"
  "container_conn (mx_router (upd_table f mx)) = container_conn (mx_router mx)"
  "host_conn (mx_router (upd_table f mx)) = host_conn (mx_router mx)"
  "mx_guid (upd_table f mx) = mx_guid mx" "mx_refcount (upd_table f mx) = mx_refcount mx"
  "mx_name_queue (upd_table f mx) = mx_name_queue mx"
  "mx_portal_requests (upd_table f mx) = mx_portal_requests mx"
  "mx_effects (upd_table f mx) = mx_effects mx"
  by (simp_all add: upd_table_def mx_table_def)

lemma upd_client_fields [simp]:
  "mx_router (upd_client c f mx) = mx_router mx" "mx_guid (upd_client c f mx) = mx_guid mx"
  "mx_refcount (upd_client c f mx) = mx_refcount mx" "mx_name_queue (upd_client c f mx) = mx_name_queue mx"
  "mx_portal_requests (upd_client c f mx) = mx_portal_requests mx"
  "mx_effects (upd_client c f mx) = mx_effects mx"
  by (simp_all add: upd_client_def split: option.splits)

lemma upd_client_get [simp]:
  "hm_get (mx_clients (upd_client c f mx)) d =
     (if d = c then map_option f (hm_get (mx_clients mx) c) else hm_get (mx_clients mx) d)"
  by (auto simp: upd_client_def split: option.splits)

lemma mx_table_simps [simp]:
  "mx_table (emit effs mx) = mx_table mx" "mx_table (upd_client c f mx) = mx_table mx"
  "mx_table (mx\<lparr>mx_name_queue := q\<rparr>) = mx_table mx" "mx_table (mx\<lparr>mx_refcount := rc\<rparr>) = mx_table mx"
  "mx_table (mx\<lparr>mx_clients := cs\<rparr>) = mx_table mx" "mx_table (mx\<lparr>mx_portal_requests := p\<rparr>) = mx_table mx"
  "mx_table (mx\<lparr>mx_effects := es\<rparr>) = mx_table mx"
  by (simp_all add: mx_table_def)

section \<open>Answers\<close>

fun is_match_call :: "effect \<Rightarrow> bool" where
  "is_match_call (CallBus r (CallAddMatch rule)) = True"
| "is_match_call (CallBus r (CallRemoveMatch rule)) = True"
| "is_match_call _ = False"

definition quiet :: "multiplexer \<Rightarrow> multiplexer \<Rightarrow> bool" where
  "quiet mx mx' = (\<exists>effs. list_all (\<lambda>e. \<not> is_match_call e) effs \<and> mx' = emit effs mx)"

lemma emit_Nil [simp]: "emit [] mx = mx"
  by (simp add: emit_def)

lemma emit_emit [simp]: "emit b (emit a mx) = emit (a @ b) mx"
  by (simp add: emit_def)

lemma quiet_refl [simp, intro]: "quiet mx mx"
  unfolding quiet_def by (rule exI[of _ "[]"]) simp

lemma quiet_emit [simp, intro]: "list_all (\<lambda>e. \<not> is_match_call e) effs \<Longrightarrow> quiet mx (emit effs mx)"
  by (auto simp: quiet_def)

text \<open>The message a reply or an error to a client is, if the client is there and it can be built.\<close>

definition reply_effects :: "env \<Rightarrow> client_id \<Rightarrow> message \<Rightarrow> body_value \<Rightarrow> multiplexer \<Rightarrow> effect list" where
  "reply_effects E c msg body mx =
     (case hm_get (mx_clients mx) c of None \<Rightarrow> []
      | Some info \<Rightarrow>
          (case mrb_build (e_zbus E) (mrb_set_destination (ci_unique_name info) (method_return_builder_new msg)) body of
             Inr m \<Rightarrow> [SendClient c m] | Inl _ \<Rightarrow> []))"

definition error_effects :: "env \<Rightarrow> client_id \<Rightarrow> message \<Rightarrow> string \<Rightarrow> string \<Rightarrow> multiplexer \<Rightarrow> effect list" where
  "error_effects E c msg name text mx =
     (case hm_get (mx_clients mx) c of None \<Rightarrow> []
      | Some info \<Rightarrow>
          (case eb_build (e_zbus E) (eb_set_destination (ci_unique_name info) (error_builder_new msg name)) text of
             Inr m \<Rightarrow> [SendClient c m] | Inl _ \<Rightarrow> []))"

lemma answers_not_match [simp]:
  "list_all (\<lambda>e. \<not> is_match_call e) (reply_effects E c msg body mx)"
  "list_all (\<lambda>e. \<not> is_match_call e) (error_effects E c msg name text mx)"
  by (auto simp: reply_effects_def error_effects_def split: option.splits sum.splits)

lemma send_reply_emit: "send_reply_to_client E c msg body mx = emit (reply_effects E c msg body mx) mx"
  by (auto simp: send_reply_to_client_def reply_effects_def split: option.splits sum.splits)

lemma send_error_emit: "send_error_to_client E c msg name text mx = emit (error_effects E c msg name text mx) mx"
  by (auto simp: send_error_to_client_def error_effects_def split: option.splits sum.splits)

lemma invalid_args_emit:
  "invalid_args E c msg e mx = emit (error_effects E c msg INVALID_ARGS (''Invalid arguments: '' @ e) mx) mx"
  by (simp add: invalid_args_def send_error_emit)

lemma hello_emit:
  "handle_hello E c msg mx =
     emit (case hm_get (mx_clients mx) c of None \<Rightarrow> []
           | Some info \<Rightarrow> reply_effects E c msg (StrBody (ci_unique_name info)) mx) mx"
  by (auto simp: handle_hello_def reply_effects_def split: option.splits sum.splits)

lemmas send_emit = send_reply_emit send_error_emit invalid_args_emit hello_emit

text \<open>The methods that only answer.\<close>

lemmas answer_defs =
  handle_list_names_def handle_list_activatable_names_def handle_get_name_owner_def
  handle_name_has_owner_def handle_get_id_def handle_ping_def handle_get_machine_id_def
  handle_get_connection_unix_user_def handle_get_connection_unix_process_id_def
  handle_get_connection_credentials_def handle_list_queued_owners_def handle_introspect_def
  handle_get_all_def

lemma quiet_answers:
  "quiet mx (handle_hello E c msg mx)" "quiet mx (handle_list_names E c msg mx)"
  "quiet mx (handle_list_activatable_names E c msg mx)" "quiet mx (handle_get_name_owner E c msg mx)"
  "quiet mx (handle_name_has_owner E c msg mx)" "quiet mx (handle_get_id E c msg mx)"
  "quiet mx (handle_ping E c msg mx)" "quiet mx (handle_get_machine_id E c msg mx)"
  "quiet mx (handle_get_connection_unix_user E c msg mx)"
  "quiet mx (handle_get_connection_unix_process_id E c msg mx)"
  "quiet mx (handle_get_connection_credentials E c msg mx)"
  "quiet mx (handle_list_queued_owners E c msg mx)" "quiet mx (handle_introspect E c msg mx)"
  "quiet mx (handle_get_all E c msg mx)"
  by (auto simp: answer_defs send_emit list_activatable_names_def get_name_owner_def call_and_read_def Let_def
      split: sum.splits option.splits prod.splits)

lemma quiet_fields:
  assumes "quiet mx mx'"
  shows "mx_router mx' = mx_router mx" "mx_clients mx' = mx_clients mx" "mx_guid mx' = mx_guid mx"
    "mx_refcount mx' = mx_refcount mx" "mx_name_queue mx' = mx_name_queue mx"
    "mx_portal_requests mx' = mx_portal_requests mx"
  using assms by (auto simp: quiet_def)

text \<open>
  A handled client message is an answer, one of the four methods that change the state, a
  forwarded call, or nothing.
\<close>

inductive client_outcome :: "env \<Rightarrow> client_id \<Rightarrow> message \<Rightarrow> multiplexer \<Rightarrow> multiplexer \<Rightarrow> bool"
  for E c msg mx where
  Quiet: "quiet mx mx' \<Longrightarrow> client_outcome E c msg mx mx'"
| Request: "client_outcome E c msg mx (handle_request_name E c msg mx)"
| Release: "client_outcome E c msg mx (handle_release_name E c msg mx)"
| Add: "client_outcome E c msg mx (handle_add_match E c msg mx)"
| Remove: "client_outcome E c msg mx (handle_remove_match E c msg mx)"
| Forward: "quiet (snd (forward E c msg route mx)) mx' \<Longrightarrow> client_outcome E c msg mx mx'"

lemma outcome_if:
  "client_outcome E c msg mx a \<Longrightarrow> client_outcome E c msg mx b \<Longrightarrow> client_outcome E c msg mx (if P then a else b)"
  by simp

lemmas outcome_answers = quiet_answers[THEN client_outcome.Quiet]

lemma dbus_method_outcome: "client_outcome E c msg mx (handle_dbus_method E c msg mx)"
proof -
  have fwd: "client_outcome E c msg mx (case forward E c msg Container mx of
      (Inr _, mx1) \<Rightarrow> mx1 | (Inl e, mx1) \<Rightarrow> send_error_to_client E c msg n t mx1)" for n t
    by (cases "forward E c msg Container mx")
       (auto simp: send_emit intro!: client_outcome.Forward[where route = Container] split: sum.splits)
  show ?thesis
    unfolding handle_dbus_method_def Let_def
    by (intro outcome_if outcome_answers fwd client_outcome.Request client_outcome.Release
        client_outcome.Add client_outcome.Remove)
qed

lemma client_message_outcome: "client_outcome E c msg mx (handle_client_message E c msg mx)"
proof (cases "is_dbus_daemon_call msg \<and> is_method_call msg")
  case True
  then show ?thesis by (simp add: handle_client_message_def dbus_method_outcome)
next
  case False
  let ?r = "router_route_for (mx_router mx) (case destination_str msg of Some d \<Rightarrow> d | None \<Rightarrow> [])"
  show ?thesis
  proof (cases "is_method_call msg")
    case True
    with False show ?thesis
      by (cases "forward E c msg ?r mx")
         (auto simp: handle_client_message_def send_emit intro!: client_outcome.Forward[where route = ?r] split: sum.splits)
  next
    case nc: False
    then show ?thesis by (simp add: handle_client_message_def client_outcome.Quiet)
  qed
qed

end
