(* ===== verification/Mux_System.thy ===== *)
theory Mux_System
  imports Mux_Frames
begin

text \<open>
  The running system: the main loop, which handles one event at a time, and beside it the
  clean-up tasks of clients that disconnected. \<open>sys_step\<close> interleaves them: between two steps of
  a clean-up any number of events may be handled. A handler of the loop is one step, and so is
  each section of a clean-up that runs under one lock.
\<close>

section \<open>Clean-up tasks\<close>

type_synonym queue_results = "(string \<times> (client_id \<times> string) option) list"

datatype cleanup =
    ReleaseRules (task_client: client_id) string "string list" "string list"
  | DropPortal (task_client: client_id) string "string list"
  | LeaveQueues (task_client: client_id) string "string list"
  | HandOver (task_client: client_id) string queue_results "string list"
  | ReleaseOwned (task_client: client_id) string "string list"

fun cleanup_step :: "cleanup \<Rightarrow> multiplexer \<Rightarrow> cleanup option \<times> multiplexer" where
  "cleanup_step (ReleaseRules c u rules owned) mx = (Some (DropPortal c u owned), release_rules rules mx)"
| "cleanup_step (DropPortal c u owned) mx = (Some (LeaveQueues c u owned), drop_portal_requests c mx)"
| "cleanup_step (LeaveQueues c u owned) mx =
     (let (results, mx') = leave_queues c mx in (Some (HandOver c u results owned), mx'))"
| "cleanup_step (HandOver c u [] owned) mx = (Some (ReleaseOwned c u owned), mx)"
| "cleanup_step (HandOver c u (r # rs) owned) mx = (Some (HandOver c u rs owned), hand_over u r mx)"
| "cleanup_step (ReleaseOwned c u []) mx = (None, mx)"
| "cleanup_step (ReleaseOwned c u (n # ns)) mx = (Some (ReleaseOwned c u ns), release_owned u n mx)"

fun cleanup_rank :: "cleanup \<Rightarrow> nat \<times> nat" where
  "cleanup_rank (ReleaseRules _ _ _ _) = (4, 0)"
| "cleanup_rank (DropPortal _ _ _) = (3, 0)"
| "cleanup_rank (LeaveQueues _ _ _) = (2, 0)"
| "cleanup_rank (HandOver _ _ rs _) = (1, length rs)"
| "cleanup_rank (ReleaseOwned _ _ ns) = (0, length ns)"

lemma cleanup_rank_decreases:
  "cleanup_step t mx = (Some t', mx') \<Longrightarrow> (cleanup_rank t', cleanup_rank t) \<in> less_than <*lex*> less_than"
  by (cases "(t, mx)" rule: cleanup_step.cases) (auto simp: case_prod_unfold Let_def)

text \<open>A clean-up that nothing interrupts.\<close>

function run_cleanup :: "cleanup \<Rightarrow> multiplexer \<Rightarrow> multiplexer" where
  "run_cleanup t mx = (case cleanup_step t mx of (None, mx') \<Rightarrow> mx' | (Some t', mx') \<Rightarrow> run_cleanup t' mx')"
  by pat_completeness auto
termination
  by (relation "inv_image (less_than <*lex*> less_than) (\<lambda>(t, mx). cleanup_rank t)")
     (auto dest!: cleanup_rank_decreases[OF sym])

declare run_cleanup.simps [simp del]

lemma run_hand_over:
  "run_cleanup (HandOver c u rs owned) mx = run_cleanup (ReleaseOwned c u owned) (fold (hand_over u) rs mx)"
  by (induction rs arbitrary: mx) (simp_all add: run_cleanup.simps[of "HandOver _ _ _ _"])

lemma run_release_owned: "run_cleanup (ReleaseOwned c u ns) mx = fold (release_owned u) ns mx"
  by (induction ns arbitrary: mx) (simp_all add: run_cleanup.simps[of "ReleaseOwned _ _ _"])

section \<open>The system\<close>

record system =
  sys_mux :: multiplexer
  sys_tasks :: "cleanup list"
  sys_next :: client_id

definition mux_name :: "client_id \<Rightarrow> string" where
  "mux_name c = '':mux.'' @ show_nat (unat c)"

inductive sys_step :: "system \<Rightarrow> system \<Rightarrow> bool" where
  Connect: "unat (sys_next s) + 1 < 2 ^ 64 \<Longrightarrow>
     sys_step s (s\<lparr>sys_mux := register_client (sys_next s) (mux_name (sys_next s)) creds (sys_mux s),
                   sys_next := sys_next s + 1\<rparr>)"
| Refuse: "unat (sys_next s) + 1 < 2 ^ 64 \<Longrightarrow> sys_step s (s\<lparr>sys_next := sys_next s + 1\<rparr>)"
| Loop: "run_step E ev (sys_mux s) = Inr mx' \<Longrightarrow> sys_step s (s\<lparr>sys_mux := mx'\<rparr>)"
| Disconnect: "hm_get (mx_clients (sys_mux s)) c = Some info \<Longrightarrow>
     unregister_client c (sys_mux s) = ((owned, rules), mx') \<Longrightarrow>
     sys_step s (s\<lparr>sys_mux := mx', sys_tasks := ReleaseRules c (ci_unique_name info) rules owned # sys_tasks s\<rparr>)"
| Clean: "sys_tasks s = ts1 @ t # ts2 \<Longrightarrow> cleanup_step t (sys_mux s) = (t', mx') \<Longrightarrow>
     sys_step s (s\<lparr>sys_mux := mx', sys_tasks := ts1 @ (case t' of Some x \<Rightarrow> [x] | None \<Rightarrow> []) @ ts2\<rparr>)"

inductive_cases sys_stepE: "sys_step s s'"

definition sys_init :: "multiplexer \<Rightarrow> system" where
  "sys_init mx = \<lparr>sys_mux = mx, sys_tasks = [], sys_next = 1\<rparr>"

inductive reachable :: "system \<Rightarrow> bool" where
  Start: "multiplexer_new E build session guid cbus hbus = Inr mx \<Longrightarrow> reachable (sys_init mx)"
| Step: "reachable s \<Longrightarrow> sys_step s s' \<Longrightarrow> reachable s'"

section \<open>Well-formedness\<close>

definition clients_wf :: "(client_id, client_info) hmap \<Rightarrow> bool" where
  "clients_wf cs = (hm_wf cs \<and> (\<forall>c info. hm_get cs c = Some info \<longrightarrow> client_rules_wf (ci_match_rules info)))"

definition mux_wf :: "multiplexer \<Rightarrow> bool" where
  "mux_wf mx = (clients_wf (mx_clients mx) \<and> table_wf (mx_table mx) \<and> sm_wf (rt_serial_map (mx_router mx))
     \<and> ref_counts_wf (mx_refcount mx) \<and> pt_wf (mx_portal_requests mx) \<and> manager_wf (mx_name_queue mx))"

lemma clients_wf_Nil [simp]: "clients_wf []"
  by (simp add: clients_wf_def)

lemma clients_wf_insert [intro]:
  "clients_wf cs \<Longrightarrow> client_rules_wf (ci_match_rules info) \<Longrightarrow> clients_wf (hm_insert c info cs)"
  by (auto simp: clients_wf_def)

lemma clients_wf_remove [intro]: "clients_wf cs \<Longrightarrow> clients_wf (hm_remove c cs)"
  by (auto simp: clients_wf_def split: if_splits)

lemma clients_wf_get: "clients_wf cs \<Longrightarrow> hm_get cs c = Some info \<Longrightarrow> client_rules_wf (ci_match_rules info)"
  by (auto simp: clients_wf_def)

lemma clients_wf_upd:
  "clients_wf (mx_clients mx) \<Longrightarrow>
   (\<And>info. client_rules_wf (ci_match_rules info) \<Longrightarrow> client_rules_wf (ci_match_rules (f info))) \<Longrightarrow>
     clients_wf (mx_clients (upd_client c f mx))"
  by (auto simp: upd_client_def dest: clients_wf_get split: option.splits)

lemma own_rules [simp]:
  "ci_match_rules (own n info) = ci_match_rules info" "ci_match_rules (disown n info) = ci_match_rules info"
  "ci_unique_name (own n info) = ci_unique_name info" "ci_unique_name (disown n info) = ci_unique_name info"
  by (simp_all add: own_def disown_def)

lemma subscribe_fields [simp]:
  "mx_router (subscribe_on r bus rule mx) = mx_router mx" "mx_clients (subscribe_on r bus rule mx) = mx_clients mx"
  "mx_name_queue (subscribe_on r bus rule mx) = mx_name_queue mx"
  "mx_portal_requests (subscribe_on r bus rule mx) = mx_portal_requests mx"
  "mx_refcount (subscribe_on r bus rule mx) = snd (increment bus rule (mx_refcount mx))"
  "mx_router (unsubscribe_on r bus rule mx) = mx_router mx" "mx_clients (unsubscribe_on r bus rule mx) = mx_clients mx"
  "mx_name_queue (unsubscribe_on r bus rule mx) = mx_name_queue mx"
  "mx_portal_requests (unsubscribe_on r bus rule mx) = mx_portal_requests mx"
  "mx_refcount (unsubscribe_on r bus rule mx) = snd (decrement bus rule (mx_refcount mx))"
  by (simp_all add: subscribe_on_def unsubscribe_on_def case_prod_unfold Let_def)

section \<open>Handlers that concern names only\<close>

text \<open>What of a client the name handlers never change.\<close>

definition client_view :: "(client_id, client_info) hmap \<Rightarrow> client_id \<Rightarrow> (string \<times> client_match_rules) option" where
  "client_view cs c = map_option (\<lambda>i. (ci_unique_name i, ci_match_rules i)) (hm_get cs c)"

definition match_calls :: "multiplexer \<Rightarrow> effect list" where
  "match_calls mx = filter is_match_call (mx_effects mx)"

definition names_only :: "multiplexer \<Rightarrow> multiplexer \<Rightarrow> bool" where
  "names_only mx mx' \<longleftrightarrow>
     client_view (mx_clients mx') = client_view (mx_clients mx)
     \<and> (hm_wf (mx_clients mx) \<longrightarrow> hm_wf (mx_clients mx'))
     \<and> (table_wf (mx_table mx) \<longrightarrow> table_wf (mx_table mx'))
     \<and> (manager_wf (mx_name_queue mx) \<longrightarrow> manager_wf (mx_name_queue mx'))
     \<and> rt_serial_map (mx_router mx') = rt_serial_map (mx_router mx)
     \<and> mx_refcount mx' = mx_refcount mx \<and> mx_portal_requests mx' = mx_portal_requests mx
     \<and> match_calls mx' = match_calls mx"

lemma names_only_refl [simp, intro]: "names_only mx mx"
  by (simp add: names_only_def)

lemma names_only_trans [trans]: "names_only a b \<Longrightarrow> names_only b c \<Longrightarrow> names_only a c"
  by (simp add: names_only_def)

lemma names_only_emit [intro]: "list_all (\<lambda>e. \<not> is_match_call e) effs \<Longrightarrow> names_only mx (emit effs mx)"
  by (auto simp: names_only_def match_calls_def list_all_iff filter_empty_conv)

lemma names_only_table:
  "(\<And>t. table_wf t \<Longrightarrow> table_wf (f t)) \<Longrightarrow> names_only mx (upd_table f mx)"
  by (simp add: names_only_def match_calls_def)

lemma names_only_client:
  assumes "\<And>i. ci_unique_name (f i) = ci_unique_name i" "\<And>i. ci_match_rules (f i) = ci_match_rules i"
  shows "names_only mx (upd_client c f mx)"
proof -
  have "hm_wf (mx_clients mx) \<Longrightarrow> hm_wf (mx_clients (upd_client c f mx))"
    by (auto simp: upd_client_def split: option.splits)
  then show ?thesis
    using assms by (auto simp: names_only_def match_calls_def client_view_def fun_eq_iff option.map_comp comp_def)
qed

lemma names_only_queue:
  "(manager_wf (mx_name_queue mx) \<Longrightarrow> manager_wf q) \<Longrightarrow> names_only mx (mx\<lparr>mx_name_queue := q\<rparr>)"
  by (simp add: names_only_def match_calls_def)

lemma names_only_send [intro]:
  "names_only mx mx' \<Longrightarrow> names_only mx (send_reply_to_client E c msg body mx')"
  "names_only mx mx' \<Longrightarrow> names_only mx (send_error_to_client E c msg name text mx')"
  "names_only mx mx' \<Longrightarrow> names_only mx (invalid_args E c msg e mx')"
  by (simp_all only: send_emit) (erule names_only_trans, rule names_only_emit, simp)+

lemma names_only_steps:
  "names_only mx mx' \<Longrightarrow> names_only mx (upd_table (on_container_name_change n a b) mx')"
  "names_only mx mx' \<Longrightarrow> names_only mx (upd_table (on_host_name_change n a b) mx')"
  "names_only mx mx' \<Longrightarrow> names_only mx (upd_client c (own n) mx')"
  "names_only mx mx' \<Longrightarrow> names_only mx (upd_client c (disown n) mx')"
  "names_only mx mx' \<Longrightarrow> names_only mx (emit [CallBus r (CallRequestName n fl)] mx')"
  "names_only mx mx' \<Longrightarrow> names_only mx (emit [CallBus r (CallReleaseName n)] mx')"
  "names_only mx mx' \<Longrightarrow> (manager_wf (mx_name_queue mx') \<Longrightarrow> manager_wf q) \<Longrightarrow> names_only mx (mx'\<lparr>mx_name_queue := q\<rparr>)"
  by (auto elim!: names_only_trans intro!: names_only_table names_only_client names_only_queue
      inv_intros names_only_emit)

lemma names_only_request: "names_only mx (handle_request_name E c msg mx)"
  unfolding handle_request_name_def case_prod_unfold Let_def
  by (auto intro!: names_only_send names_only_steps intro: manager_wf_ops split: sum.splits option.splits)

lemma names_only_release: "names_only mx (handle_release_name E c msg mx)"
  unfolding handle_release_name_def case_prod_unfold Let_def
  by (auto intro!: names_only_send names_only_steps intro: manager_wf_ops split: sum.splits option.splits)

lemma names_only_cleanup:
  "names_only mx (snd (leave_queues c mx))" "names_only mx (hand_over u r mx)"
  "names_only mx (release_owned u n mx)"
  by (auto simp: leave_queues_def hand_over_def release_owned_def case_prod_unfold Let_def
      intro!: names_only_steps inv_intros split: option.splits)

section \<open>Well-formedness is kept\<close>

lemma clients_wf_view:
  "clients_wf cs \<longleftrightarrow> hm_wf cs \<and> (\<forall>c u rules. client_view cs c = Some (u, rules) \<longrightarrow> client_rules_wf rules)"
  by (auto simp: clients_wf_def client_view_def)

lemma mux_wf_names_only: "names_only mx mx' \<Longrightarrow> mux_wf mx \<Longrightarrow> mux_wf mx'"
  by (auto simp: names_only_def mux_wf_def clients_wf_view)

lemma names_only_quiet: "quiet mx mx' \<Longrightarrow> names_only mx mx'"
  by (auto simp: quiet_def)

lemma mux_wf_quiet: "quiet mx mx' \<Longrightarrow> mux_wf mx' = mux_wf mx"
  by (auto simp: quiet_def mux_wf_def)

lemma mux_wf_emit [simp]: "mux_wf (emit effs mx) = mux_wf mx"
  by (simp add: mux_wf_def)

lemma sm_wf_ops [inv_intros]:
  "sm_wf m \<Longrightarrow> sm_wf (serial_map_insert now r s c cs m)" "sm_wf m \<Longrightarrow> sm_wf (snd (serial_map_remove r s m))"
  "sm_wf m \<Longrightarrow> sm_wf (snd (serial_map_cleanup_expired now m))"
  by (simp_all add: sm_wf_def serial_map_insert_def serial_map_remove_def serial_map_cleanup_expired_def
      hm.wf_put hm.wf_del hm.wf_retain Let_def)

lemma mux_wf_forward: "mux_wf mx \<Longrightarrow> mux_wf (snd (forward E c msg route mx))"
proof -
  assume wf: "mux_wf mx"
  obtain res effs r where f: "forward_method_call E c msg route (mx_router mx) = (res, effs, r)"
    by (metis prod_cases3)
  then have "sm_wf (rt_serial_map r)"
    by (cases rule: forward_cases) (use wf in \<open>auto simp: mux_wf_def intro: inv_intros\<close>)
  then show ?thesis
    using wf forward_routing_table[OF f] by (simp add: forward_def f mux_wf_def mx_table_def)
qed

lemma mux_wf_subscribe:
  "mux_wf mx \<Longrightarrow> mux_wf (subscribe_on r bus rule mx)" "mux_wf mx \<Longrightarrow> mux_wf (unsubscribe_on r bus rule mx)"
  by (auto simp: mux_wf_def mx_table_def intro: inv_intros)

lemma mux_wf_add_match: "mux_wf mx \<Longrightarrow> mux_wf (handle_add_match E c msg mx)"
  by (auto simp: handle_add_match_def send_emit mux_wf_subscribe Let_def mux_wf_def[of "upd_client _ _ _"]
      mux_wf_def[of mx] intro!: mux_wf_subscribe clients_wf_upd client_rules_wf_ops split: sum.splits)

lemma mux_wf_remove_match:
  assumes "mux_wf mx"
  shows "mux_wf (handle_remove_match E c msg mx)"
proof -
  have "mux_wf (mx\<lparr>mx_clients := hm_insert c (i\<lparr>ci_match_rules := snd (rules_remove str (ci_match_rules i))\<rparr>) (mx_clients mx)\<rparr>)"
    if "hm_get (mx_clients mx) c = Some i" for i str
    using assms that by (auto simp: mux_wf_def intro!: clients_wf_insert client_rules_wf_ops dest: clients_wf_get)
  then show ?thesis
    using assms by (auto simp: handle_remove_match_def send_emit case_prod_unfold Let_def
        intro!: mux_wf_subscribe split: sum.splits option.splits)
qed

lemma mux_wf_client_message:
  assumes "mux_wf mx"
  shows "mux_wf (handle_client_message E c msg mx)"
  using client_message_outcome[of E c msg mx]
proof (cases rule: client_outcome.cases)
  case Quiet
  then show ?thesis using assms by (simp add: mux_wf_quiet)
next
  case Request
  then show ?thesis using assms by (metis mux_wf_names_only names_only_request)
next
  case Release
  then show ?thesis using assms by (metis mux_wf_names_only names_only_release)
next
  case Add
  then show ?thesis using assms by (simp add: mux_wf_add_match)
next
  case Remove
  then show ?thesis using assms by (simp add: mux_wf_remove_match)
next
  case (Forward route)
  then show ?thesis using assms by (simp add: mux_wf_quiet mux_wf_forward)
qed

lemma pt_wf_correlation [inv_intros]:
  "pt_wf t \<Longrightarrow> pt_wf (tracker_register now p c t)" "pt_wf t \<Longrightarrow> pt_wf (snd (lookup_and_remove p t))"
  "pt_wf t \<Longrightarrow> pt_wf (snd (tracker_cleanup_expired now t))"
  by (rule pt.wf_ops; assumption)+

lemma handle_reply_fields:
  "rt_routing_table (snd (handle_reply msg route r)) = rt_routing_table r"
  "sm_wf (rt_serial_map r) \<Longrightarrow> sm_wf (rt_serial_map (snd (handle_reply msg route r)))"
  by (auto simp: handle_reply_def case_prod_unfold Let_def intro: inv_intros split: option.splits)

lemma mux_wf_router:
  "mux_wf mx \<Longrightarrow> rt_routing_table r = mx_table mx \<Longrightarrow> sm_wf (rt_serial_map r) \<Longrightarrow> mux_wf (mx\<lparr>mx_router := r\<rparr>)"
  by (simp add: mux_wf_def mx_table_def)

lemma mux_wf_portal: "mux_wf mx \<Longrightarrow> (pt_wf (mx_portal_requests mx) \<Longrightarrow> pt_wf t) \<Longrightarrow> mux_wf (mx\<lparr>mx_portal_requests := t\<rparr>)"
  by (simp add: mux_wf_def)

lemma mux_wf_bus_reply:
  assumes "mux_wf mx"
  shows "mux_wf (handle_bus_reply E msg route mx)"
proof -
  have "mux_wf (mx\<lparr>mx_router := snd (handle_reply msg route (mx_router mx))\<rparr>)"
    using assms by (intro mux_wf_router) (simp_all add: handle_reply_fields mux_wf_def mx_table_def)
  then show ?thesis
    by (auto simp: handle_bus_reply_def case_prod_unfold Let_def intro!: mux_wf_portal intro: inv_intros
        split: sum.splits option.splits)
qed

lemma mux_wf_bus_signal:
  assumes "mux_wf mx"
  shows "mux_wf (handle_bus_signal E msg route mx)"
proof -
  have "mux_wf (deliver_signal E msg route mx')" if "mux_wf mx'" for mx'
    using that by (simp add: deliver_signal_def Let_def)
  moreover have "mux_wf (mx\<lparr>mx_portal_requests := snd (lookup_and_remove p (mx_portal_requests mx))\<rparr>)" for p
    using assms by (auto intro: mux_wf_portal inv_intros)
  ultimately show ?thesis
    using assms by (auto simp: handle_bus_signal_def case_prod_unfold Let_def split: option.splits)
qed

lemma mux_wf_name_change:
  "mux_wf mx \<Longrightarrow> mux_wf (upd_table (on_container_name_change n a b) mx)"
  "mux_wf mx \<Longrightarrow> mux_wf (upd_table (on_host_name_change n a b) mx)"
  by (auto elim!: mux_wf_names_only[rotated] intro!: names_only_steps)

lemma mux_wf_bus_message: "mux_wf mx \<Longrightarrow> mux_wf (handle_bus_message E msg route mx)"
  by (simp add: handle_bus_message_def mux_wf_bus_signal mux_wf_bus_reply mux_wf_name_change Let_def
      split: sum.splits route.splits)

lemma mux_wf_cleanup_tick:
  assumes "mux_wf mx"
  shows "mux_wf (periodic_cleanup E mx)"
proof -
  have "rt_routing_table (snd (router_cleanup_expired E (mx_router mx))) = mx_table mx"
    "sm_wf (rt_serial_map (snd (router_cleanup_expired E (mx_router mx))))"
    using assms by (simp_all add: router_cleanup_expired_def case_prod_unfold Let_def mux_wf_def mx_table_def inv_intros)
  then show ?thesis
    using assms by (simp add: periodic_cleanup_def case_prod_unfold Let_def mux_wf_def mx_table_def inv_intros)
qed

lemma mux_wf_run_step: "mux_wf mx \<Longrightarrow> run_step E ev mx = Inr mx' \<Longrightarrow> mux_wf mx'"
  by (cases ev) (auto simp: mux_wf_bus_message mux_wf_client_message mux_wf_cleanup_tick
      split: sum.splits option.splits)

lemma mux_wf_release_rules: "mux_wf mx \<Longrightarrow> mux_wf (release_rules rules mx)"
  unfolding release_rules_def
  by (induction rules arbitrary: mx) (simp_all add: release_rule_def mux_wf_subscribe)

lemma mux_wf_cleanup_step:
  assumes "mux_wf mx"
  shows "mux_wf (snd (cleanup_step t mx))"
proof -
  have "mux_wf (drop_portal_requests c mx)" for c
    using assms by (auto simp: drop_portal_requests_def intro: mux_wf_portal inv_intros)
  moreover have "mux_wf (snd (leave_queues c mx))" "mux_wf (hand_over u r mx)" "mux_wf (release_owned u n mx)" for c u r n
    using assms by (auto intro: mux_wf_names_only[OF names_only_cleanup(1)]
        mux_wf_names_only[OF names_only_cleanup(2)] mux_wf_names_only[OF names_only_cleanup(3)])
  ultimately show ?thesis
    using assms by (cases "(t, mx)" rule: cleanup_step.cases)
      (simp_all add: mux_wf_release_rules case_prod_unfold Let_def)
qed

lemma mux_wf_register: "mux_wf mx \<Longrightarrow> mux_wf (register_client c u creds mx)"
  by (auto simp: register_client_def mux_wf_def intro!: clients_wf_insert client_rules_wf_ops)

lemma mux_wf_unregister: "mux_wf mx \<Longrightarrow> unregister_client c mx = (x, mx') \<Longrightarrow> mux_wf mx'"
  by (auto simp: unregister_client_def mux_wf_def split: option.splits)

lemma multiplexer_new_fields:
  assumes "multiplexer_new E build session guid cbus hbus = Inr mx"
  shows "mx_clients mx = []" "mx_refcount mx = ref_count_new" "mx_name_queue mx = name_queue_manager_new"
    "mx_portal_requests mx = tracker_new" "rt_serial_map (mx_router mx) = serial_map_new"
    "\<exists>t. sync_routing_table E routing_table_new = (Inr (mx_table mx), t)"
    "match_calls mx = [CallBus Container (CallAddMatch name_changes_rule), CallBus Host (CallAddMatch name_changes_rule)]"
  using assms
  by (auto simp: multiplexer_new_def sync_routing_table_def list_names_def list_activatable_names_def
      call_and_read_def subscribe_name_changes_def message_router_new_def mx_table_def match_calls_def
      split: sum.splits prod.splits)

lemma mux_wf_new:
  assumes "multiplexer_new E build session guid cbus hbus = Inr mx"
  shows "mux_wf mx"
proof -
  obtain t where "sync_routing_table E routing_table_new = (Inr (mx_table mx), t)"
    using multiplexer_new_fields(6)[OF assms] by blast
  then have "table_wf (mx_table mx)"
    by (auto simp: sync_routing_table_def Let_def dest!: sym[of _ "mx_table mx"] intro!: inv_intros
        split: sum.splits prod.splits)
  then show ?thesis
    using multiplexer_new_fields[OF assms]
    by (simp add: mux_wf_def inv_intros sm_wf_def serial_map_new_def serial_map_with_timeout_def)
qed

lemma mux_wf_sys_step:
  assumes "sys_step s s'" and "mux_wf (sys_mux s)"
  shows "mux_wf (sys_mux s')"
  using assms(1)
proof (cases rule: sys_step.cases)
  case (Clean ts1 t ts2 t' mx')
  then show ?thesis using mux_wf_cleanup_step[OF assms(2), of t] by simp
qed (use assms(2) in \<open>auto intro: mux_wf_register mux_wf_run_step mux_wf_unregister\<close>)

lemma reachable_mux_wf: "reachable s \<Longrightarrow> mux_wf (sys_mux s)"
  by (induction rule: reachable.induct) (auto simp: sys_init_def mux_wf_new intro: mux_wf_sys_step)

end
