(* ===== verification/Mux_Subscriptions.thy ===== *)
theory Mux_Subscriptions
  imports Mux_System
begin

text \<open>
  The upstream subscriptions of the running system: in every reachable state, and so between
  any two steps of any clean-up, a match rule that a connected client holds is subscribed on
  both buses. A bus counts the \<open>AddMatch\<close> and \<open>RemoveMatch\<close> calls it receives for a rule, and the
  rule is active while there were more of the former.
\<close>

section \<open>Counting\<close>

definition bus_label :: "route \<Rightarrow> string" where
  "bus_label r = (case r of Container \<Rightarrow> ''container'' | Host \<Rightarrow> ''host'')"

definition adds :: "multiplexer \<Rightarrow> route \<Rightarrow> string \<Rightarrow> nat" where
  "adds mx r rule = count_list (match_calls mx) (CallBus r (CallAddMatch rule))"

definition removes :: "multiplexer \<Rightarrow> route \<Rightarrow> string \<Rightarrow> nat" where
  "removes mx r rule = count_list (match_calls mx) (CallBus r (CallRemoveMatch rule))"

definition rule_ref :: "multiplexer \<Rightarrow> route \<Rightarrow> string \<Rightarrow> nat" where
  "rule_ref mx r rule = ref (mx_refcount mx) (bus_label r, rule)"

text \<open>The connected clients that hold a rule, and the releases that clean-ups still owe.\<close>

definition holders :: "multiplexer \<Rightarrow> string \<Rightarrow> client_id set" where
  "holders mx rule = {c. \<exists>u rules. client_view (mx_clients mx) c = Some (u, rules) \<and> rule \<in> set (rule_strings rules)}"

fun owed :: "cleanup \<Rightarrow> string \<Rightarrow> nat" where
  "owed (ReleaseRules c u rules owned) rule = count_list rules rule"
| "owed _ rule = 0"

definition owed_all :: "cleanup list \<Rightarrow> string \<Rightarrow> nat" where
  "owed_all ts rule = sum_list (map (\<lambda>t. owed t rule) ts)"

lemma finite_holders [simp]: "finite (holders mx rule)"
proof (rule finite_subset[OF _ hm.finite_keys])
  show "holders mx rule \<subseteq> {k. \<exists>v. hm_get (mx_clients mx) k = Some v}"
    by (auto simp: holders_def client_view_def)
qed

lemma owed_all_simps [simp]:
  "owed_all [] rule = 0" "owed_all (t # ts) rule = owed t rule + owed_all ts rule"
  "owed_all (ts @ us) rule = owed_all ts rule + owed_all us rule"
  by (simp_all add: owed_all_def)

section \<open>The invariant\<close>

text \<open>The program's own subscription to name changes is never released.\<close>

definition base :: "string \<Rightarrow> nat" where
  "base rule = (if rule = name_changes_rule then 1 else 0)"

definition calls_match_refs :: "multiplexer \<Rightarrow> bool" where
  "calls_match_refs mx \<longleftrightarrow>
     (\<forall>r rule. adds mx r rule = removes mx r rule + base rule + (if rule_ref mx r rule > 0 then 1 else 0))"

definition refs_cover :: "multiplexer \<Rightarrow> cleanup list \<Rightarrow> bool" where
  "refs_cover mx ts \<longleftrightarrow> (\<forall>r rule. card (holders mx rule) + owed_all ts rule \<le> rule_ref mx r rule)"

definition sub_inv :: "multiplexer \<Rightarrow> cleanup list \<Rightarrow> bool" where
  "sub_inv mx ts \<longleftrightarrow> calls_match_refs mx \<and> refs_cover mx ts"

text \<open>The invariant with references that are still to be counted.\<close>

definition sub_inv_with :: "(string \<Rightarrow> nat) \<Rightarrow> multiplexer \<Rightarrow> cleanup list \<Rightarrow> bool" where
  "sub_inv_with cr mx ts \<longleftrightarrow> calls_match_refs mx
     \<and> (\<forall>r rule. card (holders mx rule) + owed_all ts rule \<le> rule_ref mx r rule + cr rule)"

lemma sub_inv_with_none: "sub_inv_with (\<lambda>_. 0) = sub_inv"
  by (simp add: fun_eq_iff sub_inv_with_def sub_inv_def refs_cover_def)

lemma match_calls_simps [simp]:
  "match_calls (emit effs mx) = match_calls mx @ filter is_match_call effs"
  "match_calls (upd_client c f mx) = match_calls mx" "match_calls (mx\<lparr>mx_refcount := rc\<rparr>) = match_calls mx"
  "match_calls (mx\<lparr>mx_clients := cs\<rparr>) = match_calls mx" "match_calls (mx\<lparr>mx_router := rt\<rparr>) = match_calls mx"
  "match_calls (mx\<lparr>mx_portal_requests := pt\<rparr>) = match_calls mx"
  by (simp_all add: match_calls_def)

text \<open>What the invariant depends on.\<close>

lemma sub_inv_cong:
  assumes "match_calls mx' = match_calls mx" and "mx_refcount mx' = mx_refcount mx"
    and "client_view (mx_clients mx') = client_view (mx_clients mx)"
  shows "sub_inv mx' ts = sub_inv mx ts"
  using assms by (simp add: sub_inv_def calls_match_refs_def refs_cover_def adds_def removes_def rule_ref_def holders_def)

lemma sub_inv_names_only: "names_only mx mx' \<Longrightarrow> sub_inv mx' ts = sub_inv mx ts"
  by (rule sub_inv_cong) (auto simp: names_only_def)

section \<open>Subscribing and unsubscribing\<close>

lemma bus_label_inject [simp]: "bus_label a = bus_label b \<longleftrightarrow> a = b"
  by (cases a; cases b) (simp_all add: bus_label_def)

lemma holders_subscribe [simp]:
  "holders (subscribe_on r b rule mx) x = holders mx x" "holders (unsubscribe_on r b rule mx) x = holders mx x"
  by (simp_all add: holders_def)

lemma subscribe_counts:
  "rule_ref (subscribe_on a (bus_label a) x mx) r rule = rule_ref mx r rule + (if (r, rule) = (a, x) then 1 else 0)"
  "adds (subscribe_on a (bus_label a) x mx) r rule =
     adds mx r rule + (if (r, rule) = (a, x) \<and> rule_ref mx r rule = 0 then 1 else 0)"
  "removes (subscribe_on a (bus_label a) x mx) r rule = removes mx r rule"
proof -
  show "rule_ref (subscribe_on a (bus_label a) x mx) r rule = rule_ref mx r rule + (if (r, rule) = (a, x) then 1 else 0)"
    by (auto simp: rule_ref_def increment_ref)
  have calls: "match_calls (subscribe_on a (bus_label a) x mx) =
      match_calls mx @ (if rule_ref mx a x = 0 then [CallBus a (CallAddMatch x)] else [])"
    by (simp add: subscribe_on_def increment_ref rule_ref_def case_prod_unfold Let_def)
  show "adds (subscribe_on a (bus_label a) x mx) r rule =
      adds mx r rule + (if (r, rule) = (a, x) \<and> rule_ref mx r rule = 0 then 1 else 0)"
    "removes (subscribe_on a (bus_label a) x mx) r rule = removes mx r rule"
    by (auto simp: adds_def removes_def calls)
qed

lemma unsubscribe_counts:
  "rule_ref (unsubscribe_on a (bus_label a) x mx) r rule = rule_ref mx r rule - (if (r, rule) = (a, x) then 1 else 0)"
  "removes (unsubscribe_on a (bus_label a) x mx) r rule =
     removes mx r rule + (if (r, rule) = (a, x) \<and> rule_ref mx r rule = 1 then 1 else 0)"
  "adds (unsubscribe_on a (bus_label a) x mx) r rule = adds mx r rule"
proof -
  show "rule_ref (unsubscribe_on a (bus_label a) x mx) r rule = rule_ref mx r rule - (if (r, rule) = (a, x) then 1 else 0)"
    by (auto simp: rule_ref_def decrement_ref)
  have calls: "match_calls (unsubscribe_on a (bus_label a) x mx) =
      match_calls mx @ (if rule_ref mx a x = 1 then [CallBus a (CallRemoveMatch x)] else [])"
    by (simp add: unsubscribe_on_def decrement_ref rule_ref_def case_prod_unfold Let_def)
  show "removes (unsubscribe_on a (bus_label a) x mx) r rule =
      removes mx r rule + (if (r, rule) = (a, x) \<and> rule_ref mx r rule = 1 then 1 else 0)"
    "adds (unsubscribe_on a (bus_label a) x mx) r rule = adds mx r rule"
    by (auto simp: adds_def removes_def calls)
qed

lemma calls_match_refs_subscribe:
  "calls_match_refs mx \<Longrightarrow> calls_match_refs (subscribe_on a (bus_label a) x mx)"
  "calls_match_refs mx \<Longrightarrow> calls_match_refs (unsubscribe_on a (bus_label a) x mx)"
  by (auto simp: calls_match_refs_def subscribe_counts unsubscribe_counts split: if_splits)

lemma subscribe_both_refs:
  "rule_ref (subscribe_on Host ''host'' x (subscribe_on Container ''container'' x mx)) r rule =
     rule_ref mx r rule + (if rule = x then 1 else 0)"
  "rule_ref (release_rule x mx) r rule = rule_ref mx r rule - (if rule = x then 1 else 0)"
  using subscribe_counts(1)[of Host] subscribe_counts(1)[of Container]
    unsubscribe_counts(1)[of Host] unsubscribe_counts(1)[of Container]
  by (cases r; simp add: bus_label_def release_rule_def)+

lemma calls_match_refs_both:
  "calls_match_refs mx \<Longrightarrow> calls_match_refs (subscribe_on Host ''host'' x (subscribe_on Container ''container'' x mx))"
  "calls_match_refs mx \<Longrightarrow> calls_match_refs (release_rule x mx)"
  using calls_match_refs_subscribe[of _ Host] calls_match_refs_subscribe[of _ Container]
  by (simp_all add: bus_label_def release_rule_def)

section \<open>The steps keep the invariant\<close>

lemma view_upd_client:
  "client_view (mx_clients (upd_client c f mx)) d =
     (if d = c then map_option (\<lambda>i. (ci_unique_name (f i), ci_match_rules (f i))) (hm_get (mx_clients mx) c)
      else client_view (mx_clients mx) d)"
  by (simp add: client_view_def option.map_comp comp_def)

lemma sub_inv_send [simp]:
  "sub_inv (send_reply_to_client E c msg body mx) ts = sub_inv mx ts"
  "sub_inv (send_error_to_client E c msg name text mx) ts = sub_inv mx ts"
  "sub_inv (invalid_args E c msg e mx) ts = sub_inv mx ts"
  by (rule sub_inv_names_only; blast)+

text \<open>
  A rule is entered with the client before its references are counted, and taken from the client before
  they are given back. In between a reference is still to be counted, or owed like that of a clean-up.
\<close>

definition credit :: "string \<Rightarrow> string \<Rightarrow> nat" where
  "credit str = (\<lambda>x. if x = str then 1 else 0)"

definition debt :: "string \<Rightarrow> cleanup" where
  "debt str = ReleaseRules 0 [] [str] []"

lemma owed_debt [simp]: "owed (debt str) rule = credit str rule"
  by (simp add: debt_def credit_def)

lemma sub_inv_hold_rule:
  assumes "sub_inv mx ts" and "rule_string rule = str"
  shows "sub_inv_with (credit str) (upd_client c (\<lambda>i. i\<lparr>ci_match_rules := rules_add rule (ci_match_rules i)\<rparr>) mx) ts"
    (is "sub_inv_with _ ?mx1 _")
proof -
  have "holders ?mx1 x \<subseteq> (if x = str then insert c (holders mx x) else holders mx x)" for x
    by (auto simp: holders_def view_upd_client rule_strings_add assms(2) client_view_def split: if_splits)
  then have "card (holders ?mx1 x) \<le> card (if x = str then insert c (holders mx x) else holders mx x)" for x
    by (intro card_mono) auto
  also have "card (if x = str then insert c (holders mx x) else holders mx x) \<le> card (holders mx x) + credit str x" for x
    by (simp add: credit_def card_insert_le_m1 card_insert_if)
  finally have card: "card (holders ?mx1 x) \<le> card (holders mx x) + credit str x" for x .
  have same: "rule_ref ?mx1 = rule_ref mx" "calls_match_refs ?mx1 = calls_match_refs mx"
    by (simp_all add: rule_ref_def fun_eq_iff calls_match_refs_def adds_def removes_def)
  have "card (holders ?mx1 x) + owed_all ts x \<le> rule_ref mx r x + credit str x" for r x
  proof -
    have "card (holders mx x) + owed_all ts x \<le> rule_ref mx r x"
      using assms(1) by (simp add: sub_inv_def refs_cover_def)
    with card[of x] show ?thesis by linarith
  qed
  then show ?thesis using assms(1) by (simp add: sub_inv_with_def sub_inv_def same)
qed

lemma sub_inv_count_rule:
  assumes "sub_inv_with (credit str) mx ts"
  shows "sub_inv (subscribe_on Host ''host'' str (subscribe_on Container ''container'' str mx)) ts"
  using assms
  by (simp add: sub_inv_with_def sub_inv_def refs_cover_def subscribe_both_refs calls_match_refs_both(1) credit_def)

lemma sub_inv_drop_rule:
  assumes "sub_inv mx ts" and "hm_get (mx_clients mx) c = Some i"
  shows "sub_inv (mx\<lparr>mx_clients := hm_insert c (i\<lparr>ci_match_rules := snd (rules_remove str (ci_match_rules i))\<rparr>) (mx_clients mx)\<rparr>)
           (if fst (rules_remove str (ci_match_rules i)) then debt str # ts else ts)" (is "sub_inv ?mx1 ?ts")
proof -
  have hold: "holders ?mx1 x = (if x = str then holders mx x - {c} else holders mx x)" for x
    using assms(2) by (auto simp: holders_def client_view_def rule_strings_remove)
  have held: "c \<in> holders mx str \<longleftrightarrow> fst (rules_remove str (ci_match_rules i))"
    using assms(2) by (auto simp: holders_def client_view_def rule_strings_remove)
  have "card (holders ?mx1 x) + owed_all ?ts x = card (holders mx x) + owed_all ts x" for x
    using card_Suc_Diff1[OF finite_holders, of c mx str] held by (auto simp: hold credit_def)
  then show ?thesis
    using assms(1)
    by (simp add: sub_inv_def refs_cover_def calls_match_refs_def adds_def removes_def rule_ref_def)
qed

lemma sub_inv_release_rule:
  assumes "sub_inv mx (debt str # ts)"
  shows "sub_inv (release_rule str mx) ts"
proof -
  have "card (holders mx x) + owed_all ts x \<le> rule_ref mx r x - (if x = str then 1 else 0)" for r x
  proof -
    have "card (holders mx x) + owed_all (debt str # ts) x \<le> rule_ref mx r x"
      using assms unfolding sub_inv_def refs_cover_def by blast
    then show ?thesis by (simp add: credit_def split: if_splits)
  qed
  moreover have "holders (release_rule str mx) x = holders mx x" for x by (simp add: release_rule_def)
  ultimately show ?thesis
    using assms by (simp add: sub_inv_def refs_cover_def subscribe_both_refs calls_match_refs_both(2))
qed

lemma sub_inv_add_match: "sub_inv mx ts \<Longrightarrow> sub_inv (handle_add_match E c msg mx) ts"
  by (auto simp: handle_add_match_def Let_def dest!: parse_wf intro!: sub_inv_count_rule sub_inv_hold_rule split: sum.splits)

lemma sub_inv_remove_match: "sub_inv mx ts \<Longrightarrow> sub_inv (handle_remove_match E c msg mx) ts"
  using sub_inv_drop_rule[of mx ts c]
  by (fastforce simp: handle_remove_match_def release_rule_def[symmetric] case_prod_unfold Let_def
      intro: sub_inv_release_rule split: sum.splits option.splits if_splits)

lemma sub_inv_quiet: "quiet mx mx' \<Longrightarrow> sub_inv mx' ts = sub_inv mx ts"
  by (rule sub_inv_names_only) (rule names_only_quiet)

lemma sub_inv_forward: "sub_inv (snd (forward E c msg route mx)) ts = sub_inv mx ts"
proof -
  obtain res effs r where f: "forward_method_call E c msg route (mx_router mx) = (res, effs, r)"
    by (metis prod_cases3)
  then have "filter is_match_call effs = []" by (cases rule: forward_cases) simp_all
  then show ?thesis by (intro sub_inv_cong) (simp_all add: forward_def f)
qed

lemma sub_inv_client_message:
  assumes "sub_inv mx ts"
  shows "sub_inv (handle_client_message E c msg mx) ts"
  using client_message_outcome[of E c msg mx]
proof (cases rule: client_outcome.cases)
  case Quiet
  then show ?thesis using assms by (simp add: sub_inv_quiet)
next
  case Request
  then show ?thesis using assms sub_inv_names_only[OF names_only_request] by simp
next
  case Release
  then show ?thesis using assms sub_inv_names_only[OF names_only_release] by simp
next
  case Add
  then show ?thesis using assms by (simp add: sub_inv_add_match)
next
  case Remove
  then show ?thesis using assms by (simp add: sub_inv_remove_match)
next
  case (Forward route)
  then show ?thesis using assms by (simp add: sub_inv_quiet sub_inv_forward)
qed

lemma signal_not_match: "filter is_match_call (map (\<lambda>(c, info). SendClient c msg) cs) = []"
  by (simp add: filter_empty_conv split: prod.splits)

lemma sub_inv_bus_message: "sub_inv (handle_bus_message E msg route mx) ts = sub_inv mx ts"
proof -
  have reply: "sub_inv (handle_bus_reply E msg route mx) ts = sub_inv mx ts" for mx
    by (rule sub_inv_cong) (auto simp: handle_bus_reply_def case_prod_unfold Let_def split: sum.splits option.splits)
  have deliver: "sub_inv (deliver_signal E msg route mx) ts = sub_inv mx ts" for mx
    by (rule sub_inv_cong) (simp_all add: deliver_signal_def signal_not_match Let_def)
  have portal: "sub_inv (mx\<lparr>mx_portal_requests := t\<rparr>) ts = sub_inv mx ts"
    "sub_inv (emit [SendClient c m] (mx\<lparr>mx_portal_requests := t\<rparr>)) ts = sub_inv mx ts" for mx t c m
    by (rule sub_inv_cong; simp)+
  have signal: "sub_inv (handle_bus_signal E msg route mx) ts = sub_inv mx ts" for mx
    by (auto simp: handle_bus_signal_def deliver portal case_prod_unfold Let_def split: option.splits)
  have "sub_inv (upd_table (on_container_name_change n a b) mx) ts = sub_inv mx ts"
    "sub_inv (upd_table (on_host_name_change n a b) mx) ts = sub_inv mx ts" for n a b
    by (intro sub_inv_names_only names_only_steps names_only_refl)+
  then show ?thesis
    by (auto simp: handle_bus_message_def reply signal Let_def split: sum.splits route.splits)
qed

lemma sub_inv_run_step:
  assumes "sub_inv mx ts" and "run_step E ev mx = Inr mx'"
  shows "sub_inv mx' ts"
proof (cases ev)
  case Tick
  then have "mx' = periodic_cleanup E mx" using assms(2) by simp
  then have "sub_inv mx' ts = sub_inv mx ts"
    by (intro sub_inv_cong) (simp_all add: periodic_cleanup_def match_calls_def case_prod_unfold Let_def)
  then show ?thesis using assms(1) by simp
qed (use assms in \<open>auto simp: sub_inv_bus_message sub_inv_client_message split: sum.splits option.splits\<close>)

text \<open>Fewer holders, or holders turned into debts, keep the counts sufficient.\<close>

lemma sub_inv_with_mono:
  assumes "sub_inv_with cr mx ts" and "match_calls mx' = match_calls mx" and "mx_refcount mx' = mx_refcount mx"
    and "\<And>rule. card (holders mx' rule) + owed_all ts' rule \<le> card (holders mx rule) + owed_all ts rule"
  shows "sub_inv_with cr mx' ts'"
proof -
  have "card (holders mx' rule) + owed_all ts' rule \<le> rule_ref mx' r rule + cr rule" for r rule
  proof -
    have "card (holders mx rule) + owed_all ts rule \<le> rule_ref mx r rule + cr rule"
      using assms(1) by (simp add: sub_inv_with_def)
    with assms(4)[of rule] show ?thesis by (simp add: rule_ref_def assms(3))
  qed
  then show ?thesis
    using assms(1-3) by (simp add: sub_inv_with_def calls_match_refs_def adds_def removes_def rule_ref_def)
qed

lemma sub_inv_with_register:
  assumes "sub_inv_with cr mx ts"
  shows "sub_inv_with cr (register_client c u creds mx) ts"
proof -
  have "holders (register_client c u creds mx) rule \<subseteq> holders mx rule" for rule
    by (auto simp: holders_def register_client_def client_view_def client_match_rules_new_def rule_strings_def
        split: if_splits)
  then show ?thesis
    using assms by (intro sub_inv_with_mono[OF assms]) (simp_all add: register_client_def card_mono)
qed

lemma count_list_distinct: "distinct xs \<Longrightarrow> count_list xs x = (if x \<in> set xs then 1 else 0)"
  by (induction xs) auto

lemma sub_inv_with_unregister:
  assumes "sub_inv_with cr mx ts" and "mux_wf mx" and "hm_get (mx_clients mx) c = Some info"
    and "unregister_client c mx = ((owned, rules), mx')"
  shows "sub_inv_with cr mx' (ReleaseRules c u rules owned # ts)"
proof -
  have mx': "mx' = mx\<lparr>mx_clients := hm_remove c (mx_clients mx)\<rparr>" and rules: "rules = rule_strings (ci_match_rules info)"
    using assms(3,4) by (auto simp: unregister_client_def)
  have hold: "holders mx' rule = holders mx rule - {c}" for rule
    by (auto simp: holders_def mx' client_view_def)
  have "distinct rules"
    using assms(2,3) by (auto simp: rules mux_wf_def client_rules_wf_def[symmetric] dest: clients_wf_get)
  then have "count_list rules rule = (if c \<in> holders mx rule then 1 else 0)" for rule
    using assms(3) by (simp add: holders_def client_view_def rules count_list_distinct)
  then have moved: "card (holders mx' rule) + count_list rules rule = card (holders mx rule)" for rule
    using card_Suc_Diff1[OF finite_holders, of c mx rule] by (cases "c \<in> holders mx rule") (simp_all add: hold)
  show ?thesis
  proof (rule sub_inv_with_mono[OF assms(1)])
    fix rule
    show "card (holders mx' rule) + owed_all (ReleaseRules c u rules owned # ts) rule
        \<le> card (holders mx rule) + owed_all ts rule"
      using moved[of rule] by simp
  qed (simp_all add: mx')
qed

lemma release_rules_counts:
  "rule_ref (release_rules rules mx) r rule = rule_ref mx r rule - count_list rules rule"
  "calls_match_refs mx \<Longrightarrow> calls_match_refs (release_rules rules mx)"
  "holders (release_rules rules mx) rule = holders mx rule"
  unfolding release_rules_def
  by (induction rules arbitrary: mx)
     (simp_all add: subscribe_both_refs calls_match_refs_both holders_def release_rule_def[THEN arg_cong[where f = mx_clients]])

lemma sub_inv_with_release_rules:
  assumes "sub_inv_with cr mx (ts1 @ ReleaseRules c u rules owned # ts2)"
  shows "sub_inv_with cr (release_rules rules mx) (ts1 @ DropPortal c u owned # ts2)"
proof -
  have "card (holders mx rule) + (owed_all ts1 rule + owed_all ts2 rule) \<le> rule_ref mx r rule - count_list rules rule + cr rule" for r rule
  proof -
    have "card (holders mx rule) + owed_all (ts1 @ ReleaseRules c u rules owned # ts2) rule \<le> rule_ref mx r rule + cr rule"
      using assms unfolding sub_inv_with_def by blast
    then show ?thesis by simp
  qed
  then show ?thesis
    using assms by (simp add: sub_inv_with_def release_rules_counts)
qed

lemma cleanup_step_owes: "cleanup_step t mx = (Some t', mx') \<Longrightarrow> owed t' rule = 0"
  by (cases "(t, mx)" rule: cleanup_step.cases) (auto simp: case_prod_unfold Let_def)

lemma cleanup_step_view:
  assumes "\<And>c u rules owned. t \<noteq> ReleaseRules c u rules owned"
  shows "match_calls (snd (cleanup_step t mx)) = match_calls mx"
    "mx_refcount (snd (cleanup_step t mx)) = mx_refcount mx"
    "client_view (mx_clients (snd (cleanup_step t mx))) = client_view (mx_clients mx)"
  using assms names_only_cleanup(1)[of mx] names_only_cleanup(2)[of mx] names_only_cleanup(3)[of mx]
  by (cases "(t, mx)" rule: cleanup_step.cases;
      simp add: case_prod_unfold Let_def names_only_def drop_portal_requests_def)+

lemma sub_inv_with_cleanup:
  assumes "sub_inv_with cr mx (ts1 @ t # ts2)" and "cleanup_step t mx = (t', mx')"
  shows "sub_inv_with cr mx' (ts1 @ (case t' of Some x \<Rightarrow> [x] | None \<Rightarrow> []) @ ts2)"
proof (cases "\<exists>c u rules owned. t = ReleaseRules c u rules owned")
  case True
  then show ?thesis using assms sub_inv_with_release_rules by auto
next
  case False
  then have view: "match_calls mx' = match_calls mx" "mx_refcount mx' = mx_refcount mx"
    "client_view (mx_clients mx') = client_view (mx_clients mx)"
    using cleanup_step_view[of t mx] assms(2) by auto
  have "owed_all (case t' of Some x \<Rightarrow> [x] | None \<Rightarrow> []) rule = 0" for rule
    using cleanup_step_owes assms(2) by (cases t') auto
  then show ?thesis
    by (intro sub_inv_with_mono[OF assms(1) view(1,2)]) (simp add: holders_def view(3))
qed

lemmas sub_inv_mono = sub_inv_with_mono[of "\<lambda>_. 0", unfolded sub_inv_with_none]
lemmas sub_inv_register = sub_inv_with_register[of "\<lambda>_. 0", unfolded sub_inv_with_none]
lemmas sub_inv_unregister = sub_inv_with_unregister[of "\<lambda>_. 0", unfolded sub_inv_with_none]
lemmas sub_inv_cleanup = sub_inv_with_cleanup[of "\<lambda>_. 0", unfolded sub_inv_with_none]

lemma sub_inv_new:
  assumes "multiplexer_new E build session guid cbus hbus = Inr mx"
  shows "sub_inv mx []"
proof -
  have "holders mx rule = {}" "rule_ref mx r rule = 0" for r rule
    using multiplexer_new_fields[OF assms]
    by (simp_all add: holders_def client_view_def rule_ref_def ref_def ref_count_new_def)
  moreover have "adds mx r rule = base rule" "removes mx r rule = 0" for r rule
    using multiplexer_new_fields(7)[OF assms] by (cases r; auto simp: adds_def removes_def base_def)+
  ultimately show ?thesis by (simp add: sub_inv_def calls_match_refs_def refs_cover_def)
qed

lemma sub_inv_sys_step:
  assumes "sys_step s s'" and "mux_wf (sys_mux s)" and "sub_inv (sys_mux s) (sys_tasks s)"
  shows "sub_inv (sys_mux s') (sys_tasks s')"
  using assms(1)
proof (cases rule: sys_step.cases)
  case (Clean ts1 t ts2 t' mx')
  then show ?thesis using sub_inv_cleanup[of "sys_mux s" ts1 t ts2] assms(3) by simp
qed (use assms(2,3) in \<open>auto intro: sub_inv_register sub_inv_run_step sub_inv_unregister\<close>)

lemma reachable_sub_inv: "reachable s \<Longrightarrow> sub_inv (sys_mux s) (sys_tasks s)"
  by (induction rule: reachable.induct)
     (auto simp: sys_init_def sub_inv_new intro: sub_inv_sys_step reachable_mux_wf)

section \<open>What AddMatch and a disconnect do to the counts\<close>

lemma add_match_counts:
  assumes "de_string (e_zbus E) msg = Inr str" and "parse str = Inr rule" and "hm_get (mx_clients mx) c = Some info"
  shows "rule_ref (handle_add_match E c msg mx) r x = rule_ref mx r x + (if x = str then 1 else 0)"
    and "holders (handle_add_match E c msg mx) x = (if x = str then insert c (holders mx x) else holders mx x)"
    and "calls_match_refs mx \<Longrightarrow> calls_match_refs (handle_add_match E c msg mx)"
    and "\<exists>info'. hm_get (mx_clients (handle_add_match E c msg mx)) c = Some info' \<and> str \<in> set (rule_strings (ci_match_rules info'))"
proof -
  let ?mx1 = "upd_client c (\<lambda>i. i\<lparr>ci_match_rules := rules_add rule (ci_match_rules i)\<rparr>) mx"
  let ?mx2 = "subscribe_on Host ''host'' str (subscribe_on Container ''container'' str ?mx1)"
  have mx: "handle_add_match E c msg mx = send_reply_to_client E c msg UnitBody ?mx2"
    using assms(1,2) by (simp add: handle_add_match_def Let_def)
  have str: "rule_string rule = str" using parse_wf[OF assms(2)] by simp
  have send: "rule_ref (send_reply_to_client E c msg UnitBody mx') = rule_ref mx'"
    "holders (send_reply_to_client E c msg UnitBody mx') = holders mx'"
    "calls_match_refs (send_reply_to_client E c msg UnitBody mx') = calls_match_refs mx'" for mx'
    using names_only_send(1)[OF names_only_refl, of mx' E c msg UnitBody]
    by (simp_all add: names_only_def rule_ref_def holders_def calls_match_refs_def adds_def removes_def fun_eq_iff)
  have mx1: "rule_ref ?mx1 = rule_ref mx" "calls_match_refs ?mx1 = calls_match_refs mx"
    by (simp_all add: rule_ref_def fun_eq_iff calls_match_refs_def adds_def removes_def)
  show "rule_ref (handle_add_match E c msg mx) r x = rule_ref mx r x + (if x = str then 1 else 0)"
    by (simp add: mx send subscribe_both_refs mx1)
  show "calls_match_refs mx \<Longrightarrow> calls_match_refs (handle_add_match E c msg mx)"
    by (simp add: mx send calls_match_refs_both(1) mx1)
  show "holders (handle_add_match E c msg mx) x = (if x = str then insert c (holders mx x) else holders mx x)"
    using assms(3) by (auto simp: mx send holders_def view_upd_client rule_strings_add str client_view_def)
  show "\<exists>info'. hm_get (mx_clients (handle_add_match E c msg mx)) c = Some info' \<and> str \<in> set (rule_strings (ci_match_rules info'))"
    using assms(3) by (simp add: mx send_reply_emit rule_strings_add str)
qed

lemma fold_names_only: "(\<And>x m. names_only m (f x m)) \<Longrightarrow> names_only mx (fold f xs mx)"
  by (induction xs arbitrary: mx) (auto intro: names_only_trans)

lemma disconnect_counts:
  assumes "mux_wf mx" and "hm_get (mx_clients mx) c = Some info"
  shows "rule_ref (disconnect_client c u mx) r x = rule_ref mx r x - (if c \<in> holders mx x then 1 else 0)"
    and "holders (disconnect_client c u mx) x = holders mx x - {c}"
    and "calls_match_refs mx \<Longrightarrow> calls_match_refs (disconnect_client c u mx)"
proof -
  let ?rules = "rule_strings (ci_match_rules info)"
  let ?mx1 = "mx\<lparr>mx_clients := hm_remove c (mx_clients mx)\<rparr>"
  let ?mx3 = "drop_portal_requests c (release_rules ?rules ?mx1)"
  have dis: "disconnect_client c u mx = fold (release_owned u) (ci_owned_names info)
      (fold (hand_over u) (fst (leave_queues c ?mx3)) (snd (leave_queues c ?mx3)))"
    using assms(2) by (simp add: disconnect_client_def unregister_client_def case_prod_unfold Let_def)
  let ?mx5 = "fold (hand_over u) (fst (leave_queues c ?mx3)) (snd (leave_queues c ?mx3))"
  have "names_only ?mx3 (snd (leave_queues c ?mx3))" by (rule names_only_cleanup(1))
  also have "names_only (snd (leave_queues c ?mx3)) ?mx5" by (intro fold_names_only names_only_cleanup(2))
  also have "names_only ?mx5 (disconnect_client c u mx)" unfolding dis by (intro fold_names_only names_only_cleanup(3))
  finally have "names_only ?mx3 (disconnect_client c u mx)" .
  then have view: "rule_ref (disconnect_client c u mx) = rule_ref (release_rules ?rules ?mx1)"
    "holders (disconnect_client c u mx) = holders (release_rules ?rules ?mx1)"
    "calls_match_refs (disconnect_client c u mx) = calls_match_refs (release_rules ?rules ?mx1)"
    by (simp_all add: names_only_def rule_ref_def holders_def calls_match_refs_def adds_def removes_def fun_eq_iff
        drop_portal_requests_def)
  have "distinct ?rules"
    using assms by (auto simp: mux_wf_def client_rules_wf_def[symmetric] dest: clients_wf_get)
  then show "rule_ref (disconnect_client c u mx) r x = rule_ref mx r x - (if c \<in> holders mx x then 1 else 0)"
    using assms(2) by (simp add: view release_rules_counts count_list_distinct holders_def client_view_def
        rule_ref_def[of "_\<lparr>mx_clients := _\<rparr>"] rule_ref_def[of mx])
  show "holders (disconnect_client c u mx) x = holders mx x - {c}"
    unfolding view release_rules_counts(3) by (auto simp: holders_def client_view_def)
  show "calls_match_refs mx \<Longrightarrow> calls_match_refs (disconnect_client c u mx)"
    by (simp add: view release_rules_counts calls_match_refs_def[of "_\<lparr>mx_clients := _\<rparr>"] calls_match_refs_def[of mx]
        adds_def removes_def rule_ref_def)
qed

section \<open>Instances\<close>

text \<open>
  An environment whose bodies deserialise to empty strings and lists, the multiplexer it starts,
  and the states after one client connected and added the empty rule.
\<close>

definition demo_env :: env where
  "demo_env = sample_env\<lparr>e_zbus := sample_api\<lparr>de_string := (\<lambda>m. Inr []), de_strings := (\<lambda>m. Inr [])\<rparr>\<rparr>"

definition demo_mux :: multiplexer where
  "demo_mux =
     \<lparr>mx_router = message_router_new
        \<lparr>bc_unique_name = Some '':1.1'', bc_serial_gen = serial_generator_new, bc_name = ''container''\<rparr>
        \<lparr>bc_unique_name = Some '':1.2'', bc_serial_gen = serial_generator_new, bc_name = ''host''\<rparr>
        (set_host_activatable [] (set_host_names [] (set_container_names [] routing_table_new))),
      mx_clients = [], mx_guid = ''guid'', mx_refcount = ref_count_new, mx_name_queue = name_queue_manager_new,
      mx_portal_requests = tracker_new,
      mx_effects = [CallBus Container CallListNames, CallBus Host CallListNames,
        CallBus Host CallListActivatableNames, CallBus Container (CallAddMatch name_changes_rule),
        CallBus Host (CallAddMatch name_changes_rule)]\<rparr>"

lemma demo_mux_new:
  "multiplexer_new demo_env (\<lambda>a. Inr (Some '':1.1'')) (Inr (Some '':1.2'')) ''guid'' ''unix:path=/c'' None = Inr demo_mux"
  by (simp add: multiplexer_new_def demo_env_def sample_env_def bus_connect_def bus_connect_session_def
      sync_routing_table_def list_names_def list_activatable_names_def call_and_read_def
      subscribe_name_changes_def demo_mux_def)

definition demo_creds :: client_credentials where
  "demo_creds = \<lparr>cc_uid = 1000, cc_pid = Some 42, cc_gid = 1000\<rparr>"

definition connected_mux :: multiplexer where
  "connected_mux = register_client 1 (mux_name 1) demo_creds demo_mux"

definition daemon_call :: "string \<Rightarrow> message" where
  "daemon_call member = sample_message\<lparr>h_destination := Some ''org.freedesktop.DBus'', h_member := Some member\<rparr>"

lemma connected_reachable: "reachable \<lparr>sys_mux = connected_mux, sys_tasks = [], sys_next = 2\<rparr>"
  using reachable.Step[OF reachable.Start[OF demo_mux_new] sys_step.Connect[where creds = demo_creds]]
  by (simp add: sys_init_def connected_mux_def)

lemma connected_client:
  "hm_get (mx_clients connected_mux) 1 = Some \<lparr>ci_unique_name = mux_name 1, ci_owned_names = [],
     ci_match_rules = client_match_rules_new, ci_credentials = demo_creds\<rparr>"
  by (simp add: connected_mux_def register_client_def)

lemma daemon_call_fields:
  "is_method_call (daemon_call m)" "is_dbus_daemon_call (daemon_call m)" "member_str (daemon_call m) = Some m"
  by (simp_all add: daemon_call_def mux_simps sample_message_def header_conv blank_header_def)

lemma demo_add_match:
  "handle_client_message demo_env 1 (daemon_call ''AddMatch'') mx = handle_add_match demo_env 1 (daemon_call ''AddMatch'') mx"
  by (simp add: handle_client_message_def handle_dbus_method_def daemon_call_fields)

lemma demo_parse: "de_string (e_zbus demo_env) msg = Inr []" "parse [] = Inr (empty_rule [])"
  by (simp_all add: demo_env_def parse_def)

section \<open>Properties\<close>

text \<open>
  No rule of a connected client is ever unsubscribed: in every reachable state of the
  system, whatever clean-ups are under way, each match rule that a connected client holds is
  subscribed on both buses (more \<open>AddMatch\<close> than \<open>RemoveMatch\<close> calls were made for it), and each
  rule has at least as many references on each bus as it has holders.
\<close>

lemma live_rules_stay_subscribed:
  assumes "reachable s" and "hm_get (mx_clients (sys_mux s)) c = Some info"
    and "rule \<in> set (rule_strings (ci_match_rules info))"
  shows "removes (sys_mux s) r rule < adds (sys_mux s) r rule
     \<and> card (holders (sys_mux s) rule) \<le> rule_ref (sys_mux s) r rule"
proof -
  have inv: "calls_match_refs (sys_mux s)" "card (holders (sys_mux s) rule) \<le> rule_ref (sys_mux s) r rule"
    using reachable_sub_inv[OF assms(1)] by (auto simp: sub_inv_def refs_cover_def dest!: spec[of _ r] spec[of _ rule])
  have "c \<in> holders (sys_mux s) rule"
    using assms(2,3) by (simp add: holders_def client_view_def)
  then have "0 < card (holders (sys_mux s) rule)" by (auto simp: card_gt_0_iff)
  then have "0 < rule_ref (sys_mux s) r rule" using inv(2) by linarith
  then have "adds (sys_mux s) r rule = removes (sys_mux s) r rule + base rule + 1"
    using inv(1) by (simp add: calls_match_refs_def)
  then show ?thesis using inv(2) by simp
qed

lemma live_rules_stay_subscribed_witness:
  "removes (handle_add_match demo_env 1 (daemon_call ''AddMatch'') connected_mux) Host []
   < adds (handle_add_match demo_env 1 (daemon_call ''AddMatch'') connected_mux) Host []"
proof -
  let ?mx = "handle_add_match demo_env 1 (daemon_call ''AddMatch'') connected_mux"
  obtain info where info: "hm_get (mx_clients ?mx) 1 = Some info" "[] \<in> set (rule_strings (ci_match_rules info))"
    using add_match_counts(4)[OF demo_parse(1) demo_parse(2) connected_client, of "daemon_call ''AddMatch''"] by blast
  have "reachable \<lparr>sys_mux = ?mx, sys_tasks = [], sys_next = 2\<rparr>"
    using reachable.Step[OF connected_reachable sys_step.Loop[where E = demo_env and ev = "ClientMessage 1 (daemon_call ''AddMatch'')"]]
    by (simp add: demo_add_match)
  from live_rules_stay_subscribed[OF this, of 1 info "[]" Host] info show ?thesis by simp
qed

text \<open>
  A disconnect gives back exactly what the client held: the complete clean-up of a connected
  client drops one reference on each bus for each rule it holds, none for other rules, and
  leaves the other holders in place.
\<close>

lemma disconnect_releases_held_rules:
  assumes "mux_wf mx" and "hm_get (mx_clients mx) c = Some info"
  shows "rule_ref (disconnect_client c u mx) r rule =
       rule_ref mx r rule - (if rule \<in> set (rule_strings (ci_match_rules info)) then 1 else 0)
     \<and> holders (disconnect_client c u mx) rule = holders mx rule - {c}"
  using disconnect_counts[OF assms, of u] assms(2) by (simp add: holders_def client_view_def)

lemma disconnect_releases_held_rules_witness:
  "mux_wf connected_mux \<and> rule_ref (disconnect_client 1 (mux_name 1) connected_mux) Host [] = rule_ref connected_mux Host []"
proof -
  have wf: "mux_wf connected_mux" using reachable_mux_wf[OF connected_reachable] by simp
  with disconnect_releases_held_rules[OF wf connected_client, of "mux_name 1" Host "[]"] show ?thesis
    by (simp add: client_match_rules_new_def rule_strings_def)
qed

text \<open>
  C29. A rule that one client adds twice is never unsubscribed: nobody held the rule before, the
  client adds it twice and disconnects, no holder is left, and yet one reference remains on
  each bus and the rule stays subscribed there.
\<close>

theorem duplicate_add_match_leaks:
  assumes "mux_wf mx" and "calls_match_refs mx" and "hm_get (mx_clients mx) c = Some info"
    and "de_string (e_zbus E) msg = Inr str" and "parse str = Inr rule"
    and "holders mx str = {}" and "rule_ref mx r str = 0"
    and "mx' = disconnect_client c u (handle_add_match E c msg (handle_add_match E c msg mx))"
  shows "holders mx' str = {} \<and> rule_ref mx' r str = 1 \<and> removes mx' r str < adds mx' r str"
proof -
  let ?m1 = "handle_add_match E c msg mx"
  let ?m2 = "handle_add_match E c msg ?m1"
  obtain i1 where i1: "hm_get (mx_clients ?m1) c = Some i1" using add_match_counts(4)[OF assms(4,5,3)] by blast
  obtain i2 where i2: "hm_get (mx_clients ?m2) c = Some i2" using add_match_counts(4)[OF assms(4,5) i1] by blast
  note c1 = add_match_counts[OF assms(4,5,3)] and c2 = add_match_counts[OF assms(4,5) i1]
  have "mux_wf ?m2" by (intro mux_wf_add_match assms(1))
  note d = disconnect_counts[OF this i2, of u, folded assms(8)]
  have "rule_ref mx' r str = 1" "holders mx' str = {}"
    using assms(6,7) by (simp_all add: d c1 c2)
  moreover from this(1) have "adds mx' r str = removes mx' r str + base str + 1"
    using d(3)[OF c2(3)[OF c1(3)[OF assms(2)]]] by (simp add: calls_match_refs_def)
  ultimately show ?thesis by simp
qed

theorem duplicate_add_match_leaks_witness:
  "let mx' = disconnect_client 1 (mux_name 1) (handle_add_match demo_env 1 (daemon_call ''AddMatch'')
        (handle_add_match demo_env 1 (daemon_call ''AddMatch'') connected_mux))
   in holders mx' [] = {} \<and> removes mx' Host [] < adds mx' Host []"
proof -
  have wf: "mux_wf connected_mux" and inv: "sub_inv connected_mux []"
    using reachable_mux_wf[OF connected_reachable] reachable_sub_inv[OF connected_reachable] by simp_all
  have none: "holders connected_mux [] = {}"
    by (auto simp: holders_def client_view_def connected_mux_def register_client_def client_match_rules_new_def
        rule_strings_def demo_mux_def split: if_splits)
  have ref: "rule_ref connected_mux Host [] = 0"
    by (simp add: rule_ref_def ref_def connected_mux_def register_client_def demo_mux_def ref_count_new_def)
  have "calls_match_refs connected_mux" using inv by (simp add: sub_inv_def)
  from duplicate_add_match_leaks[OF wf this connected_client demo_parse none ref refl] show ?thesis by (simp add: Let_def)
qed

end
