(* ===== verification/Mux_Ownership.thy ===== *)
theory Mux_Ownership
  imports Mux_Subscriptions
begin

text \<open>
  Name ownership in the running system: who may stand in a name queue, what \<open>RequestName\<close> does
  on each answer of the bus, and what a disconnect leaves behind.
\<close>

section \<open>The entries of the queues\<close>

definition entries :: "name_queue_manager \<Rightarrow> queue_entry set" where
  "entries q = (\<Union>n. set (queue_of q n))"

lemma entries_update: "set l \<subseteq> X \<Longrightarrow> entries q \<subseteq> X \<Longrightarrow> queue_of q' = (queue_of q)(n := l) \<Longrightarrow> entries q' \<subseteq> X"
  by (simp add: entries_def UN_subset_iff)

lemma entries_request:
  assumes "manager_wf q"
  shows "entries (snd (request_name n c u f q)) \<subseteq> insert (flag_entry c u f) (entries q)"
proof (rule entries_update[OF _ _ request_name_refines(2)[OF assms]])
  have "set (snd (spec_request c u f l)) \<subseteq> insert (flag_entry c u f) (set l)" for l
    by (auto simp: spec_request_def)
  then show "set (snd (spec_request c u f (queue_of q n))) \<subseteq> insert (flag_entry c u f) (entries q)"
    by (rule order_trans) (auto simp: entries_def)
qed auto

lemma entries_release: "manager_wf q \<Longrightarrow> entries (snd (release_name n c q)) \<subseteq> entries q"
  by (rule entries_update[OF _ _ release_name_refines(2)]) (auto simp: entries_def without_def)

lemma entries_remove: "manager_wf q \<Longrightarrow> entries (snd (remove_client c q)) = {e \<in> entries q. qe_client_id e \<noteq> c}"
  by (auto simp: entries_def remove_client_refines without_def)

section \<open>The queue after each handler\<close>

lemma queue_request_name:
  "mx_name_queue (handle_request_name E c msg mx) =
     (case de_string_u32 (e_zbus E) msg of Inl _ \<Rightarrow> mx_name_queue mx
      | Inr (name, flags) \<Rightarrow>
          (case hm_get (mx_clients mx) c of None \<Rightarrow> mx_name_queue mx
           | Some info \<Rightarrow>
               (let (res, q) = request_name name c (ci_unique_name info) flags (mx_name_queue mx)
                in if rn_forward_to_bus res \<and> (\<exists>e. e_call E Container (CallRequestName name flags) = Inl e)
                   then snd (release_name name c q) else q)))"
  by (auto simp: handle_request_name_def send_emit case_prod_unfold Let_def split: sum.splits option.splits)

lemma queue_release_name:
  "mx_name_queue (handle_release_name E c msg mx) =
     (case de_string (e_zbus E) msg of Inl _ \<Rightarrow> mx_name_queue mx
      | Inr name \<Rightarrow> snd (release_name name c (mx_name_queue mx)))"
  by (auto simp: handle_release_name_def send_emit case_prod_unfold Let_def split: sum.splits option.splits)

lemma queue_match_handlers [simp]:
  "mx_name_queue (handle_add_match E c msg mx) = mx_name_queue mx"
  "mx_name_queue (handle_remove_match E c msg mx) = mx_name_queue mx"
  by (auto simp: handle_add_match_def handle_remove_match_def send_emit case_prod_unfold Let_def
      split: sum.splits option.splits)

lemma queue_forward [simp]:
  "mx_name_queue (snd (forward E c msg route mx)) = mx_name_queue mx"
  "mx_name_queue (periodic_cleanup E mx) = mx_name_queue mx"
  by (simp_all add: forward_def periodic_cleanup_def case_prod_unfold Let_def)

lemma queue_bus_reply [simp]: "mx_name_queue (handle_bus_reply E msg route mx) = mx_name_queue mx"
  by (auto simp: handle_bus_reply_def case_prod_unfold Let_def split: sum.splits option.splits)

lemma queue_bus_signal [simp]: "mx_name_queue (handle_bus_signal E msg route mx) = mx_name_queue mx"
  by (auto simp: handle_bus_signal_def deliver_signal_def case_prod_unfold Let_def split: option.splits)

lemma queue_bus_message [simp]: "mx_name_queue (handle_bus_message E msg route mx) = mx_name_queue mx"
  by (simp add: handle_bus_message_def Let_def split: sum.splits route.splits)

lemma entries_handle_request:
  assumes "manager_wf (mx_name_queue mx)"
  shows "entries (mx_name_queue (handle_request_name E c msg mx)) \<subseteq>
     entries (mx_name_queue mx) \<union> {flag_entry c (ci_unique_name info) f | info f. hm_get (mx_clients mx) c = Some info}"
proof (cases "de_string_u32 (e_zbus E) msg")
  case (Inr nf)
  obtain name flags where nf: "nf = (name, flags)" by (cases nf)
  show ?thesis
  proof (cases "hm_get (mx_clients mx) c")
    case (Some info)
    let ?q = "snd (request_name name c (ci_unique_name info) flags (mx_name_queue mx))"
    have "entries ?q \<subseteq> insert (flag_entry c (ci_unique_name info) flags) (entries (mx_name_queue mx))"
      by (rule entries_request[OF assms])
    moreover have "entries (snd (release_name name c ?q)) \<subseteq> entries ?q"
      by (intro entries_release manager_wf_ops assms)
    moreover have "mx_name_queue (handle_request_name E c msg mx) \<in> {?q, snd (release_name name c ?q)}"
      using Inr Some by (simp add: queue_request_name nf case_prod_unfold Let_def)
    ultimately have "entries (mx_name_queue (handle_request_name E c msg mx))
        \<subseteq> insert (flag_entry c (ci_unique_name info) flags) (entries (mx_name_queue mx))"
      by (metis insertE order_trans singletonD)
    then show ?thesis using Some by blast
  qed (simp add: queue_request_name Inr nf)
qed (simp add: queue_request_name)

text \<open>A client message adds at most an entry of its sender, under its unique name.\<close>

lemma entries_client_message:
  assumes "mux_wf mx" and "e \<in> entries (mx_name_queue (handle_client_message E c msg mx))"
  shows "e \<in> entries (mx_name_queue mx)
     \<or> (\<exists>info. hm_get (mx_clients mx) c = Some info \<and> qe_client_id e = c \<and> qe_unique_name e = ci_unique_name info)"
proof -
  have wf: "manager_wf (mx_name_queue mx)" using assms(1) by (simp add: mux_wf_def)
  show ?thesis
    using client_message_outcome[of E c msg mx]
  proof (cases rule: client_outcome.cases)
    case Request
    then show ?thesis using assms(2) entries_handle_request[OF wf, of E c msg] by (auto simp: flag_entry_def)
  next
    case Release
    then show ?thesis
      using assms(2) subsetD[OF entries_release[OF wf]] by (simp add: queue_release_name split: sum.splits)
  qed (use assms(2) in \<open>auto dest: quiet_fields(5)\<close>)
qed

section \<open>The invariant\<close>

text \<open>The clients whose clean-up has not left the queues yet.\<close>

fun in_queues :: "cleanup \<Rightarrow> bool" where
  "in_queues (ReleaseRules _ _ _ _) = True"
| "in_queues (DropPortal _ _ _) = True"
| "in_queues (LeaveQueues _ _ _) = True"
| "in_queues _ = False"

definition connected :: "multiplexer \<Rightarrow> client_id \<Rightarrow> bool" where
  "connected mx c = (client_view (mx_clients mx) c \<noteq> None)"

definition present :: "multiplexer \<Rightarrow> cleanup list \<Rightarrow> client_id \<Rightarrow> bool" where
  "present mx ts c = (connected mx c \<or> (\<exists>t\<in>set ts. in_queues t \<and> task_client t = c))"

definition named :: "multiplexer \<Rightarrow> bool" where
  "named mx = (\<forall>c u rules. client_view (mx_clients mx) c = Some (u, rules) \<longrightarrow> u = mux_name c)"

definition own_inv :: "multiplexer \<Rightarrow> cleanup list \<Rightarrow> bool" where
  "own_inv mx ts \<longleftrightarrow> named mx \<and>
     (\<forall>e\<in>entries (mx_name_queue mx). present mx ts (qe_client_id e) \<and> qe_unique_name e = mux_name (qe_client_id e))"

lemma own_inv_mono:
  assumes "own_inv mx ts" and "named mx'"
    and "\<And>e. e \<in> entries (mx_name_queue mx') \<Longrightarrow> e \<in> entries (mx_name_queue mx)
           \<or> connected mx (qe_client_id e) \<and> qe_unique_name e = mux_name (qe_client_id e)"
    and "\<And>c e. e \<in> entries (mx_name_queue mx') \<Longrightarrow> c = qe_client_id e \<Longrightarrow> present mx ts c \<Longrightarrow> present mx' ts' c"
  shows "own_inv mx' ts'"
  using assms by (fastforce simp: own_inv_def present_def)

text \<open>The names under which clients are registered survive every handler.\<close>

lemma views_client_message:
  "map_option fst (client_view (mx_clients (handle_client_message E c msg mx)) d) = map_option fst (client_view (mx_clients mx) d)"
  using client_message_outcome[of E c msg mx]
proof (cases rule: client_outcome.cases)
  case Quiet
  then show ?thesis by (simp add: quiet_fields(2))
next
  case Request
  then show ?thesis using names_only_request[of mx E c msg] by (simp add: names_only_def)
next
  case Release
  then show ?thesis using names_only_release[of mx E c msg] by (simp add: names_only_def)
next
  case Add
  then show ?thesis
    by (auto simp: handle_add_match_def send_emit client_view_def option.map_comp comp_def Let_def split: sum.splits)
next
  case Remove
  then show ?thesis
    by (auto simp: handle_remove_match_def send_emit client_view_def option.map_comp comp_def case_prod_unfold Let_def
        split: sum.splits option.splits)
next
  case (Forward route)
  then show ?thesis by (simp add: quiet_fields(2) forward_def case_prod_unfold Let_def)
qed

lemma same_names:
  assumes "\<And>d. map_option fst (client_view (mx_clients mx') d) = map_option fst (client_view (mx_clients mx) d)"
  shows "connected mx' d = connected mx d" and "named mx \<Longrightarrow> named mx'"
proof -
  show "connected mx' d = connected mx d"
    using assms[of d] by (cases "client_view (mx_clients mx) d") (auto simp: connected_def)
  show "named mx \<Longrightarrow> named mx'"
    unfolding named_def by (metis (mono_tags) assms map_option_eq_Some fst_conv option.map(2) prod.collapse)
qed

lemmas connected_client_message = same_names(1)[OF views_client_message]
lemmas named_client_message = same_names(2)[OF views_client_message]

lemma own_inv_client_message:
  assumes "own_inv mx ts" and "mux_wf mx"
  shows "own_inv (handle_client_message E c msg mx) ts"
proof (rule own_inv_mono[OF assms(1)])
  have named: "named mx" using assms(1) by (simp add: own_inv_def)
  then show "named (handle_client_message E c msg mx)" by (rule named_client_message)
  show "e \<in> entries (mx_name_queue mx) \<or> connected mx (qe_client_id e) \<and> qe_unique_name e = mux_name (qe_client_id e)"
    if "e \<in> entries (mx_name_queue (handle_client_message E c msg mx))" for e
    using entries_client_message[OF assms(2) that] named
    by (auto simp: connected_def named_def client_view_def)
qed (auto simp: present_def connected_client_message)

lemma clients_bus [simp]:
  "mx_clients (handle_bus_reply E msg route mx) = mx_clients mx"
  "mx_clients (handle_bus_signal E msg route mx) = mx_clients mx"
  by (auto simp: handle_bus_reply_def handle_bus_signal_def deliver_signal_def case_prod_unfold Let_def
      split: sum.splits option.splits)

lemma clients_loop [simp]:
  "mx_clients (handle_bus_message E msg route mx) = mx_clients mx"
  "mx_clients (periodic_cleanup E mx) = mx_clients mx"
  by (simp_all add: handle_bus_message_def periodic_cleanup_def case_prod_unfold Let_def split: sum.splits route.splits)

lemma own_inv_cong:
  "mx_clients mx' = mx_clients mx \<Longrightarrow> mx_name_queue mx' = mx_name_queue mx \<Longrightarrow> own_inv mx' ts = own_inv mx ts"
  by (simp add: own_inv_def named_def present_def connected_def)

lemma own_inv_run_step:
  assumes "own_inv mx ts" and "mux_wf mx" and "run_step E ev mx = Inr mx'"
  shows "own_inv mx' ts"
proof (cases ev)
  case (ClientMessage c msg)
  then show ?thesis using own_inv_client_message[OF assms(1,2)] assms(3) by auto
next
  case (BusItem route item)
  then have "mx_clients mx' = mx_clients mx" "mx_name_queue mx' = mx_name_queue mx"
    using assms(3) by (auto split: sum.splits option.splits)
  then show ?thesis using assms(1) own_inv_cong by blast
next
  case Tick
  then have "mx_clients mx' = mx_clients mx" "mx_name_queue mx' = mx_name_queue mx"
    using assms(3) by auto
  then show ?thesis using assms(1) own_inv_cong by blast
qed

lemma own_inv_register:
  assumes "own_inv mx ts"
  shows "own_inv (register_client c (mux_name c) creds mx) ts"
  using assms
  by (auto simp: own_inv_def named_def present_def connected_def register_client_def client_view_def split: if_splits)

lemma unregister_view:
  assumes "unregister_client c mx = ((owned, rules), mx')"
  shows "client_view (mx_clients mx') d = (if d = c then None else client_view (mx_clients mx) d)"
    and "mx_name_queue mx' = mx_name_queue mx"
    and "present mx ts d \<Longrightarrow> present mx' (ReleaseRules c u rules owned # ts) d"
  using assms by (auto simp: unregister_client_def client_view_def present_def connected_def split: option.splits)

lemma own_inv_unregister:
  assumes "own_inv mx ts" and "unregister_client c mx = ((owned, rules), mx')"
  shows "own_inv mx' (ReleaseRules c u rules owned # ts)"
proof (rule own_inv_mono[OF assms(1)])
  show "named mx'" using assms(1) by (auto simp: own_inv_def named_def unregister_view(1)[OF assms(2)])
  show "present mx' (ReleaseRules c u rules owned # ts) d" if "present mx ts d" for d
    by (rule unregister_view(3)[OF assms(2) that])
qed (simp add: unregister_view(2)[OF assms(2)])

lemma cleanup_step_connected:
  "client_view (mx_clients (snd (cleanup_step t mx))) = client_view (mx_clients mx)"
proof (cases "\<exists>c u rules owned. t = ReleaseRules c u rules owned")
  case True
  then obtain c u rules owned where t: "t = ReleaseRules c u rules owned" by blast
  have "mx_clients (release_rules rules mx) = mx_clients mx"
    unfolding release_rules_def by (induction rules arbitrary: mx) (simp_all add: release_rule_def)
  then show ?thesis by (simp add: t)
qed (auto intro: cleanup_step_view)

lemma cleanup_step_queue:
  assumes "manager_wf (mx_name_queue mx)"
  shows "entries (mx_name_queue (snd (cleanup_step t mx))) =
     {e \<in> entries (mx_name_queue mx). \<not> ((\<exists>u owned. t = LeaveQueues (qe_client_id e) u owned))}"
proof -
  have "mx_name_queue (release_rules rules mx) = mx_name_queue mx" for rules
    unfolding release_rules_def by (induction rules arbitrary: mx) (simp_all add: release_rule_def)
  then show ?thesis
    using assms by (cases "(t, mx)" rule: cleanup_step.cases)
      (auto simp: drop_portal_requests_def leave_queues_def hand_over_def release_owned_def entries_remove
        case_prod_unfold Let_def split: option.splits)
qed

lemma cleanup_task:
  "cleanup_step t mx = (Some t', mx') \<Longrightarrow> task_client t' = task_client t"
  "in_queues t \<Longrightarrow> (\<And>u owned. t \<noteq> LeaveQueues (task_client t) u owned) \<Longrightarrow>
     \<exists>t'. fst (cleanup_step t mx) = Some t' \<and> in_queues t' \<and> task_client t' = task_client t"
  by (cases "(t, mx)" rule: cleanup_step.cases; auto simp: case_prod_unfold Let_def)+

lemma present_cleanup:
  assumes "present mx (ts1 @ t # ts2) c" and "cleanup_step t mx = (t', mx')" and "\<And>u owned. t \<noteq> LeaveQueues c u owned"
  shows "present mx' (ts1 @ (case t' of Some x \<Rightarrow> [x] | None \<Rightarrow> []) @ ts2) c"
proof (cases "in_queues t \<and> task_client t = c")
  case True
  then have "\<And>u owned. t \<noteq> LeaveQueues (task_client t) u owned" using assms(3) by auto
  then obtain x where "t' = Some x" "in_queues x" "task_client x = c"
    using cleanup_task(2)[of t mx] True assms(2) by auto
  then show ?thesis by (auto simp: present_def)
next
  case False
  then show ?thesis using assms(1,2) cleanup_step_connected[of t mx] by (auto simp: present_def connected_def)
qed

lemma own_inv_cleanup:
  assumes "own_inv mx (ts1 @ t # ts2)" and "manager_wf (mx_name_queue mx)" and "cleanup_step t mx = (t', mx')"
  shows "own_inv mx' (ts1 @ (case t' of Some x \<Rightarrow> [x] | None \<Rightarrow> []) @ ts2)"
proof (rule own_inv_mono[OF assms(1)])
  have view: "client_view (mx_clients mx') = client_view (mx_clients mx)"
    using cleanup_step_connected[of t mx] assms(3) by simp
  have queue: "entries (mx_name_queue mx') =
      {e \<in> entries (mx_name_queue mx). \<not> (\<exists>u owned. t = LeaveQueues (qe_client_id e) u owned)}"
    using cleanup_step_queue[OF assms(2), of t] assms(3) by simp
  show "named mx'" using assms(1) by (simp add: own_inv_def named_def view)
  show "e \<in> entries (mx_name_queue mx) \<or>
      (connected mx (qe_client_id e) \<and> qe_unique_name e = mux_name (qe_client_id e))" if "e \<in> entries (mx_name_queue mx')" for e
    using that by (simp add: queue)
  show "present mx' (ts1 @ (case t' of Some x \<Rightarrow> [x] | None \<Rightarrow> []) @ ts2) c"
    if "e \<in> entries (mx_name_queue mx')" "c = qe_client_id e" "present mx (ts1 @ t # ts2) c" for c e
    using that present_cleanup[OF that(3) assms(3)] by (auto simp: queue)
qed

lemma own_inv_sys_step:
  assumes "sys_step s s'" and "mux_wf (sys_mux s)" and "own_inv (sys_mux s) (sys_tasks s)"
  shows "own_inv (sys_mux s') (sys_tasks s')"
  using assms(1)
proof (cases rule: sys_step.cases)
  case (Clean ts1 t ts2 t' mx')
  then show ?thesis using own_inv_cleanup[of "sys_mux s" ts1 t ts2] assms(2,3) by (simp add: mux_wf_def)
qed (use assms(2,3) in \<open>auto intro: own_inv_register own_inv_run_step own_inv_unregister\<close>)

lemma own_inv_new:
  assumes "multiplexer_new E build session guid cbus hbus = Inr mx"
  shows "own_inv mx []"
  using multiplexer_new_fields[OF assms]
  by (simp add: own_inv_def named_def client_view_def entries_def queue_of_def name_queue_manager_new_def)

lemma reachable_own_inv: "reachable s \<Longrightarrow> own_inv (sys_mux s) (sys_tasks s)"
  by (induction rule: reachable.induct)
     (auto simp: sys_init_def own_inv_new intro: own_inv_sys_step reachable_mux_wf)

section \<open>A request that takes the name\<close>

text \<open>
  A request to which the queues answer \<open>PRIMARY_OWNER\<close> and which therefore reaches the bus: the
  name was free, or its owner accepts to be replaced.
\<close>

definition takes_name :: "env \<Rightarrow> client_id \<Rightarrow> message \<Rightarrow> multiplexer \<Rightarrow> string \<Rightarrow> u32 \<Rightarrow> client_info \<Rightarrow> bool" where
  "takes_name E c msg mx name flags info \<longleftrightarrow>
     de_string_u32 (e_zbus E) msg = Inr (name, flags) \<and> hm_get (mx_clients mx) c = Some info
     \<and> manager_wf (mx_name_queue mx)
     \<and> fst (spec_request c (ci_unique_name info) flags (queue_of (mx_name_queue mx) name)) = PRIMARY_OWNER"

lemma taken_queue:
  assumes "takes_name E c msg mx name flags info"
  shows "snd (spec_request c (ci_unique_name info) flags (queue_of (mx_name_queue mx) name))
     = flag_entry c (ci_unique_name info) flags # queue_of (mx_name_queue mx) name"
  using assms unfolding takes_name_def spec_request_PRIMARY
  by (auto simp: spec_request_def dest: owned_by_waits)

lemma take_name_state:
  assumes "takes_name E c msg mx name flags info"
  obtains q where "manager_wf q"
    and "queue_of q = (queue_of (mx_name_queue mx))(name := flag_entry c (ci_unique_name info) flags # queue_of (mx_name_queue mx) name)"
    and "handle_request_name E c msg mx =
      (let mx1 = emit [CallBus Container (CallRequestName name flags)] (mx\<lparr>mx_name_queue := q\<rparr>) in
       case e_call E Container (CallRequestName name flags) of
         Inr reply \<Rightarrow>
           send_reply_to_client E c msg (U32Body PRIMARY_OWNER)
             (if (case de_u32 (e_zbus E) reply of Inr code \<Rightarrow> code | Inl _ \<Rightarrow> 0) \<in> {PRIMARY_OWNER, ALREADY_OWNER}
              then upd_client c (own name) (upd_table (on_container_name_change name [] (ci_unique_name info)) mx1)
              else mx1)
       | Inl e \<Rightarrow> send_error_to_client E c msg FAILED (''RequestName failed: '' @ zbus_text e)
                  (mx1\<lparr>mx_name_queue := snd (release_name name c q)\<rparr>))"
    and "queue_of (snd (release_name name c q)) = queue_of (mx_name_queue mx)"
proof -
  let ?r = "request_name name c (ci_unique_name info) flags (mx_name_queue mx)"
  note facts = assms[unfolded takes_name_def]
  then have wf: "manager_wf (mx_name_queue mx)" by simp
  note ref = request_name_refines[OF wf, of name c "ci_unique_name info" flags]
  have code: "rn_reply_code (fst ?r) = PRIMARY_OWNER" "rn_forward_to_bus (fst ?r)"
    using facts ref by simp_all
  show thesis
  proof (rule that[of "snd ?r"])
    show "manager_wf (snd ?r)" by (intro manager_wf_ops wf)
    show "queue_of (snd ?r) = (queue_of (mx_name_queue mx))
        (name := flag_entry c (ci_unique_name info) flags # queue_of (mx_name_queue mx) name)"
      using ref taken_queue[OF assms] by simp
    show "queue_of (snd (release_name name c (snd ?r))) = queue_of (mx_name_queue mx)"
      by (rule nq.request_revert[OF wf code(2)])
  qed (use facts code in \<open>simp add: handle_request_name_def case_prod_unfold Let_def insert_iff
         cong: sum.case_cong if_cong\<close>)
qed

section \<open>Properties\<close>

text \<open>
  Names are owned by connected clients: in every reachable state, a client that stands in the
  queue of any name, as its owner or waiting, is connected, or its clean-up has not taken it out
  of the queues yet; the owner that the manager reports carries its unique name \<open>:mux.N\<close>.
\<close>

lemma queued_clients_are_present:
  assumes "reachable s" and "e \<in> set (queue_of (mx_name_queue (sys_mux s)) n)"
  shows "((\<exists>info. hm_get (mx_clients (sys_mux s)) (qe_client_id e) = Some info)
       \<or> (\<exists>t\<in>set (sys_tasks s). in_queues t \<and> task_client t = qe_client_id e))
     \<and> qe_unique_name e = mux_name (qe_client_id e)"
proof -
  have "e \<in> entries (mx_name_queue (sys_mux s))" using assms(2) by (auto simp: entries_def)
  then show ?thesis
    using reachable_own_inv[OF assms(1)] by (auto simp: own_inv_def present_def connected_def client_view_def)
qed

text \<open>A client that owns the name \<open>org.a\<close>, on a bus that answers with a given code.\<close>

definition owner_env :: "u32 \<Rightarrow> env" where
  "owner_env code = demo_env\<lparr>e_zbus := (e_zbus demo_env)\<lparr>de_string_u32 := (\<lambda>m. Inr (''org.a'', 0)), de_u32 := (\<lambda>m. Inr code)\<rparr>\<rparr>"

lemma owner_env_takes:
  "takes_name (owner_env code) 1 msg connected_mux ''org.a'' 0
     \<lparr>ci_unique_name = mux_name 1, ci_owned_names = [], ci_match_rules = client_match_rules_new, ci_credentials = demo_creds\<rparr>"
  by (simp add: takes_name_def owner_env_def connected_client spec_request_PRIMARY)
     (simp add: connected_mux_def register_client_def demo_mux_def)

lemma owner_env_calls [simp]:
  "e_call (owner_env code) r m = Inr sample_message" "de_u32 (e_zbus (owner_env code)) msg = Inr code"
  by (simp_all add: owner_env_def demo_env_def sample_env_def)

lemma queued_clients_are_present_witness:
  "\<exists>s e. reachable s \<and> e \<in> set (queue_of (mx_name_queue (sys_mux s)) ''org.a'')
     \<and> (\<exists>info. hm_get (mx_clients (sys_mux s)) (qe_client_id e) = Some info) \<and> qe_unique_name e = mux_name (qe_client_id e)"
proof -
  let ?msg = "daemon_call ''RequestName''"
  let ?mx = "handle_request_name (owner_env 1) 1 ?msg connected_mux"
  let ?s = "\<lparr>sys_mux = ?mx, sys_tasks = [], sys_next = 2\<rparr>"
  have "handle_client_message (owner_env 1) 1 ?msg connected_mux = ?mx"
    by (simp add: handle_client_message_def handle_dbus_method_def daemon_call_fields)
  then have r: "reachable ?s"
    using reachable.Step[OF connected_reachable sys_step.Loop[where E = "owner_env 1" and ev = "ClientMessage 1 ?msg"]]
    by simp
  obtain e where e: "e \<in> set (queue_of (mx_name_queue ?mx) ''org.a'')"
    by (rule take_name_state[OF owner_env_takes[of 1 ?msg]]) (auto simp: Let_def send_emit PRIMARY_OWNER_def)
  from queued_clients_are_present[OF r, of e "''org.a''"] e r show ?thesis
    by (intro exI[of _ ?s] exI[of _ e]) simp
qed

text \<open>
  C23. A granted name is routed to its client: when the queues make the client the owner and the
  bus confirms (as new or as present owner), then \<open>RequestName\<close> puts the client at the head of the
  queue of that name and leaves the other queues alone, routes the name and the unique name of
  the client to the container, records the name among the client's names, calls the bus once
  and answers \<open>PRIMARY_OWNER\<close>.
\<close>

theorem granted_name_is_routed:
  assumes "takes_name E c msg mx name flags info"
    and "e_call E Container (CallRequestName name flags) = Inr reply"
    and "de_u32 (e_zbus E) reply = Inr code" and "code = PRIMARY_OWNER \<or> code = ALREADY_OWNER"
    and "mx' = handle_request_name E c msg mx" and "\<not> starts_with name '':''" and "starts_with (ci_unique_name info) '':''"
  shows "queue_of (mx_name_queue mx') = (queue_of (mx_name_queue mx))
             (name := flag_entry c (ci_unique_name info) flags # queue_of (mx_name_queue mx) name)
     \<and> route_for (mx_table mx') name = Container \<and> route_for (mx_table mx') (ci_unique_name info) = Container
     \<and> (\<exists>info'. hm_get (mx_clients mx') c = Some info' \<and> name \<in> set (ci_owned_names info'))
     \<and> mx_effects mx' = mx_effects mx @ CallBus Container (CallRequestName name flags)
           # reply_effects E c msg (U32Body PRIMARY_OWNER) mx'"
proof -
  obtain q where q: "queue_of q = (queue_of (mx_name_queue mx))
             (name := flag_entry c (ci_unique_name info) flags # queue_of (mx_name_queue mx) name)"
    and mx': "mx' = send_reply_to_client E c msg (U32Body PRIMARY_OWNER)
      (upd_client c (own name) (upd_table (on_container_name_change name [] (ci_unique_name info))
        (emit [CallBus Container (CallRequestName name flags)] (mx\<lparr>mx_name_queue := q\<rparr>))))"
    by (rule take_name_state[OF assms(1)]) (use assms(2-5) in \<open>auto simp: Let_def\<close>)
  have "ci_unique_name info \<noteq> []" using assms(7) by auto
  then have route: "route_for (mx_table mx') name = Container" "route_for (mx_table mx') (ci_unique_name info) = Container"
    using assms(6,7) by (simp_all add: mx' send_emit route_for_well_known)
       (simp add: route_for_def route_for_unique_name_def registry_route_for_def registry_after_change)
  have "hm_get (mx_clients mx) c = Some info" using assms(1) by (simp add: takes_name_def)
  then show ?thesis
    using q route by (simp add: mx' send_emit own_def reply_effects_def)
qed

theorem granted_name_is_routed_witness:
  "route_for (mx_table (handle_request_name (owner_env 1) 1 (daemon_call ''RequestName'') connected_mux)) ''org.a'' = Container
   \<and> mx_effects (handle_request_name (owner_env 1) 1 (daemon_call ''RequestName'') connected_mux) \<noteq> mx_effects connected_mux"
  using granted_name_is_routed[OF owner_env_takes owner_env_calls(1) owner_env_calls(2) _ refl, of 1 "daemon_call ''RequestName''"]
  by (simp add: PRIMARY_OWNER_def mux_name_def)

text \<open>
  A request that fails on the bus changes nothing: the queues are restored, the routing table
  and the clients are untouched, and the client is told that the request failed.
\<close>

lemma failed_request_changes_nothing:
  assumes "takes_name E c msg mx name flags info"
    and "e_call E Container (CallRequestName name flags) = Inl e"
    and "mx' = handle_request_name E c msg mx"
  shows "queue_of (mx_name_queue mx') = queue_of (mx_name_queue mx)
     \<and> mx_table mx' = mx_table mx \<and> mx_clients mx' = mx_clients mx
     \<and> mx_effects mx' = mx_effects mx @ CallBus Container (CallRequestName name flags)
           # error_effects E c msg FAILED (''RequestName failed: '' @ zbus_text e) mx"
  by (rule take_name_state[OF assms(1)])
     (use assms(2,3) in \<open>simp add: Let_def send_emit error_effects_def\<close>)

lemma failed_request_changes_nothing_witness:
  "let E = (owner_env 1)\<lparr>e_call := (\<lambda>r m. Inl (OtherZbusError ''no bus''))\<rparr>
   in queue_of (mx_name_queue (handle_request_name E 1 (daemon_call ''RequestName'') connected_mux)) ''org.a'' = []"
proof -
  let ?E = "(owner_env 1)\<lparr>e_call := (\<lambda>r m. Inl (OtherZbusError ''no bus''))\<rparr>"
  have "takes_name ?E 1 (daemon_call ''RequestName'') connected_mux ''org.a'' 0
     \<lparr>ci_unique_name = mux_name 1, ci_owned_names = [], ci_match_rules = client_match_rules_new, ci_credentials = demo_creds\<rparr>"
    using owner_env_takes[of 1 "daemon_call ''RequestName''"] by (simp add: takes_name_def)
  from failed_request_changes_nothing[OF this _ refl] show ?thesis
    by (simp add: Let_def connected_mux_def register_client_def demo_mux_def)
qed

text \<open>
  C28. The code of the bus is not passed on: when the bus answers that the name belongs to someone
  else on the container bus (\<open>EXISTS\<close>) or that the multiplexer waits for it (\<open>IN_QUEUE\<close>), the
  client is told \<open>PRIMARY_OWNER\<close> all the same and heads the queue as the owner of the name, while
  the routing table and the names recorded for the client say that it does not own it.
\<close>

theorem refused_name_reported_as_owned:
  assumes "takes_name E c msg mx name flags info"
    and "e_call E Container (CallRequestName name flags) = Inr reply"
    and "de_u32 (e_zbus E) reply = Inr code" and "code = EXISTS \<or> code = IN_QUEUE"
    and "mx' = handle_request_name E c msg mx"
  shows "get_primary_owner name (mx_name_queue mx') = Some (c, ci_unique_name info)
     \<and> mx_table mx' = mx_table mx \<and> mx_clients mx' = mx_clients mx
     \<and> mx_effects mx' = mx_effects mx @ CallBus Container (CallRequestName name flags)
           # reply_effects E c msg (U32Body PRIMARY_OWNER) mx"
proof -
  have "code \<noteq> PRIMARY_OWNER \<and> code \<noteq> ALREADY_OWNER"
    using assms(4) by (auto simp: EXISTS_def IN_QUEUE_def PRIMARY_OWNER_def ALREADY_OWNER_def)
  then have code: "code \<noteq> PRIMARY_OWNER" "code \<noteq> ALREADY_OWNER" by simp_all
  show ?thesis
    by (rule take_name_state[OF assms(1)])
       (use assms(2,3,5) code in \<open>simp add: Let_def send_emit reply_effects_def observers_queue_of owner_info_def flag_entry_def\<close>)
qed

theorem refused_name_reported_as_owned_witness:
  "get_primary_owner ''org.a'' (mx_name_queue (handle_request_name (owner_env EXISTS) 1 (daemon_call ''RequestName'') connected_mux))
     = Some (1, mux_name 1)
   \<and> reply_effects (owner_env EXISTS) 1 (daemon_call ''RequestName'') (U32Body PRIMARY_OWNER) connected_mux \<noteq> []"
proof -
  have "reply_effects (owner_env EXISTS) 1 (daemon_call ''RequestName'') (U32Body PRIMARY_OWNER) connected_mux \<noteq> []"
    by (simp add: reply_effects_def connected_client mrb_build_def owner_env_def demo_env_def sample_env_def
        sample_api_def method_return_builder_new_def mrb_set_destination_def with_destination_def)
  with refused_name_reported_as_owned[OF owner_env_takes owner_env_calls(1) owner_env_calls(2) _ refl, of EXISTS "daemon_call ''RequestName''"]
  show ?thesis by simp
qed

end
