(* ===== verification/Mux_Answers.thy ===== *)
theory Mux_Answers
  imports Mux_Ownership
begin

text \<open>
  What a client gets back for a method call: each call to the bus daemon that the multiplexer
  handles itself is answered exactly once, and every other call is either forwarded and recorded
  as pending, or answered with an error.
\<close>

section \<open>Answers\<close>

text \<open>The messages handed to clients, in order.\<close>

fun answer_of :: "effect \<Rightarrow> (client_id \<times> message) list" where
  "answer_of (SendClient c m) = [(c, m)]"
| "answer_of _ = []"

definition answers :: "effect list \<Rightarrow> (client_id \<times> message) list" where
  "answers effs = concat (map answer_of effs)"

lemma answers_simps [simp]:
  "answers [] = []" "answers (e # effs) = answer_of e @ answers effs" "answers (a @ b) = answers a @ answers b"
  by (simp_all add: answers_def)

text \<open>
  The builders of zbus succeed for replies to this call: the client's unique name and the error
  names of the multiplexer are valid bus names.
\<close>

definition answerable :: "env \<Rightarrow> string \<Rightarrow> message \<Rightarrow> bool" where
  "answerable E u msg \<longleftrightarrow> builder_laws (e_zbus E)
     \<and> (\<forall>body. \<exists>m. mrb_build (e_zbus E) (mrb_set_destination u (method_return_builder_new msg)) body = Inr m)
     \<and> (\<forall>name text. \<exists>m. eb_build (e_zbus E) (eb_set_destination u (error_builder_new msg name)) text = Inr m)"

definition answer_to :: "string \<Rightarrow> message \<Rightarrow> message \<Rightarrow> bool" where
  "answer_to u msg m \<longleftrightarrow> (is_method_return m \<or> is_error m)
     \<and> h_reply_serial m = Some (h_serial msg) \<and> h_destination m = Some u"

text \<open>Steps of a handler before it answers: no message to a client, the caller stays, nothing is forwarded.\<close>

definition working :: "client_id \<Rightarrow> string \<Rightarrow> multiplexer \<Rightarrow> multiplexer \<Rightarrow> bool" where
  "working c u mx mx' \<longleftrightarrow>
     (\<exists>effs. mx_effects mx' = mx_effects mx @ effs \<and> answers effs = [])
     \<and> map_option ci_unique_name (hm_get (mx_clients mx') c) = Some u
     \<and> rt_serial_map (mx_router mx') = rt_serial_map (mx_router mx)"

definition answered :: "client_id \<Rightarrow> string \<Rightarrow> message \<Rightarrow> multiplexer \<Rightarrow> multiplexer \<Rightarrow> bool" where
  "answered c u msg mx mx' \<longleftrightarrow>
     (\<exists>effs m. mx_effects mx' = mx_effects mx @ effs \<and> answers effs = [(c, m)] \<and> answer_to u msg m)
     \<and> rt_serial_map (mx_router mx') = rt_serial_map (mx_router mx)"

lemma working_refl [intro]: "hm_get (mx_clients mx) c = Some info \<Longrightarrow> ci_unique_name info = u \<Longrightarrow> working c u mx mx"
  by (simp add: working_def)

lemma working_steps:
  "working c u mx mx' \<Longrightarrow> working c u mx (upd_table f mx')"
  "working c u mx mx' \<Longrightarrow> working c u mx (mx'\<lparr>mx_name_queue := q\<rparr>)"
  "working c u mx mx' \<Longrightarrow> working c u mx (mx'\<lparr>mx_refcount := rc\<rparr>)"
  "working c u mx mx' \<Longrightarrow> working c u mx (emit [CallBus r call] mx')"
  "working c u mx mx' \<Longrightarrow> (\<And>i. ci_unique_name (g i) = ci_unique_name i) \<Longrightarrow> working c u mx (upd_client d g mx')"
  "working c u mx mx' \<Longrightarrow> working c u mx (subscribe_on r bus rule mx')"
  "working c u mx mx' \<Longrightarrow> working c u mx (unsubscribe_on r bus rule mx')"
  by (auto simp: working_def subscribe_on_def unsubscribe_on_def case_prod_unfold Let_def option.map_comp comp_def)

lemma working_bus_calls:
  "working c u mx mx' \<Longrightarrow> working c u mx (emit (snd (list_activatable_names E r)) mx')"
  "working c u mx mx' \<Longrightarrow> working c u mx (emit (snd (get_name_owner E r n)) mx')"
  by (auto simp: list_activatable_names_def get_name_owner_def call_and_read_def intro!: working_steps(4)
      split: sum.splits zbus_error.splits)

lemma answered_reply:
  assumes "answerable E u msg" and "working c u mx mx'"
  shows "answered c u msg mx (send_reply_to_client E c msg body mx')"
proof -
  obtain m where m: "mrb_build (e_zbus E) (mrb_set_destination u (method_return_builder_new msg)) body = Inr m"
    using assms(1) unfolding answerable_def by blast
  have "answer_to u msg m"
    using mrb_build_fields[OF _ m] assms(1) by (simp add: answer_to_def is_method_return_def answerable_def)
  with m assms(2) show ?thesis
    by (auto simp: answered_def working_def send_reply_to_client_def)
qed

lemma answered_error:
  assumes "answerable E u msg" and "working c u mx mx'"
  shows "answered c u msg mx (send_error_to_client E c msg name text mx')"
proof -
  obtain m where m: "eb_build (e_zbus E) (eb_set_destination u (error_builder_new msg name)) text = Inr m"
    using assms(1) unfolding answerable_def by blast
  have "answer_to u msg m"
    using eb_build_fields[OF _ m] assms(1) by (simp add: answer_to_def is_error_def answerable_def)
  with m assms(2) show ?thesis
    by (auto simp: answered_def working_def send_error_to_client_def)
qed

lemma answered_invalid:
  "answerable E u msg \<Longrightarrow> working c u mx mx' \<Longrightarrow> answered c u msg mx (invalid_args E c msg e mx')"
  by (simp add: invalid_args_def answered_error)

lemmas answered_intros = answered_reply answered_error answered_invalid

section \<open>Every handler answers\<close>

lemma answered_by_answers:
  assumes "answerable E u msg" and "hm_get (mx_clients mx) c = Some info" and "ci_unique_name info = u"
  shows "answered c u msg mx (handle_list_names E c msg mx)"
    "answered c u msg mx (handle_list_activatable_names E c msg mx)"
    "answered c u msg mx (handle_get_name_owner E c msg mx)" "answered c u msg mx (handle_name_has_owner E c msg mx)"
    "answered c u msg mx (handle_get_id E c msg mx)" "answered c u msg mx (handle_ping E c msg mx)"
    "answered c u msg mx (handle_get_machine_id E c msg mx)"
    "answered c u msg mx (handle_get_connection_unix_user E c msg mx)"
    "answered c u msg mx (handle_get_connection_unix_process_id E c msg mx)"
    "answered c u msg mx (handle_get_connection_credentials E c msg mx)"
    "answered c u msg mx (handle_list_queued_owners E c msg mx)" "answered c u msg mx (handle_introspect E c msg mx)"
    "answered c u msg mx (handle_get_all E c msg mx)"
  unfolding answer_defs case_prod_unfold Let_def
  using working_refl[OF assms(2,3)]
  by (auto intro!: answered_intros[OF assms(1)] intro: working_bus_calls split: sum.splits option.splits)

lemma answered_hello:
  assumes "answerable E u msg" and "hm_get (mx_clients mx) c = Some info" and "ci_unique_name info = u"
  shows "answered c u msg mx (handle_hello E c msg mx)"
proof -
  have "handle_hello E c msg mx = send_reply_to_client E c msg (StrBody u) mx"
    using assms(2,3) by (simp add: hello_emit send_emit)
  then show ?thesis using assms by (auto intro!: answered_reply)
qed

lemma answered_names:
  assumes "answerable E u msg" and "hm_get (mx_clients mx) c = Some info" and "ci_unique_name info = u"
  shows "answered c u msg mx (handle_request_name E c msg mx)" "answered c u msg mx (handle_release_name E c msg mx)"
  unfolding handle_request_name_def handle_release_name_def case_prod_unfold Let_def
  using working_refl[OF assms(2,3)] assms(2) unfolding assms(3)[symmetric]
  by (auto intro!: answered_intros[OF assms(1)[folded assms(3)]] working_steps split: sum.splits option.splits)

lemma answered_matches:
  assumes "answerable E u msg" and "hm_get (mx_clients mx) c = Some info" and "ci_unique_name info = u"
  shows "answered c u msg mx (handle_add_match E c msg mx)" "answered c u msg mx (handle_remove_match E c msg mx)"
proof -
  show "answered c u msg mx (handle_add_match E c msg mx)"
    unfolding handle_add_match_def Let_def
    using working_refl[OF assms(2,3)] by (auto intro!: answered_intros[OF assms(1)] working_steps split: sum.splits)
  have "working c u mx (mx\<lparr>mx_clients := hm_insert c (info\<lparr>ci_match_rules := r\<rparr>) (mx_clients mx)\<rparr>)" for r
    using assms(3) by (simp add: working_def)
  then show "answered c u msg mx (handle_remove_match E c msg mx)"
    unfolding handle_remove_match_def case_prod_unfold Let_def
    using working_refl[OF assms(2,3)] assms(2)
    by (auto intro!: answered_intros[OF assms(1)] working_steps(6,7) split: sum.splits)
qed

section \<open>Forwarding\<close>

text \<open>
  A call that is under way: sent once on the bus, no message to a client, and recorded under the
  serial it was sent with, for the caller and the serial the caller used.
\<close>

definition forwarded :: "env \<Rightarrow> client_id \<Rightarrow> message \<Rightarrow> route \<Rightarrow> multiplexer \<Rightarrow> multiplexer \<Rightarrow> bool" where
  "forwarded E c msg route mx mx' \<longleftrightarrow>
     (\<exists>fm. clone_message_with_serial (e_zbus E) msg (next_on (mx_router mx) route) = Inr fm
        \<and> e_send E route fm = Inr () \<and> mx_effects mx' = mx_effects mx @ [SendBus route fm]
        \<and> sm_entry (rt_serial_map (mx_router mx')) (route, h_serial fm) = Some ((c, h_serial msg), e_now E)
        \<and> next_on (mx_router mx') route = succ_serial (h_serial fm) \<and> mx_clients mx' = mx_clients mx)"

lemma forward_outcome:
  assumes "wire_laws (e_zbus E)" and "hm_get (mx_clients mx) c = Some info" and "ci_unique_name info = u"
    and "forward E c msg route mx = (res, mx')"
  shows "(\<exists>x. res = Inr x) \<and> forwarded E c msg route mx mx' \<or> (\<exists>e. res = Inl e) \<and> working c u mx mx'"
proof -
  obtain effs r where f: "forward_method_call E c msg route (mx_router mx) = (res, effs, r)"
    and mx': "mx' = emit effs (mx\<lparr>mx_router := r\<rparr>)"
    using assms(4) by (auto simp: forward_def split: prod.splits)
  from f show ?thesis
  proof (cases rule: forward_cases)
    case (Sent fm)
    then show ?thesis
      using clone_message_serial[OF assms(1) Sent(1)] forward_next_on[OF f, of route]
      by (auto simp: forwarded_def mx' sm_entry_insert)
  qed (use assms(2,3) in \<open>auto simp: working_def mx'\<close>)
qed

lemma answered_if:
  "(q \<Longrightarrow> P a) \<Longrightarrow> (\<not> q \<Longrightarrow> P b) \<Longrightarrow> P (if q then a else b)"
  by simp

definition local_methods :: "string list" where
  "local_methods = [''Hello'', ''RequestName'', ''ReleaseName'', ''ListNames'', ''ListActivatableNames'', ''GetNameOwner'',
     ''NameHasOwner'', ''GetId'', ''Ping'', ''GetMachineId'', ''GetConnectionUnixUser'', ''GetConnectionUnixProcessID'',
     ''GetConnectionCredentials'', ''ListQueuedOwners'', ''AddMatch'', ''RemoveMatch'', ''Introspect'', ''GetAll'']"

lemma local_method_answered:
  assumes "answerable E u msg" and "hm_get (mx_clients mx) c = Some info" and "ci_unique_name info = u"
    and "member_str msg = Some n" and "n \<in> set local_methods"
  shows "answered c u msg mx (handle_dbus_method E c msg mx)"
  unfolding handle_dbus_method_def assms(4) Let_def option.case
  by (intro answered_if[where P = "answered c u msg mx"]
      answered_by_answers[OF assms(1-3)] answered_hello[OF assms(1-3)] answered_names[OF assms(1-3)]
      answered_matches[OF assms(1-3)])
     (use assms(5) in \<open>simp add: local_methods_def\<close>)

section \<open>Properties\<close>

text \<open>
  Every call to the bus daemon is answered: a method call of a connected client to one of the
  methods that the multiplexer implements leads to exactly one message to a client, which goes
  to the caller, is a reply or an error, refers to the serial of the call and is addressed to
  the unique name of the caller; whatever the arguments are and whatever the buses answer. The
  table of pending calls is not touched.
\<close>

lemma every_daemon_call_is_answered:
  assumes "answerable E (ci_unique_name info) msg" and "hm_get (mx_clients mx) c = Some info"
    and "is_dbus_daemon_call msg" and "is_method_call msg" and "member_str msg = Some n" and "n \<in> set local_methods"
    and "mx' = handle_client_message E c msg mx"
  shows "(\<exists>effs m. mx_effects mx' = mx_effects mx @ effs \<and> answers effs = [(c, m)]
            \<and> (is_method_return m \<or> is_error m) \<and> h_reply_serial m = Some (h_serial msg)
            \<and> h_destination m = Some (ci_unique_name info))
     \<and> rt_serial_map (mx_router mx') = rt_serial_map (mx_router mx)"
  using local_method_answered[OF assms(1,2) refl assms(5,6)] assms(3,4,7)
  by (simp add: handle_client_message_def answered_def answer_to_def)

lemma demo_laws: "builder_laws (e_zbus demo_env)" "wire_laws (e_zbus demo_env)"
proof -
  have "builder_laws (sample_api\<lparr>de_string := f, de_strings := g\<rparr>) = builder_laws sample_api"
    "wire_laws (sample_api\<lparr>de_string := f, de_strings := g\<rparr>) = wire_laws sample_api" for f g
    by (simp_all add: builder_laws_def wire_laws_def)
  then show "builder_laws (e_zbus demo_env)" "wire_laws (e_zbus demo_env)"
    by (simp_all add: demo_env_def sample_api_builder_laws sample_api_wire_laws)
qed

lemma demo_answerable: "answerable demo_env u msg"
proof -
  have "\<exists>m. mrb_build (e_zbus demo_env) (mrb_set_destination u (method_return_builder_new msg)) body = Inr m" for body
    by (simp add: mrb_build_def method_return_builder_new_def mrb_set_destination_def with_destination_def
        demo_env_def sample_env_def sample_api_def)
  moreover have "\<exists>m. eb_build (e_zbus demo_env) (eb_set_destination u (error_builder_new msg name)) t = Inr m" for name t
    by (simp add: eb_build_def error_builder_new_def eb_set_destination_def with_destination_def
        demo_env_def sample_env_def sample_api_def)
  ultimately show ?thesis using demo_laws(1) by (simp add: answerable_def)
qed

lemma every_daemon_call_is_answered_witness:
  "\<exists>effs m. mx_effects (handle_client_message demo_env 1 (daemon_call ''GetNameOwner'') connected_mux) = mx_effects connected_mux @ effs
     \<and> answers effs = [(1, m)]"
proof -
  have "''GetNameOwner'' \<in> set local_methods" by (simp add: local_methods_def)
  from every_daemon_call_is_answered[OF demo_answerable connected_client daemon_call_fields(2) daemon_call_fields(1)
      daemon_call_fields(3) this refl] show ?thesis by blast
qed

lemma answered_or_forwarded:
  assumes "answerable E (ci_unique_name info) msg" and "wire_laws (e_zbus E)" and "hm_get (mx_clients mx) c = Some info"
    and "is_method_call msg" and "mx' = handle_client_message E c msg mx"
  shows "answered c (ci_unique_name info) msg mx mx' \<or> (\<exists>route. forwarded E c msg route mx mx')"
proof -
  have fwd: "answered c (ci_unique_name info) msg mx mx1 \<or> (\<exists>route. forwarded E c msg route mx mx1)"
    if "mx1 = (case forward E c msg route mx of (Inr _, mx2) \<Rightarrow> mx2 | (Inl e, mx2) \<Rightarrow> send_error_to_client E c msg name (t e) mx2)"
    for mx1 route name t
    using forward_outcome[OF assms(2,3) refl prod.collapse[symmetric], of msg route] that
    by (auto simp: case_prod_unfold intro: answered_error[OF assms(1)])
  show ?thesis
  proof (cases "is_dbus_daemon_call msg")
    case True
    let ?n = "case member_str msg of Some s \<Rightarrow> s | None \<Rightarrow> []"
    show ?thesis
    proof (cases "?n \<in> set local_methods")
      case local: True
      then have "member_str msg = Some ?n" by (cases "member_str msg") (auto simp: local_methods_def)
      from local_method_answered[OF assms(1,3) refl this local] True assms(4,5) show ?thesis
        by (simp add: handle_client_message_def)
    next
      case False
      then have "mx' = (case forward E c msg Container mx of (Inr _, mx2) \<Rightarrow> mx2
          | (Inl e, mx2) \<Rightarrow> send_error_to_client E c msg UNKNOWN_METHOD (''Unknown method: '' @ ?n) mx2)"
        using True assms(4,5) by (simp add: handle_client_message_def handle_dbus_method_def local_methods_def Let_def)
      then show ?thesis by (rule fwd)
    qed
  next
    case False
    then show ?thesis
      using assms(4,5) by (intro fwd[where name = FAILED and t = "\<lambda>e. ''Failed to forward: '' @ display_error e"])
        (simp add: handle_client_message_def Let_def)
  qed
qed



end
