(* ===== verification/Mux_Delivery.thy ===== *)
theory Mux_Delivery
  imports Mux_Answers
begin

text \<open>
  What reaches a client from the buses: the reply to a forwarded call, across anything the
  system does in between; signals, to exactly the clients whose rules match; portal responses,
  to the client that made the request.
\<close>

section \<open>Handlers that leave the pending calls alone\<close>

definition same_calls :: "multiplexer \<Rightarrow> multiplexer \<Rightarrow> bool" where
  "same_calls mx mx' \<longleftrightarrow> connection_for (mx_router mx') = connection_for (mx_router mx)
     \<and> rt_serial_map (mx_router mx') = rt_serial_map (mx_router mx)"

lemma same_calls_refl [simp, intro]: "same_calls mx mx"
  by (simp add: same_calls_def)

lemma connection_for_table [simp]: "connection_for (r\<lparr>rt_routing_table := t\<rparr>) = connection_for r"
  by (simp add: connection_for_def fun_eq_iff split: route.splits)

lemma same_calls_steps:
  "same_calls mx mx' \<Longrightarrow> same_calls mx (emit effs mx')"
  "same_calls mx mx' \<Longrightarrow> same_calls mx (upd_table f mx')"
  "same_calls mx mx' \<Longrightarrow> same_calls mx (upd_client c g mx')"
  "same_calls mx mx' \<Longrightarrow> same_calls mx (mx'\<lparr>mx_name_queue := q\<rparr>)"
  "same_calls mx mx' \<Longrightarrow> same_calls mx (mx'\<lparr>mx_clients := cs\<rparr>)"
  "same_calls mx mx' \<Longrightarrow> same_calls mx (mx'\<lparr>mx_portal_requests := p\<rparr>)"
  "same_calls mx mx' \<Longrightarrow> same_calls mx (subscribe_on r bus rule mx')"
  "same_calls mx mx' \<Longrightarrow> same_calls mx (unsubscribe_on r bus rule mx')"
  by (simp_all add: same_calls_def) (simp add: upd_table_def)

lemma same_calls_handlers:
  "same_calls mx (handle_request_name E c msg mx)" "same_calls mx (handle_release_name E c msg mx)"
  "same_calls mx (handle_add_match E c msg mx)" "same_calls mx (handle_remove_match E c msg mx)"
  unfolding handle_request_name_def handle_release_name_def handle_add_match_def handle_remove_match_def
    send_emit case_prod_unfold Let_def
  by (auto intro!: same_calls_steps split: sum.splits option.splits)

lemma same_calls_signal: "same_calls mx (handle_bus_signal E msg route mx)"
  unfolding handle_bus_signal_def deliver_signal_def case_prod_unfold Let_def
  by (auto intro!: same_calls_steps split: option.splits)

lemma same_calls_release_rules: "same_calls mx mx' \<Longrightarrow> same_calls mx (release_rules rules mx')"
  unfolding release_rules_def
  by (induction rules arbitrary: mx') (simp_all add: release_rule_def same_calls_steps)

lemma same_calls_cleanup: "same_calls mx (snd (cleanup_step t mx))"
  by (cases "(t, mx)" rule: cleanup_step.cases)
     (auto simp: drop_portal_requests_def leave_queues_def hand_over_def release_owned_def case_prod_unfold Let_def
       intro!: same_calls_steps same_calls_release_rules split: option.splits)

section \<open>Anything that may happen between a call and its reply\<close>

text \<open>
  One thing the system does: the loop handles an event, a client is registered, a client is
  taken out of the client map, or one section of a clean-up runs.
\<close>

datatype happening =
    Handle env event
  | Join client_id client_credentials
  | Leave client_id
  | Clean_up cleanup

fun happens :: "happening \<Rightarrow> multiplexer \<Rightarrow> error + multiplexer" where
  "happens (Handle E ev) mx = run_step E ev mx"
| "happens (Join d creds) mx = Inr (register_client d (mux_name d) creds mx)"
| "happens (Leave d) mx = Inr (snd (unregister_client d mx))"
| "happens (Clean_up t) mx = Inr (snd (cleanup_step t mx))"

fun happen_all :: "happening list \<Rightarrow> multiplexer \<Rightarrow> error + multiplexer" where
  "happen_all [] mx = Inr mx"
| "happen_all (h # hs) mx = (case happens h mx of Inl e \<Rightarrow> Inl e | Inr mx' \<Rightarrow> happen_all hs mx')"

definition call_entry :: "multiplexer \<Rightarrow> route \<Rightarrow> u32 \<Rightarrow> ((client_id \<times> u32) \<times> instant) option" where
  "call_entry mx route s = sm_entry (rt_serial_map (mx_router mx)) (route, s)"

definition call_timeout :: "multiplexer \<Rightarrow> duration" where
  "call_timeout mx = sm_timeout (rt_serial_map (mx_router mx))"

text \<open>
  What may not happen to a pending call: its reply, a clean-up after its time is over, and its
  caller's leaving (or another client's joining under the caller's id).
\<close>

fun spares :: "route \<Rightarrow> u32 \<Rightarrow> instant \<Rightarrow> duration \<Rightarrow> client_id \<Rightarrow> happening \<Rightarrow> bool" where
  "spares route s at ttl c (Handle E (BusItem r (Some (Inr msg)))) =
     (\<not> (r = route \<and> h_reply_serial msg = Some s \<and> (is_method_return msg \<or> is_error msg)))"
| "spares route s at ttl c (Handle E Tick) = (e_now E - at < ttl)"
| "spares route s at ttl c (Handle E ev) = True"
| "spares route s at ttl c (Join d creds) = (d \<noteq> c)"
| "spares route s at ttl c (Leave d) = (d \<noteq> c)"
| "spares route s at ttl c (Clean_up t) = True"

lemma same_calls_entry:
  assumes "same_calls mx mx'"
  shows "call_entry mx' route s = call_entry mx route s" "call_timeout mx' = call_timeout mx"
    "next_on (mx_router mx') route = next_on (mx_router mx) route"
  using assms by (simp_all add: same_calls_def call_entry_def call_timeout_def next_on_def)

text \<open>The serial that comes next on a route stays or advances by one.\<close>

definition advances :: "route \<Rightarrow> multiplexer \<Rightarrow> multiplexer \<Rightarrow> bool" where
  "advances route mx mx' \<longleftrightarrow> next_on (mx_router mx') route = next_on (mx_router mx) route
     \<or> next_on (mx_router mx') route = succ_serial (next_on (mx_router mx) route)"

definition keeps_call :: "route \<Rightarrow> u32 \<Rightarrow> multiplexer \<Rightarrow> multiplexer \<Rightarrow> bool" where
  "keeps_call route s mx mx' \<longleftrightarrow>
     (\<forall>x. call_entry mx route s = Some x \<longrightarrow> s \<noteq> next_on (mx_router mx) route \<longrightarrow> call_entry mx' route s = Some x)
     \<and> call_timeout mx' = call_timeout mx \<and> advances route mx mx'"

lemma keeps_same: "same_calls mx mx' \<Longrightarrow> keeps_call route s mx mx'"
  by (simp add: keeps_call_def same_calls_entry advances_def)

lemma keeps_quiet: "keeps_call route s mx mx' \<Longrightarrow> quiet mx' mx'' \<Longrightarrow> keeps_call route s mx mx''"
  by (auto simp: keeps_call_def quiet_def call_entry_def call_timeout_def advances_def)

lemma keeps_forward: "keeps_call route s mx (snd (forward E c msg a mx))"
proof -
  obtain res effs r where f: "forward_method_call E c msg a (mx_router mx) = (res, effs, r)" by (metis prod_cases3)
  have "sm_timeout (rt_serial_map r) = sm_timeout (rt_serial_map (mx_router mx))"
    using f by (cases rule: forward_cases) (simp_all add: serial_map_insert_def)
  then show ?thesis
    using forward_keeps_entry[OF f] forward_next_on[OF f, of route]
    by (auto simp: keeps_call_def forward_def f call_entry_def call_timeout_def advances_def)
qed

lemma keeps_client_message: "keeps_call route s mx (handle_client_message E c msg mx)"
  using client_message_outcome[of E c msg mx]
proof (cases rule: client_outcome.cases)
  case Quiet
  then show ?thesis by (rule keeps_quiet[OF keeps_same[OF same_calls_refl]])
next
  case (Forward a)
  then show ?thesis by (rule keeps_quiet[OF keeps_forward])
qed (simp_all add: keeps_same same_calls_handlers)

lemma router_bus_reply: "mx_router (handle_bus_reply E msg route mx) = snd (handle_reply msg route (mx_router mx))"
  by (auto simp: handle_bus_reply_def case_prod_unfold Let_def split: sum.splits option.splits)

lemma handle_reply_router:
  "connection_for (snd (handle_reply msg a r)) = connection_for r"
  "sm_timeout (rt_serial_map (snd (handle_reply msg a r))) = sm_timeout (rt_serial_map r)"
  by (auto simp: handle_reply_def serial_map_remove_def case_prod_unfold Let_def fun_eq_iff split: option.splits)

lemma keeps_bus_reply:
  assumes "\<not> (a = route \<and> h_reply_serial msg = Some s)"
  shows "keeps_call route s mx (handle_bus_reply E msg a mx)"
proof -
  have "sm_entry (rt_serial_map (snd (handle_reply msg a (mx_router mx)))) (route, s) = sm_entry (rt_serial_map (mx_router mx)) (route, s)"
    using assms handle_reply_entry(2)[of msg _ a "mx_router mx" "(route, s)"]
    by (cases "h_reply_serial msg") (auto simp: handle_reply_def reply_serial_def)
  then show ?thesis
    by (simp add: keeps_call_def call_entry_def call_timeout_def router_bus_reply handle_reply_router advances_def next_on_def)
qed

lemma keeps_bus_message:
  assumes "\<not> (a = route \<and> h_reply_serial msg = Some s \<and> (is_method_return msg \<or> is_error msg))"
  shows "keeps_call route s mx (handle_bus_message E msg a mx)"
proof (cases "is_name_owner_changed msg")
  case True
  then show ?thesis
    by (auto simp: handle_bus_message_def intro!: keeps_same same_calls_steps split: sum.splits route.splits)
next
  case False
  show ?thesis
  proof (cases "is_signal msg")
    case True
    then have "\<not> is_method_return msg" "\<not> is_error msg" by (simp_all add: mux_simps)
    with False True show ?thesis by (simp add: handle_bus_message_def keeps_same same_calls_signal)
  next
    case no: False
    with False assms show ?thesis by (auto simp: handle_bus_message_def keeps_bus_reply intro: keeps_same)
  qed
qed

lemma tick_call:
  assumes "mux_wf mx" and "call_entry mx route s = Some (x, at)" and "e_now E - at < call_timeout mx"
  shows "call_entry (periodic_cleanup E mx) route s = Some (x, at)"
    and "call_timeout (periodic_cleanup E mx) = call_timeout mx" and "advances route mx (periodic_cleanup E mx)"
proof -
  let ?m = "rt_serial_map (mx_router mx)"
  have map: "rt_serial_map (mx_router (periodic_cleanup E mx)) = snd (serial_map_cleanup_expired (e_now E) ?m)"
    and conn: "connection_for (mx_router (periodic_cleanup E mx)) = connection_for (mx_router mx)"
    by (simp_all add: periodic_cleanup_def router_cleanup_expired_def case_prod_unfold Let_def fun_eq_iff)
  have "sm_wf ?m" using assms(1) by (simp add: mux_wf_def)
  from sm.entry_expr[OF this, of "e_now E" "(route, s)"] assms(2,3)
  show "call_entry (periodic_cleanup E mx) route s = Some (x, at)"
    by (simp add: call_entry_def call_timeout_def map)
  show "call_timeout (periodic_cleanup E mx) = call_timeout mx"
    using sm.ttl_ops(3)[of "e_now E" ?m] by (simp add: call_timeout_def map)
  show "advances route mx (periodic_cleanup E mx)" by (simp add: advances_def next_on_def conn)
qed

text \<open>The caller of a pending call, under its unique name.\<close>

definition caller_there :: "client_id \<Rightarrow> string \<Rightarrow> multiplexer \<Rightarrow> bool" where
  "caller_there c u mx = (map_option ci_unique_name (hm_get (mx_clients mx) c) = Some u)"

lemma caller_view: "caller_there c u mx \<longleftrightarrow> map_option fst (client_view (mx_clients mx) c) = Some u"
  by (simp add: caller_there_def client_view_def option.map_comp comp_def)

text \<open>Everything that spares a call keeps it, its caller and the distance to the next use of its serial.\<close>

lemma happens_spares:
  assumes "happens h mx = Inr mx'" and "mux_wf mx" and "spares route s at (call_timeout mx) c h"
    and "call_entry mx route s = Some ((c, cs), at)" and "s \<noteq> next_on (mx_router mx) route" and "caller_there c u mx"
  shows "mux_wf mx' \<and> call_entry mx' route s = Some ((c, cs), at) \<and> call_timeout mx' = call_timeout mx
     \<and> advances route mx mx' \<and> caller_there c u mx'"
proof (cases h)
  case (Handle E ev)
  then have run: "run_step E ev mx = Inr mx'" using assms(1) by simp
  have wf: "mux_wf mx'" by (rule mux_wf_run_step[OF assms(2) run])
  show ?thesis
  proof (cases ev)
    case (ClientMessage d msg)
    then have mx': "mx' = handle_client_message E d msg mx" using run by simp
    then show ?thesis
      using wf keeps_client_message[of route s mx E d msg] assms(4-6) views_client_message[of E d msg mx c]
      by (simp add: keeps_call_def caller_view)
  next
    case Tick
    then have mx': "mx' = periodic_cleanup E mx" using run by simp
    have "e_now E - at < call_timeout mx" using assms(3) Handle Tick by simp
    from tick_call[OF assms(2,4) this] show ?thesis using wf assms(6) by (simp add: mx' caller_there_def)
  next
    case (BusItem r item)
    then obtain msg where item: "item = Some (Inr msg)" and mx': "mx' = handle_bus_message E msg r mx"
      using run by (auto simp: bus_recv_def split: option.splits sum.splits)
    have "\<not> (r = route \<and> h_reply_serial msg = Some s \<and> (is_method_return msg \<or> is_error msg))"
      using assms(3) Handle BusItem item by simp
    from keeps_bus_message[OF this, of mx E] show ?thesis
      using wf assms(4-6) by (simp add: mx' keeps_call_def caller_there_def)
  qed
next
  case (Join d creds)
  then have mx': "mx' = register_client d (mux_name d) creds mx" and "d \<noteq> c" using assms(1,3) by simp_all
  moreover have "same_calls mx mx'" unfolding mx' register_client_def by (intro same_calls_steps same_calls_refl)
  ultimately show ?thesis
    using assms(2,4,6) by (simp add: same_calls_entry mux_wf_register advances_def caller_there_def) (simp add: register_client_def)
next
  case (Leave d)
  then have mx': "mx' = snd (unregister_client d mx)" and "d \<noteq> c" using assms(1,3) by simp_all
  moreover have "same_calls mx mx'"
    unfolding mx' unregister_client_def by (auto intro!: same_calls_steps split: option.splits)
  moreover have "mux_wf mx'" using mux_wf_unregister[OF assms(2) prod.collapse[symmetric], of d] mx' by simp
  moreover have "hm_get (mx_clients mx') c = hm_get (mx_clients mx) c"
    using \<open>d \<noteq> c\<close> by (auto simp: mx' unregister_client_def split: option.splits)
  ultimately show ?thesis
    using assms(4,6) by (simp add: same_calls_entry advances_def caller_there_def)
next
  case (Clean_up t)
  then have mx': "mx' = snd (cleanup_step t mx)" using assms(1) by simp
  then have "same_calls mx mx'" by (simp add: same_calls_cleanup)
  moreover have "mux_wf mx'" using mux_wf_cleanup_step[OF assms(2)] mx' by (metis prod.collapse)
  ultimately show ?thesis
    using assms(4,6) cleanup_step_connected[of t mx] by (simp add: same_calls_entry advances_def caller_view mx')
qed

lemma happen_all_spares:
  assumes "happen_all hs mx = Inr mx'" and "mux_wf mx" and "list_all (spares route s at (call_timeout mx) c) hs"
    and "call_entry mx route s = Some ((c, cs), at)" and "\<forall>j<length hs. s \<noteq> (succ_serial ^^ j) (next_on (mx_router mx) route)"
    and "caller_there c u mx"
  shows "mux_wf mx' \<and> call_entry mx' route s = Some ((c, cs), at) \<and> caller_there c u mx'"
  using assms
proof (induction hs arbitrary: mx)
  case (Cons h hs)
  then obtain mx1 where h: "happens h mx = Inr mx1" and rest: "happen_all hs mx1 = Inr mx'"
    by (auto split: sum.splits)
  have "s \<noteq> next_on (mx_router mx) route" using Cons.prems(5)[rule_format, of 0] by simp
  with happens_spares[OF h Cons.prems(2) _ Cons.prems(4) _ Cons.prems(6)] Cons.prems(3)
  have step: "mux_wf mx1" "call_entry mx1 route s = Some ((c, cs), at)" "call_timeout mx1 = call_timeout mx"
    "advances route mx mx1" "caller_there c u mx1" by simp_all
  have "s \<noteq> (succ_serial ^^ j) (next_on (mx_router mx1) route)" if "j < length hs" for j
    using Cons.prems(5)[rule_format, of j] Cons.prems(5)[rule_format, of "Suc j"] that step(4)
    by (auto simp: advances_def funpow_swap1)
  with Cons.IH[OF rest step(1) _ step(2) _ step(5)] Cons.prems(3) step(3) show ?case by simp
qed simp

section \<open>The reply to a forwarded call\<close>

lemma bus_reply_message:
  assumes "is_method_return reply \<or> is_error reply"
  shows "handle_bus_message E reply route mx = handle_bus_reply E reply route mx"
  using assms by (auto simp: handle_bus_message_def mux_simps)

lemma bus_reply_delivers:
  assumes "is_method_return reply \<or> is_error reply" and "h_reply_serial reply = Some s"
    and "call_entry mx route s = Some ((c, cs), at)" and "hm_get (mx_clients mx) c = Some info"
    and "clone_reply_with_serial (e_zbus E) reply cs = Inr m" and "mx' = handle_bus_message E reply route mx"
  shows "mx_effects mx' = mx_effects mx @ [SendClient c m]" and "call_entry mx' route s = None"
    and "mx_clients mx' = mx_clients mx"
proof -
  have found: "fst (handle_reply reply route (mx_router mx)) = Inr (Some (c, cs))"
    using handle_reply_entry(1)[OF assms(2), of route "mx_router mx"] assms(3) by (simp add: call_entry_def)
  then show "mx_effects mx' = mx_effects mx @ [SendClient c m]" "mx_clients mx' = mx_clients mx"
    using assms(4,5) unfolding assms(6) bus_reply_message[OF assms(1)]
    by (auto simp: handle_bus_reply_def case_prod_unfold Let_def split: option.splits)
  show "call_entry mx' route s = None"
    using handle_reply_entry(2)[OF assms(2), of route "mx_router mx" "(route, s)"]
    by (simp add: assms(6) bus_reply_message[OF assms(1)] call_entry_def router_bus_reply)
qed

lemma bus_reply_lost:
  assumes "is_method_return reply \<or> is_error reply" and "h_reply_serial reply = Some s" and "call_entry mx route s = None"
  shows "mx_effects (handle_bus_message E reply route mx) = mx_effects mx"
proof -
  have "fst (handle_reply reply route (mx_router mx)) = Inr None"
    using handle_reply_entry(1)[OF assms(2), of route "mx_router mx"] assms(3) by (simp add: call_entry_def)
  then show ?thesis
    unfolding bus_reply_message[OF assms(1)] by (simp add: handle_bus_reply_def case_prod_unfold Let_def)
qed

lemma serial_returns_late:
  assumes "s \<noteq> 0" and "j < 2 ^ 32 - 2"
  shows "s \<noteq> (succ_serial ^^ j) (succ_serial s)"
proof
  assume "s = (succ_serial ^^ j) (succ_serial s)"
  then have "(succ_serial ^^ 0) s = (succ_serial ^^ Suc j) s" by (simp add: funpow_swap1)
  with succ_serial_pow_inj[OF assms(1), of 0 "Suc j"] assms(2) show False by simp
qed

lemma forwarded_call:
  assumes "answerable E (ci_unique_name info) msg" and "wire_laws (e_zbus E)" and "hm_get (mx_clients mx) c = Some info"
    and "is_method_call msg" and "mx' = handle_client_message E c msg mx"
    and "mx_effects mx' = mx_effects mx @ [SendBus route fm]"
  shows "call_entry mx' route (h_serial fm) = Some ((c, h_serial msg), e_now E)"
    and "next_on (mx_router mx') route = succ_serial (h_serial fm)" and "mx_clients mx' = mx_clients mx"
    and "h_serial fm \<noteq> 0"
proof -
  have "\<not> answered c (ci_unique_name info) msg mx mx'" using assms(6) by (auto simp: answered_def)
  with answered_or_forwarded[OF assms(1-5)] obtain a where "forwarded E c msg a mx mx'" by blast
  then have f: "forwarded E c msg route mx mx'" and clone: "clone_message_with_serial (e_zbus E) msg (next_on (mx_router mx) route) = Inr fm"
    using assms(6) by (auto simp: forwarded_def)
  show "h_serial fm \<noteq> 0" using clone_message_serial[OF assms(2) clone] next_on_nonzero[of "mx_router mx" route] by simp
  show "call_entry mx' route (h_serial fm) = Some ((c, h_serial msg), e_now E)"
    "next_on (mx_router mx') route = succ_serial (h_serial fm)" "mx_clients mx' = mx_clients mx"
    using f clone by (auto simp: forwarded_def call_entry_def)
qed


text \<open>A bus's answer, and the call of a client that the sample bus takes.\<close>

definition answer_with :: "u32 \<Rightarrow> message" where
  "answer_with s = sample_message\<lparr>h_type := MethodReturn, h_reply_serial := Some s\<rparr>"

lemma answer_with_fields: "is_method_return (answer_with s)" "h_reply_serial (answer_with s) = Some s"
  by (simp_all add: answer_with_def is_method_return_def)

lemma demo_clone_reply: "s \<noteq> 0 \<Longrightarrow> \<exists>m. clone_reply_with_serial (e_zbus demo_env) (answer_with t) s = Inr m"
  by (simp add: clone_reply_with_serial_def rebuild_def clone_fds_from_body_def demo_env_def sample_env_def sample_api_def
      answer_with_def sample_message_def header_conv Let_def)

lemma sample_call: "is_method_call sample_message" "\<not> is_dbus_daemon_call sample_message" "h_serial sample_message \<noteq> 0"
  by (simp_all add: mux_simps sample_message_def header_conv blank_header_def)

lemma demo_forward:
  obtains fm where "mx_effects (handle_client_message demo_env c sample_message mx) =
      mx_effects mx @ [SendBus (router_route_for (mx_router mx) []) fm]"
proof -
  have api: "z_from_bytes (e_zbus demo_env) = z_from_bytes sample_api" and "e_send demo_env = (\<lambda>r m. Inr ())"
    by (simp_all add: demo_env_def sample_env_def)
  moreover obtain m2 where "clone_message_with_serial (e_zbus demo_env) sample_message s = Inr (m2 s)" if "s \<noteq> 0" for s
    using clone_message_rewrites[OF demo_laws(2), of sample_message] sample_message_read unfolding api by metis
  moreover have "destination_str sample_message = None"
    by (simp add: mux_simps sample_message_def header_conv blank_header_def)
  ultimately show thesis
    using that sample_call(1,2)
    by (auto simp: handle_client_message_def forward_def forward_method_call_def next_serial_eq bus_send_def
        next_on_nonzero[unfolded next_on_def] case_prod_unfold Let_def)
qed




section \<open>Signals\<close>


lemma demo_rule:
  "hm_get (mx_clients (handle_add_match demo_env 1 (daemon_call ''AddMatch'') connected_mux)) 1 =
     Some \<lparr>ci_unique_name = mux_name 1, ci_owned_names = [], ci_match_rules = \<lparr>cmr_rules = [empty_rule []]\<rparr>, ci_credentials = demo_creds\<rparr>"
  by (simp add: handle_add_match_def demo_parse send_emit connected_client Let_def rules_add_def client_match_rules_new_def)


section \<open>Portal responses\<close>

definition request_entry :: "multiplexer \<Rightarrow> string \<Rightarrow> (client_id \<times> instant) option" where
  "request_entry mx path = pt_entry (mx_portal_requests mx) path"

definition request_timeout :: "multiplexer \<Rightarrow> duration" where
  "request_timeout mx = pt_timeout (mx_portal_requests mx)"

text \<open>
  What may not happen to a pending portal request: its response, another registration of its
  path, a clean-up after its time is over, and its requester's leaving.
\<close>

fun spares_request :: "string \<Rightarrow> instant \<Rightarrow> duration \<Rightarrow> client_id \<Rightarrow> happening \<Rightarrow> bool" where
  "spares_request path at ttl c (Handle E (BusItem r (Some (Inr msg)))) =
     (extract_request_handle (e_zbus E) msg \<noteq> Some path \<and> \<not> (is_portal_response_signal msg \<and> path_str msg = Some path))"
| "spares_request path at ttl c (Handle E Tick) = (e_now E - at < ttl)"
| "spares_request path at ttl c (Handle E ev) = True"
| "spares_request path at ttl c (Join d creds) = (d \<noteq> c)"
| "spares_request path at ttl c (Leave d) = (d \<noteq> c)"
| "spares_request path at ttl c (Clean_up t) = (task_client t \<noteq> c)"

lemma portal_client_message: "mx_portal_requests (handle_client_message E c msg mx) = mx_portal_requests mx"
  using client_message_outcome[of E c msg mx]
proof (cases rule: client_outcome.cases)
  case (Forward a)
  then show ?thesis by (auto simp: quiet_fields forward_def split: prod.splits)
next
  case Request
  then show ?thesis using names_only_request[of mx E c msg] by (simp add: names_only_def)
next
  case Release
  then show ?thesis using names_only_release[of mx E c msg] by (simp add: names_only_def)
qed (auto simp: quiet_fields handle_add_match_def handle_remove_match_def send_emit case_prod_unfold Let_def
    split: sum.splits option.splits)

lemma portal_bus_reply:
  "mx_portal_requests (handle_bus_reply E msg a mx) = mx_portal_requests mx
   \<or> (\<exists>p c. extract_request_handle (e_zbus E) msg = Some p
        \<and> mx_portal_requests (handle_bus_reply E msg a mx) = tracker_register (e_now E) p c (mx_portal_requests mx))"
  by (auto simp: handle_bus_reply_def case_prod_unfold Let_def split: sum.splits option.splits)

lemma portal_bus_signal:
  "mx_portal_requests (handle_bus_signal E msg a mx) =
     (case path_str msg of
        Some p \<Rightarrow> if is_portal_response_signal msg then snd (lookup_and_remove p (mx_portal_requests mx)) else mx_portal_requests mx
      | None \<Rightarrow> mx_portal_requests mx)"
  by (auto simp: handle_bus_signal_def deliver_signal_def case_prod_unfold Let_def split: option.splits)

text \<open>A message of a bus keeps the requests under other paths.\<close>

lemma portal_bus_message:
  assumes "extract_request_handle (e_zbus E) msg \<noteq> Some path" and "\<not> (is_portal_response_signal msg \<and> path_str msg = Some path)"
  shows "request_entry (handle_bus_message E msg a mx) path = request_entry mx path"
    and "request_timeout (handle_bus_message E msg a mx) = request_timeout mx"
proof -
  have reply: "pt_entry (mx_portal_requests (handle_bus_reply E msg a mx)) path = pt_entry (mx_portal_requests mx) path"
    "pt_timeout (mx_portal_requests (handle_bus_reply E msg a mx)) = pt_timeout (mx_portal_requests mx)"
    using portal_bus_reply[of E msg a mx] assms(1) by (auto simp: pt.entry_rec pt.ttl_ops)
  have signal: "pt_entry (mx_portal_requests (handle_bus_signal E msg a mx)) path = pt_entry (mx_portal_requests mx) path"
    "pt_timeout (mx_portal_requests (handle_bus_signal E msg a mx)) = pt_timeout (mx_portal_requests mx)" for mx
    using assms(2) by (auto simp: portal_bus_signal pt.entry_clm pt.ttl_ops split: option.splits)
  show "request_entry (handle_bus_message E msg a mx) path = request_entry mx path"
    "request_timeout (handle_bus_message E msg a mx) = request_timeout mx"
    by (auto simp: request_entry_def request_timeout_def handle_bus_message_def Let_def reply signal split: sum.splits route.splits)
qed

lemma portal_release_rules: "mx_portal_requests (release_rules rules mx) = mx_portal_requests mx"
  unfolding release_rules_def by (induction rules arbitrary: mx) (simp_all add: release_rule_def)

lemma portal_cleanup_step:
  assumes "mux_wf mx"
  shows "(task_client t \<noteq> c \<longrightarrow> request_entry mx path = Some (c, at) \<longrightarrow> request_entry (snd (cleanup_step t mx)) path = Some (c, at))
     \<and> request_timeout (snd (cleanup_step t mx)) = request_timeout mx"
proof -
  have "pt_wf (mx_portal_requests mx)" using assms by (simp add: mux_wf_def)
  from pt_entry_remove_client[OF this] show ?thesis
    by (cases "(t, mx)" rule: cleanup_step.cases)
       (auto simp: request_entry_def request_timeout_def portal_release_rules drop_portal_requests_def leave_queues_def
         hand_over_def release_owned_def tracker_remove_client_def case_prod_unfold Let_def split: option.splits)
qed

lemma request_spared:
  assumes "happens h mx = Inr mx'" and "mux_wf mx" and "spares_request path at (request_timeout mx) c h"
    and "request_entry mx path = Some (c, at)" and "caller_there c u mx"
  shows "mux_wf mx' \<and> request_entry mx' path = Some (c, at) \<and> request_timeout mx' = request_timeout mx \<and> caller_there c u mx'"
proof (cases h)
  case (Handle E ev)
  then have run: "run_step E ev mx = Inr mx'" using assms(1) by simp
  have wf: "mux_wf mx'" by (rule mux_wf_run_step[OF assms(2) run])
  show ?thesis
  proof (cases ev)
    case (ClientMessage d msg)
    then have "mx' = handle_client_message E d msg mx" using run by simp
    then show ?thesis
      using wf assms(4,5) views_client_message[of E d msg mx c]
      by (simp add: request_entry_def request_timeout_def portal_client_message caller_view)
  next
    case Tick
    then have mx': "mx' = periodic_cleanup E mx" and time: "e_now E - at < pt_timeout (mx_portal_requests mx)"
      using run assms(3) Handle by (simp_all add: request_timeout_def)
    have "pt_wf (mx_portal_requests mx)" using assms(2) by (simp add: mux_wf_def)
    from pt.entry_expr[OF this, of "e_now E" path] time show ?thesis
      using wf assms(4,5) pt.ttl_ops(3)[of "e_now E" "mx_portal_requests mx"]
      by (simp add: mx' request_entry_def request_timeout_def caller_there_def periodic_cleanup_def case_prod_unfold Let_def)
  next
    case (BusItem r item)
    then obtain msg where item: "item = Some (Inr msg)" and mx': "mx' = handle_bus_message E msg r mx"
      using run by (auto simp: bus_recv_def split: option.splits sum.splits)
    then show ?thesis
      using wf assms(3-5) Handle BusItem portal_bus_message[of E msg path r mx] by (simp add: caller_there_def)
  qed
next
  case (Join d creds)
  then have mx': "mx' = register_client d (mux_name d) creds mx" and "d \<noteq> c" using assms(1,3) by simp_all
  then show ?thesis
    using assms(2,4,5) mux_wf_register[OF assms(2)] by (simp add: register_client_def request_entry_def request_timeout_def caller_there_def)
next
  case (Leave d)
  then have mx': "mx' = snd (unregister_client d mx)" and "d \<noteq> c" using assms(1,3) by simp_all
  moreover have "mux_wf mx'" using mux_wf_unregister[OF assms(2) prod.collapse[symmetric], of d] mx' by simp
  ultimately show ?thesis
    using assms(4,5) by (auto simp: unregister_client_def request_entry_def request_timeout_def caller_there_def split: option.splits)
next
  case (Clean_up t)
  then have mx': "mx' = snd (cleanup_step t mx)" and other: "task_client t \<noteq> c" using assms(1,3) by simp_all
  have "mux_wf mx'" using mux_wf_cleanup_step[OF assms(2)] mx' by (metis prod.collapse)
  moreover have "caller_there c u mx'" using assms(5) cleanup_step_connected[of t mx] by (simp add: caller_view mx')
  moreover have "request_entry mx' path = Some (c, at) \<and> request_timeout mx' = request_timeout mx"
    using portal_cleanup_step[OF assms(2), of t c path at] other assms(4) by (simp add: mx')
  ultimately show ?thesis by blast
qed

lemma requests_spared:
  assumes "happen_all hs mx = Inr mx'" and "mux_wf mx" and "list_all (spares_request path at (request_timeout mx) c) hs"
    and "request_entry mx path = Some (c, at)" and "caller_there c u mx"
  shows "request_entry mx' path = Some (c, at) \<and> caller_there c u mx'"
  using assms
proof (induction hs arbitrary: mx)
  case (Cons h hs)
  then obtain mx1 where h: "happens h mx = Inr mx1" and rest: "happen_all hs mx1 = Inr mx'"
    by (auto split: sum.splits)
  from request_spared[OF h Cons.prems(2) _ Cons.prems(4,5)] Cons.prems(3) Cons.IH[OF rest] show ?case by simp
qed simp


text \<open>A bus that answers with the handle of a request, and the response to it.\<close>

definition handle_env :: env where
  "handle_env = demo_env\<lparr>e_zbus := (e_zbus demo_env)\<lparr>de_object_path := (\<lambda>m. Inr request_prefix)\<rparr>\<rparr>"

definition portal_signal :: message where
  "portal_signal = sample_message\<lparr>h_type := Signal, h_interface := Some ''org.freedesktop.portal.Request'',
     h_member := Some ''Response'', h_path := Some request_prefix\<rparr>"

lemma portal_signal_fields: "is_portal_response_signal portal_signal" "path_str portal_signal = Some request_prefix"
  by (simp_all add: portal_signal_def is_portal_response_signal_def mux_simps)

lemma handle_env_extract: "extract_request_handle (e_zbus handle_env) (answer_with s) = Some request_prefix"
  by (simp add: extract_request_handle_def handle_env_def answer_with_fields)

lemma demo_rewrites: "\<exists>m. clone_portal_response_signal (e_zbus demo_env) portal_signal mux client = Inr m"
proof -
  have "m_fds portal_signal = []" by (simp add: portal_signal_def sample_message_def header_conv)
  then show ?thesis
    by (simp add: clone_portal_response_signal_def demo_env_def sample_env_def sample_api_def rebuild_def clone_fds_from_body_def Let_def)
qed

lemma host_name_kept:
  "bus_unique_name (host_conn (mx_router (snd (forward E c msg route mx)))) = bus_unique_name (host_conn (mx_router mx))"
  "host_conn (mx_router (handle_bus_reply E msg route mx)) = host_conn (mx_router mx)"
  by (auto simp: forward_def forward_method_call_def next_serial_eq put_connection_def connection_for_def bus_unique_name_def
      bus_send_def handle_bus_reply_def handle_reply_def case_prod_unfold Let_def split: route.splits sum.splits option.splits)


end
