(* ===== verification/Socket_Io.thy ===== *)
theory Socket_Io
  imports Mux_Errors Wire_Bytes
begin

text \<open>
  What \<open>auth.rs\<close> and \<open>client.rs\<close> use of a client's socket. UTF-8 validation is that of Rust's
  standard library. The operations of tokio (\<open>read_exact\<close>, \<open>write_all\<close> and the buffered
  \<open>read_line\<close>) are a parameter, the record \<open>tokio_io\<close>, and \<open>tokio_laws\<close> states what its
  documentation promises of them; \<open>sample_tokio\<close> is an instance that reads ahead in chunks.

  A \<open>socket\<close> holds the bytes the peer sends (\<open>sk_in\<close>) and how the input ends (\<open>sk_end\<close>: \<open>None\<close>
  for a closed connection), the sizes in which the kernel hands them to a buffered read
  (\<open>sk_reads\<close>), what was written (\<open>sk_out\<close>, and \<open>sk_fds\<close> for descriptors), and which of the next
  writes fail (\<open>sk_write_errors\<close>, one entry per write, success after the last).
\<close>

section \<open>Bytes and strings\<close>

definition string_of :: "u8 list \<Rightarrow> string" where
  "string_of bs = map (\<lambda>b. char_of (unat b)) bs"

definition bytes_of :: "string \<Rightarrow> u8 list" where
  "bytes_of s = map (\<lambda>c. of_nat (of_char c)) s"

lemma string_of_bytes_of [simp]: "string_of (bytes_of s) = s"
proof -
  have "char_of (unat (of_nat (of_char c) :: u8)) = c" for c :: char
    by (simp add: unat_of_nat)
  then show ?thesis by (simp add: string_of_def bytes_of_def comp_def)
qed

lemma bytes_of_string_of [simp]: "bytes_of (string_of bs) = bs"
proof -
  have "unat b < 256" for b :: u8
    by (rule order.strict_trans2 [OF unsigned_less]) simp
  then have "of_nat (of_char (char_of (unat b) :: char)) = b" for b :: u8
    by simp
  then show ?thesis by (simp add: string_of_def bytes_of_def comp_def)
qed

lemma bytes_of_append [simp]: "bytes_of (s @ t) = bytes_of s @ bytes_of t"
  by (simp add: bytes_of_def)

text \<open>
  \<open>core::str::from_utf8\<close>: \<open>None\<close> for valid UTF-8, else the length of the valid prefix and the
  length of the invalid sequence, which is missing where the input ends inside a character.
\<close>

definition continuation :: "u8 \<Rightarrow> bool" where
  "continuation b = (128 \<le> b \<and> b \<le> 191)"

definition second_of_three :: "u8 \<Rightarrow> u8 \<Rightarrow> bool" where
  "second_of_three a b =
     (if a = 224 then 160 \<le> b \<and> b \<le> 191 else if a = 237 then 128 \<le> b \<and> b \<le> 159 else continuation b)"

definition second_of_four :: "u8 \<Rightarrow> u8 \<Rightarrow> bool" where
  "second_of_four a b =
     (if a = 240 then 144 \<le> b \<and> b \<le> 191 else if a = 244 then 128 \<le> b \<and> b \<le> 143 else continuation b)"

definition utf8_width :: "u8 \<Rightarrow> nat" where
  "utf8_width b = (if b \<le> 127 then 1 else if 194 \<le> b \<and> b \<le> 223 then 2
     else if 224 \<le> b \<and> b \<le> 239 then 3 else if 240 \<le> b \<and> b \<le> 244 then 4 else 0)"

fun utf8_error :: "nat \<Rightarrow> u8 list \<Rightarrow> (nat \<times> nat option) option" where
  "utf8_error i [] = None"
| "utf8_error i (a # bs) =
     (if utf8_width a = 1 then utf8_error (i + 1) bs
      else if utf8_width a = 2 then
        (case bs of [] \<Rightarrow> Some (i, None)
         | b # bs1 \<Rightarrow> if continuation b then utf8_error (i + 2) bs1 else Some (i, Some 1))
      else if utf8_width a = 3 then
        (case bs of [] \<Rightarrow> Some (i, None)
         | b # bs1 \<Rightarrow> if \<not> second_of_three a b then Some (i, Some 1)
             else (case bs1 of [] \<Rightarrow> Some (i, None)
               | c # bs2 \<Rightarrow> if continuation c then utf8_error (i + 3) bs2 else Some (i, Some 2)))
      else if utf8_width a = 4 then
        (case bs of [] \<Rightarrow> Some (i, None)
         | b # bs1 \<Rightarrow> if \<not> second_of_four a b then Some (i, Some 1)
             else (case bs1 of [] \<Rightarrow> Some (i, None)
               | c # bs2 \<Rightarrow> if \<not> continuation c then Some (i, Some 2)
                   else (case bs2 of [] \<Rightarrow> Some (i, None)
                     | d # bs3 \<Rightarrow> if continuation d then utf8_error (i + 4) bs3 else Some (i, Some 3))))
      else Some (i, Some 1))"

definition display_utf8_error :: "nat \<times> nat option \<Rightarrow> string" where
  "display_utf8_error e =
     (case e of
        (i, Some n) \<Rightarrow> ''invalid utf-8 sequence of '' @ show_nat n @ '' bytes from index '' @ show_nat i
      | (i, None) \<Rightarrow> ''incomplete utf-8 byte sequence from index '' @ show_nat i)"

definition from_utf8 :: "u8 list \<Rightarrow> string + string" where
  "from_utf8 bs = (case utf8_error 0 bs of None \<Rightarrow> Inr (string_of bs) | Some e \<Rightarrow> Inl (display_utf8_error e))"

definition ascii :: "string \<Rightarrow> bool" where
  "ascii s = list_all (\<lambda>c. (of_char c :: nat) \<le> 127) s"

lemma utf8_error_ascii: "list_all (\<lambda>b. b \<le> 127) bs \<Longrightarrow> utf8_error i bs = None"
  by (induction bs arbitrary: i) (auto simp: utf8_width_def)

lemma from_utf8_ascii [simp]:
  assumes "ascii s"
  shows "from_utf8 (bytes_of s) = Inr s"
proof -
  have "list_all (\<lambda>b. b \<le> 127) (bytes_of s)"
    using assms by (auto simp: ascii_def bytes_of_def list_all_iff word_le_nat_alt unat_of_nat)
  then show ?thesis by (simp add: from_utf8_def utf8_error_ascii)
qed

lemma from_utf8_Inr: "from_utf8 bs = Inr s \<Longrightarrow> s = string_of bs"
  by (auto simp: from_utf8_def split: option.splits)

section \<open>Sockets\<close>

record socket =
  sk_in :: "u8 list"
  sk_end :: "io_error option"
  sk_reads :: "nat list"
  sk_out :: "u8 list"
  sk_fds :: "nat list"
  sk_write_errors :: "io_error option list"

definition end_error :: "socket \<Rightarrow> io_error" where
  "end_error s = (case sk_end s of Some e \<Rightarrow> e | None \<Rightarrow> IoError UnexpectedEof ''early eof'')"

text \<open>A buffered reader: the bytes it read ahead, and the socket.\<close>

record buf_reader =
  br_buf :: "u8 list"
  br_sock :: socket

section \<open>What tokio promises\<close>

record tokio_io =
  io_read_exact :: "nat \<Rightarrow> socket \<Rightarrow> (io_error + u8 list) \<times> socket"
  io_write_all :: "u8 list \<Rightarrow> socket \<Rightarrow> (io_error + unit) \<times> socket"
  io_read_line :: "buf_reader \<Rightarrow> (io_error + string) \<times> buf_reader"

text \<open>All bytes the reader has not handed out, read ahead or not.\<close>

definition unread :: "buf_reader \<Rightarrow> u8 list" where
  "unread r = br_buf r @ sk_in (br_sock r)"

text \<open>What a read of the socket leaves alone.\<close>

definition sock_rest :: "socket \<Rightarrow> io_error option \<times> u8 list \<times> nat list \<times> io_error option list" where
  "sock_rest s = (sk_end s, sk_out s, sk_fds s, sk_write_errors s)"

text \<open>The bytes up to and including the next newline, or up to the end, and what is left.\<close>

definition until_spec :: "u8 list \<Rightarrow> io_error option \<Rightarrow> (io_error + u8 list) \<times> u8 list" where
  "until_spec u fin =
     (if 10 \<in> set u then (Inr (takeWhile (\<lambda>b. b \<noteq> 10) u @ [10]), tl (dropWhile (\<lambda>b. b \<noteq> 10) u))
      else (case fin of None \<Rightarrow> Inr u | Some e \<Rightarrow> Inl e, []))"

text \<open>A line that is not valid UTF-8 is an error.\<close>

definition utf8_line :: "io_error + u8 list \<Rightarrow> io_error + string" where
  "utf8_line res =
     (case res of
        Inl e \<Rightarrow> Inl e
      | Inr bs \<Rightarrow>
          (case from_utf8 bs of
             Inl _ \<Rightarrow> Inl (IoError InvalidDataKind ''stream did not contain valid UTF-8'')
           | Inr s \<Rightarrow> Inr s))"

text \<open>
  \<open>read_exact\<close> fills the buffer or, at an early end, fails after it consumed what there was;
  \<open>write_all\<close> succeeds only when all bytes are written, and touches nothing else; \<open>read_line\<close>
  returns the next line, however the bytes arrive and however many of them it reads ahead, and
  leaves the others unread.
\<close>

definition tokio_laws :: "tokio_io \<Rightarrow> bool" where
  "tokio_laws T \<longleftrightarrow>
     (\<forall>n s. n \<le> length (sk_in s) \<longrightarrow>
        io_read_exact T n s = (Inr (take n (sk_in s)), s\<lparr>sk_in := drop n (sk_in s)\<rparr>))
     \<and> (\<forall>n s. length (sk_in s) < n \<longrightarrow> io_read_exact T n s = (Inl (end_error s), s\<lparr>sk_in := []\<rparr>))
     \<and> (\<forall>bs s. sk_write_errors s = [] \<longrightarrow> io_write_all T bs s = (Inr (), s\<lparr>sk_out := sk_out s @ bs\<rparr>))
     \<and> (\<forall>bs s res s'. io_write_all T bs s = (res, s') \<longrightarrow>
          sk_in s' = sk_in s \<and> sk_end s' = sk_end s \<and> sk_fds s' = sk_fds s
          \<and> (\<forall>u. res = Inr u \<longrightarrow> sk_out s' = sk_out s @ bs))
     \<and> (\<forall>r. fst (io_read_line T r) = utf8_line (fst (until_spec (unread r) (sk_end (br_sock r))))
          \<and> unread (snd (io_read_line T r)) = snd (until_spec (unread r) (sk_end (br_sock r)))
          \<and> sock_rest (br_sock (snd (io_read_line T r))) = sock_rest (br_sock r))"

lemma tokio_lawsD:
  assumes "tokio_laws T"
  shows "n \<le> length (sk_in s) \<Longrightarrow> io_read_exact T n s = (Inr (take n (sk_in s)), s\<lparr>sk_in := drop n (sk_in s)\<rparr>)"
    and "length (sk_in s) < n \<Longrightarrow> io_read_exact T n s = (Inl (end_error s), s\<lparr>sk_in := []\<rparr>)"
    and "sk_write_errors s = [] \<Longrightarrow> io_write_all T bs s = (Inr (), s\<lparr>sk_out := sk_out s @ bs\<rparr>)"
    and "io_write_all T bs s = (res, s') \<Longrightarrow> sk_in s' = sk_in s \<and> sk_end s' = sk_end s \<and> sk_fds s' = sk_fds s"
    and "io_write_all T bs s = (Inr u, s') \<Longrightarrow> sk_out s' = sk_out s @ bs"
    and "fst (io_read_line T r) = utf8_line (fst (until_spec (unread r) (sk_end (br_sock r))))"
    and "unread (snd (io_read_line T r)) = snd (until_spec (unread r) (sk_end (br_sock r)))"
    and "sock_rest (br_sock (snd (io_read_line T r))) = sock_rest (br_sock r)"
  using assms unfolding tokio_laws_def by blast+

text \<open>\<open>read_exact\<close> in one equation.\<close>

definition sock_read_exact :: "nat \<Rightarrow> socket \<Rightarrow> (io_error + u8 list) \<times> socket" where
  "sock_read_exact n s =
     (if n \<le> length (sk_in s) then (Inr (take n (sk_in s)), s\<lparr>sk_in := drop n (sk_in s)\<rparr>)
      else (Inl (end_error s), s\<lparr>sk_in := []\<rparr>))"

lemma io_read_exact_eq: "tokio_laws T \<Longrightarrow> io_read_exact T n s = sock_read_exact n s"
  using tokio_lawsD(1,2)[of T] by (simp add: sock_read_exact_def)

section \<open>An instance\<close>

definition write_all :: "u8 list \<Rightarrow> socket \<Rightarrow> (io_error + unit) \<times> socket" where
  "write_all bs s =
     (case sk_write_errors s of
        Some e # es \<Rightarrow> (Inl e, s\<lparr>sk_write_errors := es\<rparr>)
      | None # es \<Rightarrow> (Inr (), s\<lparr>sk_write_errors := es, sk_out := sk_out s @ bs\<rparr>)
      | [] \<Rightarrow> (Inr (), s\<lparr>sk_out := sk_out s @ bs\<rparr>))"

definition buf_capacity :: nat where
  "buf_capacity = 8192"

definition chunk_size :: "socket \<Rightarrow> nat" where
  "chunk_size s = (case sk_reads s of n # _ \<Rightarrow> max 1 (min n buf_capacity) | [] \<Rightarrow> buf_capacity)"

text \<open>\<open>fill_buf\<close>: one read of the socket when the buffer is empty; at the end of the input it stays empty.\<close>

definition fill_buf :: "buf_reader \<Rightarrow> (io_error + unit) \<times> buf_reader" where
  "fill_buf r =
     (let s = br_sock r in
      if br_buf r \<noteq> [] then (Inr (), r)
      else if sk_in s = [] then (case sk_end s of Some e \<Rightarrow> (Inl e, r) | None \<Rightarrow> (Inr (), r))
      else (Inr (), r\<lparr>br_buf := take (chunk_size s) (sk_in s),
                      br_sock := s\<lparr>sk_in := drop (chunk_size s) (sk_in s), sk_reads := tl (sk_reads s)\<rparr>\<rparr>))"

lemma chunk_size_pos: "0 < chunk_size s"
  by (auto simp: chunk_size_def buf_capacity_def split: list.splits)

lemma fill_buf_unread [simp]: "unread (snd (fill_buf r)) = unread r"
  by (auto simp: fill_buf_def unread_def Let_def split: option.splits)

lemma fill_buf_Inr:
  assumes "fill_buf r = (Inr x, r')"
  shows "br_buf r' = [] \<longleftrightarrow> unread r = []" and "unread r = [] \<Longrightarrow> sk_end (br_sock r) = None"
  using assms chunk_size_pos[of "br_sock r"]
  by (auto simp: fill_buf_def unread_def Let_def split: option.splits if_splits)

lemma fill_buf_Inl:
  "fill_buf r = (Inl e, r') \<longleftrightarrow> unread r = [] \<and> sk_end (br_sock r) = Some e \<and> r' = r"
  by (auto simp: fill_buf_def unread_def Let_def split: option.splits if_splits)

lemma fill_buf_shorter:
  "fill_buf r = (Inr x, r1) \<Longrightarrow> br_buf r1 \<noteq> [] \<Longrightarrow> length (unread (r1\<lparr>br_buf := []\<rparr>)) < length (unread r)"
  using arg_cong[OF fill_buf_unread[of r], of length] by (cases "br_buf r1") (auto simp: unread_def)

text \<open>\<open>read_until(b'\n')\<close>: the bytes up to and including the newline, or up to the end.\<close>

function read_until :: "u8 list \<Rightarrow> buf_reader \<Rightarrow> (io_error + u8 list) \<times> buf_reader" where
  "read_until acc r =
     (case fill_buf r of
        (Inl e, r1) \<Rightarrow> (Inl e, r1)
      | (Inr _, r1) \<Rightarrow>
          (let line = takeWhile (\<lambda>b. b \<noteq> 10) (br_buf r1); after = dropWhile (\<lambda>b. b \<noteq> 10) (br_buf r1) in
           if after \<noteq> [] then (Inr (acc @ line @ [10]), r1\<lparr>br_buf := tl after\<rparr>)
           else if br_buf r1 = [] then (Inr acc, r1)
           else read_until (acc @ line) (r1\<lparr>br_buf := []\<rparr>)))"
  by pat_completeness auto
termination
  by (relation "measure (\<lambda>(acc, r). length (unread r))") (simp, metis fill_buf_shorter in_measure case_prod_conv)

declare read_until.simps [simp del]

lemma sock_rest_fill [simp]: "sock_rest (br_sock (snd (fill_buf r))) = sock_rest (br_sock r)"
  by (auto simp: fill_buf_def sock_rest_def Let_def split: option.splits)

definition prepend :: "'a list \<Rightarrow> 'e + 'a list \<Rightarrow> 'e + 'a list" where
  "prepend a res = (case res of Inl e \<Rightarrow> Inl e | Inr bs \<Rightarrow> Inr (a @ bs))"

lemma prepend_simps [simp]:
  "prepend a (Inl e) = Inl e" "prepend a (Inr bs) = Inr (a @ bs)" "prepend [] res = res"
  "prepend a (prepend b res) = prepend (a @ b) res"
  by (auto simp: prepend_def split: sum.splits)

lemma until_spec_append:
  "10 \<notin> set a \<Longrightarrow> until_spec (a @ b) fin = (let (res, rest) = until_spec b fin in (prepend a res, rest))"
  by (auto simp: until_spec_def takeWhile_append dropWhile_append split: option.splits)

lemma read_until_spec:
  "fst (read_until acc r) = prepend acc (fst (until_spec (unread r) (sk_end (br_sock r))))
   \<and> unread (snd (read_until acc r)) = snd (until_spec (unread r) (sk_end (br_sock r)))
   \<and> sock_rest (br_sock (snd (read_until acc r))) = sock_rest (br_sock r)"
proof (induction acc r rule: read_until.induct)
  case (1 acc r)
  obtain res r1 where f: "fill_buf r = (res, r1)" by fastforce
  have u: "unread r1 = unread r" and rest: "sock_rest (br_sock r1) = sock_rest (br_sock r)"
    using fill_buf_unread[of r] sock_rest_fill[of r] by (simp_all add: f)
  then have fin: "sk_end (br_sock r1) = sk_end (br_sock r)" by (simp add: sock_rest_def)
  show ?case
  proof (cases res)
    case (Inl e)
    then have "unread r = []" "sk_end (br_sock r) = Some e" "r1 = r" using f by (auto simp: fill_buf_Inl)
    then show ?thesis by (simp add: read_until.simps[of acc r] f Inl until_spec_def)
  next
    case (Inr x)
    note fI = fill_buf_Inr[OF f[unfolded Inr]]
    let ?line = "takeWhile (\<lambda>b. b \<noteq> 10) (br_buf r1)" and ?after = "dropWhile (\<lambda>b. b \<noteq> 10) (br_buf r1)"
    have un: "unread r = br_buf r1 @ sk_in (br_sock r1)" using u by (simp add: unread_def)
    show ?thesis
    proof (cases "?after = []")
      case False
      then have "10 \<in> set (br_buf r1)" by (auto simp: dropWhile_eq_Nil_conv)
      with False show ?thesis
        by (simp add: read_until.simps[of acc r] f Inr until_spec_def un takeWhile_append1 dropWhile_append1 rest)
           (simp add: unread_def)
    next
      case no: True
      then have line: "?line = br_buf r1" and nl: "10 \<notin> set (br_buf r1)" by (auto simp: dropWhile_eq_Nil_conv takeWhile_eq_all_conv)
      show ?thesis
      proof (cases "br_buf r1 = []")
        case True
        then have "unread r = []" "sk_end (br_sock r) = None" using fI by auto
        then show ?thesis using True u by (simp add: read_until.simps[of acc r] f Inr until_spec_def rest)
      next
        case False
        have step: "read_until acc r = read_until (acc @ br_buf r1) (r1\<lparr>br_buf := []\<rparr>)"
          using no False nl by (simp add: read_until.simps[of acc r] f Inr line Let_def)
        have IH: "fst (read_until (acc @ br_buf r1) (r1\<lparr>br_buf := []\<rparr>)) =
             prepend (acc @ br_buf r1) (fst (until_spec (sk_in (br_sock r1)) (sk_end (br_sock r))))
           \<and> unread (snd (read_until (acc @ br_buf r1) (r1\<lparr>br_buf := []\<rparr>))) = snd (until_spec (sk_in (br_sock r1)) (sk_end (br_sock r)))
           \<and> sock_rest (br_sock (snd (read_until (acc @ br_buf r1) (r1\<lparr>br_buf := []\<rparr>)))) = sock_rest (br_sock r)"
          using "1.IH"[OF f[symmetric, unfolded Inr] _ refl refl] no False line fin rest by (simp add: unread_def)
        show ?thesis
          unfolding step un until_spec_append[OF nl]
          using IH by (simp add: case_prod_unfold Let_def)
      qed
    qed
  qed
qed

definition sample_read_line :: "buf_reader \<Rightarrow> (io_error + string) \<times> buf_reader" where
  "sample_read_line r = (let (res, r1) = read_until [] r in (utf8_line res, r1))"

definition sample_tokio :: tokio_io where
  "sample_tokio = \<lparr>io_read_exact = sock_read_exact, io_write_all = write_all, io_read_line = sample_read_line\<rparr>"

lemma sample_tokio_laws: "tokio_laws sample_tokio"
proof -
  have "fst (sample_read_line r) = utf8_line (fst (until_spec (unread r) (sk_end (br_sock r))))"
    "unread (snd (sample_read_line r)) = snd (until_spec (unread r) (sk_end (br_sock r)))"
    "sock_rest (br_sock (snd (sample_read_line r))) = sock_rest (br_sock r)" for r
    using read_until_spec[of "[]" r] by (simp_all add: sample_read_line_def case_prod_unfold Let_def)
  moreover have "sk_in s' = sk_in s \<and> sk_end s' = sk_end s \<and> sk_fds s' = sk_fds s \<and> (\<forall>u. res = Inr u \<longrightarrow> sk_out s' = sk_out s @ bs)"
    if "write_all bs s = (res, s')" for bs s res s'
    using that by (auto simp: write_all_def split: list.splits option.splits)
  ultimately show ?thesis
    by (auto simp: tokio_laws_def sample_tokio_def sock_read_exact_def) (auto simp: write_all_def)
qed

end
