(* ===== verification/Sasl_Auth.thy ===== *)
theory Sasl_Auth
  imports Socket_Io
begin

text \<open>
  The server side of the SASL handshake (\<open>auth.rs\<close>). The crate \<open>hex\<close> and the process's own user
  id are the fields of \<open>auth_env\<close>; the random GUID is an argument. Flushing a Unix stream does
  nothing. A client that stays silent without closing the connection is not modelled: the
  handshake has no time limit, so it then waits for ever. The operations of tokio are the parameter \<open>T\<close>;
  the loop over the client's lines may go on as long as \<open>T\<close> returns lines, and its result is \<open>None\<close>
  should it never end.
\<close>

section \<open>State\<close>

record auth_env =
  ae_hex_encode :: "u8 list \<Rightarrow> string"
  ae_hex_decode :: "string \<Rightarrow> string + u8 list"
  ae_uid :: u32

text \<open>
  What the program relies on in the crate \<open>hex\<close>: encoding gives lower-case hexadecimal digits, and
  decoding inverts it.
\<close>

definition hex_laws :: "auth_env \<Rightarrow> bool" where
  "hex_laws A = (\<forall>bs. ae_hex_decode A (ae_hex_encode A bs) = Inr bs
     \<and> set (ae_hex_encode A bs) \<subseteq> set ''0123456789abcdef'')"

record auth_result =
  ar_uid :: u32
  ar_buffered :: "u8 list"

record sasl_auth =
  server_guid :: string

definition sasl_new :: "string \<Rightarrow> sasl_auth" where
  "sasl_new generated = \<lparr>server_guid = generated\<rparr>"

definition sasl_with_guid :: "string \<Rightarrow> sasl_auth" where
  "sasl_with_guid guid = \<lparr>server_guid = guid\<rparr>"

definition sasl_guid :: "sasl_auth \<Rightarrow> string" where
  "sasl_guid auth = server_guid auth"

section \<open>User ids\<close>

fun display_int_error :: "int_error \<Rightarrow> string" where
  "display_int_error EmptyInt = ''cannot parse integer from empty string''"
| "display_int_error InvalidDigit = ''invalid digit found in string''"
| "display_int_error PosOverflow = ''number too large to fit in target type''"

definition parse_hex_uid :: "auth_env \<Rightarrow> string \<Rightarrow> error + u32" where
  "parse_hex_uid A hex =
     (case ae_hex_decode A hex of
        Inl e \<Rightarrow> Inl (Auth (InvalidData (''Invalid hex: '' @ e)))
      | Inr bs \<Rightarrow>
          (case from_utf8 bs of
             Inl e \<Rightarrow> Inl (Auth (InvalidData (''Invalid UTF-8: '' @ e)))
           | Inr uid_str \<Rightarrow>
               (case parse_unsigned (2 ^ 32 - 1) uid_str of
                  Inl e \<Rightarrow> Inl (Auth (InvalidData (''Invalid UID: '' @ display_int_error e)))
                | Inr n \<Rightarrow> Inr (of_nat n))))"

definition encode_uid :: "auth_env \<Rightarrow> u32 \<Rightarrow> string" where
  "encode_uid A uid = ae_hex_encode A (bytes_of (show_nat (unat uid)))"

section \<open>Lines\<close>

definition crlf :: string where
  "crlf = [CHR 0x0D, CHR 0x0A]"

definition pop_if :: "char \<Rightarrow> string \<Rightarrow> string" where
  "pop_if c s = (if ends_with s [c] then butlast s else s)"

definition read_line :: "tokio_io \<Rightarrow> buf_reader \<Rightarrow> (error + string) \<times> buf_reader" where
  "read_line T r =
     (case io_read_line T r of
        (Inl e, r1) \<Rightarrow> (Inl (Io e), r1)
      | (Inr s, r1) \<Rightarrow>
          (let line = pop_if (CHR 0x0D) (pop_if (CHR 0x0A) s)
           in if line = [] then (Inl (Io (IoError UnexpectedEof ''Empty line'')), r1) else (Inr line, r1)))"

definition send_line :: "tokio_io \<Rightarrow> string \<Rightarrow> buf_reader \<Rightarrow> (error + unit) \<times> buf_reader" where
  "send_line T l r =
     (let (res, s) = io_write_all T (bytes_of (l @ crlf)) (br_sock r) in (map_err Io res, r\<lparr>br_sock := s\<rparr>))"

section \<open>The handshake\<close>

definition auth_done :: "u32 \<Rightarrow> buf_reader \<Rightarrow> (error + auth_result) \<times> buf_reader" where
  "auth_done uid r = (Inr \<lparr>ar_uid = uid, ar_buffered = br_buf r\<rparr>, r)"

definition ok_line :: "string \<Rightarrow> string" where
  "ok_line guid = ''OK '' @ guid"

definition complete_auth ::
    "tokio_io \<Rightarrow> sasl_auth \<Rightarrow> u32 \<Rightarrow> buf_reader \<Rightarrow> (error + auth_result) \<times> buf_reader" where
  "complete_auth T auth uid r =
     (case send_line T (ok_line (server_guid auth)) r of
        (Inl e, r1) \<Rightarrow> (Inl e, r1)
      | (Inr _, r1) \<Rightarrow>
     (case read_line T r1 of
        (Inl e, r2) \<Rightarrow> (Inl e, r2)
      | (Inr line, r2) \<Rightarrow>
          if line = ''NEGOTIATE_UNIX_FD'' then
            (case send_line T ''AGREE_UNIX_FD'' r2 of
               (Inl e, r3) \<Rightarrow> (Inl e, r3)
             | (Inr _, r3) \<Rightarrow>
            (case read_line T r3 of
               (Inl e, r4) \<Rightarrow> (Inl e, r4)
             | (Inr line2, r4) \<Rightarrow>
                 if line2 \<noteq> ''BEGIN'' then (Inl (Auth ExpectedBegin), r4) else auth_done uid r4))
          else if line \<noteq> ''BEGIN'' then (Inl (Auth ExpectedBegin), r2)
          else auth_done uid r2))"

text \<open>The challenge-response flow after a bare \<open>AUTH EXTERNAL\<close>.\<close>

definition challenge ::
    "tokio_io \<Rightarrow> auth_env \<Rightarrow> sasl_auth \<Rightarrow> buf_reader \<Rightarrow> (error + auth_result) \<times> buf_reader" where
  "challenge T A auth r =
     (case send_line T ''DATA'' r of
        (Inl e, r1) \<Rightarrow> (Inl e, r1)
      | (Inr _, r1) \<Rightarrow>
     (case read_line T r1 of
        (Inl e, r2) \<Rightarrow> (Inl e, r2)
      | (Inr line, r2) \<Rightarrow>
          (case strip_prefix line ''DATA '' of
             Some hex \<Rightarrow>
               (case parse_hex_uid A hex of Inl e \<Rightarrow> (Inl e, r2) | Inr uid \<Rightarrow> complete_auth T auth uid r2)
           | None \<Rightarrow>
               if line = ''DATA'' then complete_auth T auth (ae_uid A) r2
               else (Inl (Auth (InvalidData (''Expected DATA response, got: '' @ line))), r2))))"

text \<open>The lines that are answered with \<open>REJECTED EXTERNAL\<close>, after which the client may try again.\<close>

definition restarts :: "string \<Rightarrow> bool" where
  "restarts line = (line = ''AUTH'' \<or> starts_with line ''AUTH '' \<or> line = ''CANCEL''
     \<or> line = ''ERROR'' \<or> starts_with line ''ERROR '')"

text \<open>The effect of \<open>read_line\<close> in terms of the unread bytes.\<close>

definition line_spec :: "u8 list \<Rightarrow> io_error option \<Rightarrow> (error + string) \<times> u8 list" where
  "line_spec u fin =
     (let (res, rest) = until_spec u fin in
      (case utf8_line res of
         Inl e \<Rightarrow> Inl (Io e)
       | Inr s \<Rightarrow>
           (let line = pop_if (CHR 0x0D) (pop_if (CHR 0x0A) s)
            in if line = [] then Inl (Io (IoError UnexpectedEof ''Empty line'')) else Inr line), rest))"

lemma read_line_spec:
  assumes "tokio_laws T"
  shows "fst (read_line T r) = fst (line_spec (unread r) (sk_end (br_sock r)))"
    and "unread (snd (read_line T r)) = snd (line_spec (unread r) (sk_end (br_sock r)))"
    and "sock_rest (br_sock (snd (read_line T r))) = sock_rest (br_sock r)"
  using tokio_lawsD(6-8)[OF assms, of r]
  by (auto simp: read_line_def line_spec_def case_prod_unfold Let_def split: sum.splits)

lemma line_spec_shorter:
  assumes "line_spec u fin = (Inr line, rest)"
  shows "length rest < length u"
proof -
  have "u \<noteq> []"
    using assms by (auto simp: line_spec_def until_spec_def utf8_line_def from_utf8_def string_of_def pop_if_def split: option.splits)
  moreover have "length (tl (dropWhile P v)) < length v" if "v \<noteq> []" for P and v :: "u8 list"
    using that length_dropWhile_le[of P v] by (cases v) (auto simp: less_Suc_eq_le intro: le_trans[OF diff_le_self])
  ultimately show ?thesis
    using assms by (auto simp: line_spec_def until_spec_def split: if_splits)
qed

lemma read_line_shorter:
  "tokio_laws T \<Longrightarrow> read_line T r = (Inr line, r1) \<Longrightarrow> length (unread r1) < length (unread r)"
  using read_line_spec(1,2)[of T r] line_spec_shorter[of "unread r" "sk_end (br_sock r)" line "unread r1"]
  by (simp add: prod_eq_iff)

lemma send_line_kept:
  assumes "tokio_laws T" and "send_line T l r = (res, r1)"
  shows "unread r1 = unread r" and "sk_end (br_sock r1) = sk_end (br_sock r)"
  using assms(2) tokio_lawsD(4)[OF assms(1), of _ "br_sock r"] by (auto simp: send_line_def unread_def split: prod.splits)

partial_function (option) auth_loop ::
    "tokio_io \<Rightarrow> auth_env \<Rightarrow> sasl_auth \<Rightarrow> buf_reader \<Rightarrow> ((error + auth_result) \<times> buf_reader) option" where
  "auth_loop T A auth r =
     (case read_line T r of
        (Inl e, r1) \<Rightarrow> Some (Inl e, r1)
      | (Inr line, r1) \<Rightarrow>
          (case strip_prefix line ''AUTH EXTERNAL '' of
             Some hex_uid \<Rightarrow>
               (case parse_hex_uid A hex_uid of
                  Inl e \<Rightarrow> Some (Inl e, r1)
                | Inr uid \<Rightarrow> Some (complete_auth T auth uid r1))
           | None \<Rightarrow>
               if line = ''AUTH EXTERNAL'' then Some (challenge T A auth r1)
               else if restarts line then
                 (case send_line T ''REJECTED EXTERNAL'' r1 of
                    (Inl e, r2) \<Rightarrow> Some (Inl e, r2)
                  | (Inr _, r2) \<Rightarrow> auth_loop T A auth r2)
               else Some (Inl (Auth (InvalidData (''Unexpected line: '' @ line))), r1)))"

definition authenticate_server ::
    "tokio_io \<Rightarrow> auth_env \<Rightarrow> sasl_auth \<Rightarrow> socket \<Rightarrow> ((error + auth_result) \<times> socket) option" where
  "authenticate_server T A auth stream =
     (case io_read_exact T 1 stream of
        (Inl e, s) \<Rightarrow> Some (Inl (Io e), s)
      | (Inr null_byte, s) \<Rightarrow>
          if null_byte ! 0 \<noteq> 0 then Some (Inl (Auth ExpectedNullByte), s)
          else map_option (\<lambda>(res, r). (res, br_sock r)) (auth_loop T A auth \<lparr>br_buf = [], br_sock = s\<rparr>))"

section \<open>The turns of the loop\<close>

text \<open>One turn: the result, or the reader with which the loop goes on.\<close>

definition auth_turn ::
    "tokio_io \<Rightarrow> auth_env \<Rightarrow> sasl_auth \<Rightarrow> buf_reader \<Rightarrow> ((error + auth_result) \<times> buf_reader) + buf_reader" where
  "auth_turn T A auth r =
     (case read_line T r of
        (Inl e, r1) \<Rightarrow> Inl (Inl e, r1)
      | (Inr line, r1) \<Rightarrow>
          (case strip_prefix line ''AUTH EXTERNAL '' of
             Some hex_uid \<Rightarrow>
               Inl (case parse_hex_uid A hex_uid of Inl e \<Rightarrow> (Inl e, r1) | Inr uid \<Rightarrow> complete_auth T auth uid r1)
           | None \<Rightarrow>
               if line = ''AUTH EXTERNAL'' then Inl (challenge T A auth r1)
               else if restarts line then
                 (case send_line T ''REJECTED EXTERNAL'' r1 of (Inl e, r2) \<Rightarrow> Inl (Inl e, r2) | (Inr _, r2) \<Rightarrow> Inr r2)
               else Inl (Inl (Auth (InvalidData (''Unexpected line: '' @ line))), r1)))"

lemma auth_loop_turn:
  "auth_loop T A auth r = (case auth_turn T A auth r of Inl x \<Rightarrow> Some x | Inr r2 \<Rightarrow> auth_loop T A auth r2)"
  by (subst auth_loop.simps) (auto simp: auth_turn_def split: prod.splits sum.splits option.splits)

lemma auth_turn_again:
  assumes "tokio_laws T" and "auth_turn T A auth r = Inr r2"
  obtains line r1 where "read_line T r = (Inr line, r1)" "strip_prefix line ''AUTH EXTERNAL '' = None"
    "line \<noteq> ''AUTH EXTERNAL''" "restarts line" "send_line T ''REJECTED EXTERNAL'' r1 = (Inr (), r2)"
    "length (unread r2) < length (unread r)"
proof -
  from assms(2) obtain line r1 where l: "read_line T r = (Inr line, r1)" "strip_prefix line ''AUTH EXTERNAL '' = None"
    "line \<noteq> ''AUTH EXTERNAL''" "restarts line" "send_line T ''REJECTED EXTERNAL'' r1 = (Inr (), r2)"
    unfolding auth_turn_def by (auto split: prod.splits sum.splits option.splits if_splits)
  from that[OF this] read_line_shorter[OF assms(1) l(1)] send_line_kept(1)[OF assms(1) l(5)] show thesis by simp
qed

text \<open>Each further turn has fewer bytes to read, so the loop ends.\<close>

lemma auth_loop_induct:
  assumes "tokio_laws T" and "\<And>r. (\<And>r2. auth_turn T A auth r = Inr r2 \<Longrightarrow> P r2) \<Longrightarrow> P r"
  shows "P r"
proof (induction "length (unread r)" arbitrary: r rule: less_induct)
  case less
  show ?case by (rule assms(2), rule less, erule auth_turn_again[OF assms(1)])
qed

lemma auth_loop_returns:
  assumes "tokio_laws T"
  shows "\<exists>x. auth_loop T A auth r = Some x"
proof (induction r rule: auth_loop_induct[OF assms, where A = A and auth = auth])
  case (1 r)
  then show ?case by (subst auth_loop_turn) (auto split: sum.splits)
qed

section \<open>The transcripts that authenticate\<close>

text \<open>
  The handshake as a grammar over the bytes of the client: \<open>finishes guid fin u rest out\<close> says
  that the bytes \<open>u\<close> complete a handshake, \<open>rest\<close> is what follows, and \<open>out\<close> is what the server
  sends meanwhile; \<open>authenticates\<close> does so for the whole dialogue after the null byte.
\<close>

inductive finishes :: "string \<Rightarrow> io_error option \<Rightarrow> u8 list \<Rightarrow> u8 list \<Rightarrow> string \<Rightarrow> bool" for guid fin where
  Plain: "line_spec u fin = (Inr ''BEGIN'', rest) \<Longrightarrow> finishes guid fin u rest (ok_line guid @ crlf)"
| With_fds: "line_spec u fin = (Inr ''NEGOTIATE_UNIX_FD'', u1) \<Longrightarrow> line_spec u1 fin = (Inr ''BEGIN'', rest) \<Longrightarrow>
     finishes guid fin u rest (ok_line guid @ crlf @ ''AGREE_UNIX_FD'' @ crlf)"

text \<open>The user id of a response to the challenge: the one it names, or the server's own.\<close>

definition data_uid :: "auth_env \<Rightarrow> string \<Rightarrow> u32 \<Rightarrow> bool" where
  "data_uid A line uid =
     ((\<exists>hex. line = ''DATA '' @ hex \<and> parse_hex_uid A hex = Inr uid) \<or> line = ''DATA'' \<and> uid = ae_uid A)"

inductive authenticates ::
    "auth_env \<Rightarrow> string \<Rightarrow> io_error option \<Rightarrow> u8 list \<Rightarrow> u32 \<Rightarrow> u8 list \<Rightarrow> string \<Rightarrow> bool" for A guid fin where
  Direct: "line_spec u fin = (Inr (''AUTH EXTERNAL '' @ hex), u1) \<Longrightarrow> parse_hex_uid A hex = Inr uid \<Longrightarrow>
     finishes guid fin u1 rest out \<Longrightarrow> authenticates A guid fin u uid rest out"
| Response: "line_spec u fin = (Inr ''AUTH EXTERNAL'', u1) \<Longrightarrow> line_spec u1 fin = (Inr line, u2) \<Longrightarrow>
     data_uid A line uid \<Longrightarrow> finishes guid fin u2 rest out \<Longrightarrow>
     authenticates A guid fin u uid rest (''DATA'' @ crlf @ out)"
| Again: "line_spec u fin = (Inr line, u1) \<Longrightarrow> restarts line \<Longrightarrow> line \<noteq> ''AUTH EXTERNAL'' \<Longrightarrow>
     \<not> starts_with line ''AUTH EXTERNAL '' \<Longrightarrow> authenticates A guid fin u1 uid rest out \<Longrightarrow>
     authenticates A guid fin u uid rest (''REJECTED EXTERNAL'' @ crlf @ out)"

definition clean :: "io_error option \<Rightarrow> buf_reader \<Rightarrow> bool" where
  "clean fin r = (sk_end (br_sock r) = fin \<and> sk_write_errors (br_sock r) = [])"

text \<open>A step of the handshake succeeds with a user id, bytes left over and everything sent so far.\<close>

definition succeeds :: "(error + auth_result) \<times> buf_reader \<Rightarrow> u32 \<Rightarrow> u8 list \<Rightarrow> u8 list \<Rightarrow> bool" where
  "succeeds x uid rest sent \<longleftrightarrow>
     (\<exists>r'. x = (Inr \<lparr>ar_uid = uid, ar_buffered = br_buf r'\<rparr>, r') \<and> unread r' = rest
        \<and> sk_out (br_sock r') = sent)"

lemma succeeds_Inl [simp]: "\<not> succeeds (Inl e, r) uid rest sent"
  by (simp add: succeeds_def)

lemma send_line_clean:
  assumes "tokio_laws T" and "clean fin r"
  shows "send_line T l r = (Inr (), r\<lparr>br_sock := (br_sock r)\<lparr>sk_out := sk_out (br_sock r) @ bytes_of (l @ crlf)\<rparr>\<rparr>)"
  using assms(2) tokio_lawsD(3)[OF assms(1), of "br_sock r"] by (simp add: send_line_def clean_def)

lemma read_line_clean:
  assumes "tokio_laws T" and "clean fin r" and "read_line T r = (res, r1)"
  shows "line_spec (unread r) fin = (res, unread r1)" "clean fin r1" "sk_out (br_sock r1) = sk_out (br_sock r)"
  using assms(2,3) read_line_spec[OF assms(1), of r] by (auto simp: prod_eq_iff clean_def sock_rest_def)

lemma auth_done_succeeds:
  "succeeds (auth_done uid r) uid' rest sent \<longleftrightarrow> uid' = uid \<and> rest = unread r \<and> sent = sk_out (br_sock r)"
  by (auto simp: succeeds_def auth_done_def)

inductive_simps finishes_simps: "finishes guid fin u rest out"

lemma finishes_line:
  "line_spec u fin = (Inl e, v) \<Longrightarrow> \<not> finishes guid fin u rest out"
  "line_spec u fin = (Inr line, v) \<Longrightarrow> finishes guid fin u rest out \<longleftrightarrow>
     line = ''BEGIN'' \<and> rest = v \<and> out = ok_line guid @ crlf
     \<or> line = ''NEGOTIATE_UNIX_FD'' \<and> line_spec v fin = (Inr ''BEGIN'', rest)
        \<and> out = ok_line guid @ crlf @ ''AGREE_UNIX_FD'' @ crlf"
  by (auto simp: finishes_simps)

lemma bytes_of_inject [simp]: "bytes_of s = bytes_of t \<longleftrightarrow> s = t"
  by (metis string_of_bytes_of)

lemma complete_auth_succeeds:
  assumes "tokio_laws T" and "clean fin r"
  shows "succeeds (complete_auth T auth uid r) uid' rest sent \<longleftrightarrow>
     uid' = uid \<and> (\<exists>out. finishes (server_guid auth) fin (unread r) rest out \<and> sent = sk_out (br_sock r) @ bytes_of out)"
proof -
  define r1 where "r1 = snd (send_line T (ok_line (server_guid auth)) r)"
  have r1: "send_line T (ok_line (server_guid auth)) r = (Inr (), r1)" "clean fin r1" "unread r1 = unread r"
    "sk_out (br_sock r1) = sk_out (br_sock r) @ bytes_of (ok_line (server_guid auth) @ crlf)"
    using assms(2) by (simp_all only: r1_def send_line_clean[OF assms] snd_conv) (simp_all add: clean_def unread_def)
  obtain res r2 where r2: "read_line T r1 = (res, r2)" by fastforce
  note l2 = read_line_clean[OF assms(1) r1(2) r2, unfolded r1(3)]
  show ?thesis
  proof (cases res)
    case (Inl e)
    then show ?thesis using l2(1) finishes_line(1) by (simp add: complete_auth_def r1(1) r2)
  next
    case (Inr line)
    note fin = finishes_line(2)[OF l2(1)[unfolded Inr]]
    consider (bare) "line = ''BEGIN''" | (fds) "line = ''NEGOTIATE_UNIX_FD''"
      | (other) "line \<noteq> ''BEGIN''" "line \<noteq> ''NEGOTIATE_UNIX_FD''" by blast
    then show ?thesis
    proof cases
      case bare
      then show ?thesis unfolding fin
        by (auto simp: complete_auth_def r1(1) r2 Inr auth_done_succeeds l2(3) r1(4) simp flip: bytes_of_append)
    next
      case other
      then show ?thesis unfolding fin by (simp add: complete_auth_def r1(1) r2 Inr)
    next
      case fds
      define r3 where "r3 = snd (send_line T ''AGREE_UNIX_FD'' r2)"
      have r3: "send_line T ''AGREE_UNIX_FD'' r2 = (Inr (), r3)" "clean fin r3" "unread r3 = unread r2"
        "sk_out (br_sock r3) = sk_out (br_sock r2) @ bytes_of (''AGREE_UNIX_FD'' @ crlf)"
        using l2(2) by (simp_all only: r3_def send_line_clean[OF assms(1) l2(2)] snd_conv) (simp_all add: clean_def unread_def)
      obtain res4 r4 where r4: "read_line T r3 = (res4, r4)" by fastforce
      note l4 = read_line_clean[OF assms(1) r3(2) r4, unfolded r3(3)]
      have eq: "complete_auth T auth uid r = (case res4 of Inl e \<Rightarrow> (Inl e, r4)
          | Inr line2 \<Rightarrow> if line2 \<noteq> ''BEGIN'' then (Inl (Auth ExpectedBegin), r4) else auth_done uid r4)"
        using fds by (simp add: complete_auth_def r1(1) r2 Inr r3(1) r4 split: sum.splits)
      show ?thesis
        unfolding fin eq using fds
        by (auto simp: l4(1) auth_done_succeeds l4(3) r3(4) l2(3) r1(4) split: sum.splits simp flip: bytes_of_append)
    qed
  qed
qed


lemma data_uid_strip:
  "data_uid A line uid \<longleftrightarrow>
     (case strip_prefix line ''DATA '' of
        Some hex \<Rightarrow> parse_hex_uid A hex = Inr uid
      | None \<Rightarrow> line = ''DATA'' \<and> uid = ae_uid A)"
  unfolding data_uid_def strip_prefix_Some[symmetric]
  by (auto simp: strip_prefix_def split: option.splits)

lemma challenge_succeeds:
  assumes "tokio_laws T" and "clean fin r"
  shows "succeeds (challenge T A auth r) uid rest sent \<longleftrightarrow>
     (\<exists>line u2 out. line_spec (unread r) fin = (Inr line, u2) \<and> data_uid A line uid
        \<and> finishes (server_guid auth) fin u2 rest out \<and> sent = sk_out (br_sock r) @ bytes_of (''DATA'' @ crlf @ out))"
proof -
  define r1 where "r1 = snd (send_line T ''DATA'' r)"
  have r1: "send_line T ''DATA'' r = (Inr (), r1)" "clean fin r1" "unread r1 = unread r"
    "sk_out (br_sock r1) = sk_out (br_sock r) @ bytes_of (''DATA'' @ crlf)"
    using assms(2) by (simp_all only: r1_def send_line_clean[OF assms] snd_conv) (simp_all add: clean_def unread_def)
  obtain res r2 where r2: "read_line T r1 = (res, r2)" by fastforce
  note l2 = read_line_clean[OF assms(1) r1(2) r2, unfolded r1(3)]
  have sent: "(\<exists>out. finishes (server_guid auth) fin (unread r2) rest out \<and> sent = sk_out (br_sock r2) @ bytes_of out) \<longleftrightarrow>
      (\<exists>out. finishes (server_guid auth) fin (unread r2) rest out \<and> sent = sk_out (br_sock r) @ bytes_of (''DATA'' @ crlf @ out))"
    by (simp add: l2(3) r1(4) flip: bytes_of_append)
  show ?thesis
    using l2(1) by (cases res) (auto simp: challenge_def r1(1) r2 complete_auth_succeeds[OF assms(1) l2(2)] sent data_uid_strip
        split: sum.splits option.splits)
qed

lemma restarts_None: "strip_prefix line ''AUTH EXTERNAL '' = None \<longleftrightarrow> \<not> starts_with line ''AUTH EXTERNAL ''"
  by (simp only: strip_prefix_def split: if_splits) simp

lemma authenticates_Inl: "line_spec u fin = (Inl e, v) \<Longrightarrow> \<not> authenticates A guid fin u uid rest out"
  by (subst authenticates.simps) simp

lemma authenticates_line:
  assumes "line_spec u fin = (Inr line, u1)"
  shows "authenticates A guid fin u uid rest out \<longleftrightarrow>
     (case strip_prefix line ''AUTH EXTERNAL '' of
        Some hex \<Rightarrow> parse_hex_uid A hex = Inr uid \<and> finishes guid fin u1 rest out
      | None \<Rightarrow>
          if line = ''AUTH EXTERNAL''
          then \<exists>line2 u2 out1. line_spec u1 fin = (Inr line2, u2) \<and> data_uid A line2 uid
                 \<and> finishes guid fin u2 rest out1 \<and> out = ''DATA'' @ crlf @ out1
          else restarts line \<and> (\<exists>out1. authenticates A guid fin u1 uid rest out1 \<and> out = ''REJECTED EXTERNAL'' @ crlf @ out1))"
proof (cases "strip_prefix line ''AUTH EXTERNAL ''")
  case (Some hex)
  then have line: "line = ''AUTH EXTERNAL '' @ hex" by (simp only: strip_prefix_Some)
  then have pre: "starts_with line ''AUTH EXTERNAL ''" and "line \<noteq> ''AUTH EXTERNAL''" by simp_all
  show ?thesis
    unfolding Some option.case
  proof
    assume "authenticates A guid fin u uid rest out"
    then show "parse_hex_uid A hex = Inr uid \<and> finishes guid fin u1 rest out"
      by (cases rule: authenticates.cases) (use assms line pre in auto)
  qed (use assms line in \<open>blast intro: authenticates.Direct\<close>)
next
  case None
  then have pre: "\<not> starts_with line ''AUTH EXTERNAL ''" by (simp only: restarts_None simp_thms)
  then have no: "line \<noteq> ''AUTH EXTERNAL '' @ hex" for hex by (metis prefixI)
  show ?thesis
  proof (cases "line = ''AUTH EXTERNAL''")
    case True
    then have "authenticates A guid fin u uid rest out \<longleftrightarrow>
        (\<exists>line2 u2 out1. line_spec u1 fin = (Inr line2, u2) \<and> data_uid A line2 uid
           \<and> finishes guid fin u2 rest out1 \<and> out = ''DATA'' @ crlf @ out1)"
      using assms by (subst authenticates.simps) auto
    then show ?thesis unfolding None option.case by (simp only: True if_True simp_thms)
  next
    case False
    have "authenticates A guid fin u uid rest out \<longleftrightarrow>
        restarts line \<and> (\<exists>out1. authenticates A guid fin u1 uid rest out1 \<and> out = ''REJECTED EXTERNAL'' @ crlf @ out1)"
    proof
      assume "authenticates A guid fin u uid rest out"
      then show "restarts line \<and> (\<exists>out1. authenticates A guid fin u1 uid rest out1 \<and> out = ''REJECTED EXTERNAL'' @ crlf @ out1)"
        by (cases rule: authenticates.cases) (use assms False no in auto)
    qed (use assms False pre in \<open>blast intro: authenticates.Again\<close>)
    then show ?thesis unfolding None option.case by (simp only: False if_False simp_thms)
  qed
qed

text \<open>The result of the loop hands over what was read ahead, and the end of the input is as it was.\<close>

definition sound :: "buf_reader \<Rightarrow> (error + auth_result) \<times> buf_reader \<Rightarrow> bool" where
  "sound r x \<longleftrightarrow> sk_end (br_sock (snd x)) = sk_end (br_sock r) \<and> (\<forall>res. fst x = Inr res \<longrightarrow> ar_buffered res = br_buf (snd x))"

lemma sound_Inl: "sk_end (br_sock r1) = sk_end (br_sock r) \<Longrightarrow> sound r (Inl e, r1)"
  by (simp add: sound_def)

lemma sound_end: "sound r1 x \<Longrightarrow> sk_end (br_sock r1) = sk_end (br_sock r) \<Longrightarrow> sound r x"
  by (simp add: sound_def)

lemma read_line_end:
  "tokio_laws T \<Longrightarrow> read_line T r = (res, r1) \<Longrightarrow> sk_end (br_sock r1) = sk_end (br_sock r)"
  using read_line_spec(3)[of T r] by (simp add: sock_rest_def)

lemma complete_auth_sound:
  assumes "tokio_laws T"
  shows "sound r (complete_auth T auth uid r)"
proof -
  obtain res1 r1 where r1: "send_line T (ok_line (server_guid auth)) r = (res1, r1)" by fastforce
  obtain res2 r2 where r2: "read_line T r1 = (res2, r2)" by fastforce
  obtain res3 r3 where r3: "send_line T ''AGREE_UNIX_FD'' r2 = (res3, r3)" by fastforce
  obtain res4 r4 where r4: "read_line T r3 = (res4, r4)" by fastforce
  have ends: "sk_end (br_sock r1) = sk_end (br_sock r)" "sk_end (br_sock r2) = sk_end (br_sock r)"
    "sk_end (br_sock r3) = sk_end (br_sock r)" "sk_end (br_sock r4) = sk_end (br_sock r)"
    using send_line_kept(2)[OF assms r1] read_line_end[OF assms r2] send_line_kept(2)[OF assms r3] read_line_end[OF assms r4]
    by simp_all
  then show ?thesis
    unfolding complete_auth_def r1 r2 r3 r4 prod.case
    by (auto simp: auth_done_def sound_def split: sum.splits)
qed

lemma challenge_sound:
  assumes "tokio_laws T"
  shows "sound r (challenge T A auth r)"
proof -
  obtain res1 r1 where r1: "send_line T ''DATA'' r = (res1, r1)" by fastforce
  obtain res2 r2 where r2: "read_line T r1 = (res2, r2)" by fastforce
  have ends: "sk_end (br_sock r1) = sk_end (br_sock r)" "sk_end (br_sock r2) = sk_end (br_sock r)"
    using send_line_kept(2)[OF assms r1] read_line_end[OF assms r2] by simp_all
  then show ?thesis
    unfolding challenge_def r1 r2 prod.case
    by (auto intro: sound_Inl sound_end[OF complete_auth_sound[OF assms]] split: sum.splits option.splits)
qed

lemma auth_turn_sound:
  assumes "tokio_laws T"
  shows "auth_turn T A auth r = Inl x \<Longrightarrow> sound r x"
    and "auth_turn T A auth r = Inr r2 \<Longrightarrow> sk_end (br_sock r2) = sk_end (br_sock r)"
proof -
  obtain res r1 where r1: "read_line T r = (res, r1)" by fastforce
  obtain sent r3 where r3: "send_line T ''REJECTED EXTERNAL'' r1 = (sent, r3)" by fastforce
  have ends: "sk_end (br_sock r1) = sk_end (br_sock r)" "sk_end (br_sock r3) = sk_end (br_sock r)"
    using send_line_kept(2)[OF assms r3] read_line_end[OF assms r1] by simp_all
  show "auth_turn T A auth r = Inl x \<Longrightarrow> sound r x"
    using ends unfolding auth_turn_def r1 r3 prod.case
    by (auto intro: sound_Inl sound_end[OF complete_auth_sound[OF assms]] sound_end[OF challenge_sound[OF assms]]
        split: sum.splits option.splits if_splits)
  show "auth_turn T A auth r = Inr r2 \<Longrightarrow> sk_end (br_sock r2) = sk_end (br_sock r)"
    using ends unfolding auth_turn_def r1 r3 prod.case by (auto split: sum.splits option.splits if_splits)
qed

lemma auth_loop_sound:
  assumes "tokio_laws T"
  shows "auth_loop T A auth r = Some x \<Longrightarrow> sound r x"
proof (induction r rule: auth_loop_induct[OF assms, where A = A and auth = auth])
  case (1 r)
  then show ?case
    using auth_turn_sound[OF assms, of A auth r] by (subst (asm) (2) auth_loop_turn) (auto intro: sound_end split: sum.splits)
qed

text \<open>A turn and the loop accept exactly the transcripts of the grammar.\<close>

lemma auth_turn_succeeds:
  assumes "tokio_laws T" and "clean fin r"
  shows "auth_turn T A auth r = Inl x \<Longrightarrow> succeeds x uid rest sent \<longleftrightarrow>
      (\<exists>out. authenticates A (server_guid auth) fin (unread r) uid rest out \<and> sent = sk_out (br_sock r) @ bytes_of out)"
    and "auth_turn T A auth r = Inr r2 \<Longrightarrow> clean fin r2 \<and>
      ((\<exists>out. authenticates A (server_guid auth) fin (unread r2) uid rest out \<and> sent = sk_out (br_sock r2) @ bytes_of out) \<longleftrightarrow>
       (\<exists>out. authenticates A (server_guid auth) fin (unread r) uid rest out \<and> sent = sk_out (br_sock r) @ bytes_of out))"
proof -
  obtain res r1 where r1: "read_line T r = (res, r1)" by fastforce
  note l1 = read_line_clean[OF assms r1]
  let ?ok = "\<exists>out. authenticates A (server_guid auth) fin (unread r) uid rest out \<and> sent = sk_out (br_sock r) @ bytes_of out"
  {
    assume again: "auth_turn T A auth r = Inr r2"
    obtain line v where v: "read_line T r = (Inr line, v)" "strip_prefix line ''AUTH EXTERNAL '' = None"
      "line \<noteq> ''AUTH EXTERNAL''" "restarts line" "send_line T ''REJECTED EXTERNAL'' v = (Inr (), r2)"
      by (rule auth_turn_again[OF assms(1) again])
    then have "v = r1" "res = Inr line" using r1 by simp_all
    note line = this(2) v(2-5)[unfolded this(1)]
    have r2: "clean fin r2" "unread r2 = unread r1"
      "sk_out (br_sock r2) = sk_out (br_sock r1) @ bytes_of (''REJECTED EXTERNAL'' @ crlf)"
      using line(5) l1(2) unfolding send_line_clean[OF assms(1) l1(2)] prod.inject
      by (auto simp: clean_def unread_def)
    have "?ok \<longleftrightarrow> (\<exists>out. authenticates A (server_guid auth) fin (unread r2) uid rest out \<and> sent = sk_out (br_sock r2) @ bytes_of out)"
      unfolding authenticates_line[OF l1(1)[unfolded line(1)]] line(2) option.case r2(2,3) l1(3)
      using line(3,4) by (auto simp flip: bytes_of_append)
    with r2(1) show "clean fin r2 \<and>
      ((\<exists>out. authenticates A (server_guid auth) fin (unread r2) uid rest out \<and> sent = sk_out (br_sock r2) @ bytes_of out) \<longleftrightarrow> ?ok)"
      by blast
  next
    assume over: "auth_turn T A auth r = Inl x"
    show "succeeds x uid rest sent \<longleftrightarrow> ?ok"
    proof (cases res)
      case (Inl e)
      then have "x = (Inl e, r1)" using over by (simp add: auth_turn_def r1)
      then show ?thesis using l1(1) Inl by (simp add: authenticates_Inl)
    next
      case (Inr line)
      note auth = authenticates_line[OF l1(1)[unfolded Inr]]
      show ?thesis
      proof (cases "strip_prefix line ''AUTH EXTERNAL ''")
        case (Some hex)
        then have "x = (case parse_hex_uid A hex of Inl e \<Rightarrow> (Inl e, r1) | Inr uid \<Rightarrow> complete_auth T auth uid r1)"
          using over unfolding auth_turn_def r1 Inr by simp
        then show ?thesis
          unfolding auth Some option.case
          by (auto simp: complete_auth_succeeds[OF assms(1) l1(2)] l1(3) split: sum.splits)
      next
        case None
        obtain r2 where "send_line T ''REJECTED EXTERNAL'' r1 = (Inr (), r2)"
          using send_line_clean[OF assms(1) l1(2)] by blast
        then have "x = (if line = ''AUTH EXTERNAL'' then challenge T A auth r1
            else (Inl (Auth (InvalidData (''Unexpected line: '' @ line))), r1)) \<and> (line = ''AUTH EXTERNAL'' \<or> \<not> restarts line)"
          using over unfolding auth_turn_def r1 Inr prod.case sum.case None option.case by (auto split: if_splits)
        then show ?thesis
          unfolding auth None option.case
          by (auto simp: challenge_succeeds[OF assms(1) l1(2)] l1(3) split: if_splits)
      qed
    qed
  }
qed

lemma auth_loop_succeeds:
  assumes "tokio_laws T"
  shows "clean fin r \<Longrightarrow> auth_loop T A auth r = Some x \<Longrightarrow> succeeds x uid rest sent \<longleftrightarrow>
     (\<exists>out. authenticates A (server_guid auth) fin (unread r) uid rest out \<and> sent = sk_out (br_sock r) @ bytes_of out)"
proof (induction r rule: auth_loop_induct[OF assms, where A = A and auth = auth])
  case (1 r)
  note turn = auth_turn_succeeds[OF assms 1(2)]
  from 1(3) have loop: "(case auth_turn T A auth r of Inl y \<Rightarrow> Some y | Inr r2 \<Rightarrow> auth_loop T A auth r2) = Some x"
    by (subst (asm) auth_loop_turn)
  show ?case
  proof (cases "auth_turn T A auth r")
    case (Inl y)
    then show ?thesis using turn(1)[OF Inl] loop by simp
  next
    case (Inr r2)
    then show ?thesis using turn(2)[OF Inr] 1(1)[OF Inr] loop by simp
  qed
qed

section \<open>An instance of the hex interface\<close>

definition hex_digit :: "nat \<Rightarrow> char" where
  "hex_digit n = (if n < 10 then char_of (48 + n) else char_of (87 + n))"

definition hex_value :: "char \<Rightarrow> nat option" where
  "hex_value c = find (\<lambda>n. hex_digit n = c) [0..<16]"

definition sample_hex_encode :: "u8 list \<Rightarrow> string" where
  "sample_hex_encode bs = concat (map (\<lambda>b. [hex_digit (unat b div 16), hex_digit (unat b mod 16)]) bs)"

fun sample_hex_decode :: "string \<Rightarrow> string + u8 list" where
  "sample_hex_decode [] = Inr []"
| "sample_hex_decode [c] = Inl ''Odd number of digits''"
| "sample_hex_decode (c # d # cs) =
     (case (hex_value c, hex_value d, sample_hex_decode cs) of
        (Some x, Some y, Inr bs) \<Rightarrow> Inr (of_nat (16 * x + y) # bs)
      | _ \<Rightarrow> Inl ''Invalid character'')"

definition sample_auth_env :: auth_env where
  "sample_auth_env = \<lparr>ae_hex_encode = sample_hex_encode, ae_hex_decode = sample_hex_decode, ae_uid = 0\<rparr>"

lemma hex_value_digit: "n < 16 \<Longrightarrow> hex_value (hex_digit n) = Some n"
proof -
  have "\<forall>n\<in>set [0..<16]. hex_value (hex_digit n) = Some n" by code_simp
  then show "n < 16 \<Longrightarrow> hex_value (hex_digit n) = Some n" by simp
qed

lemma unat_u8_less: "unat (b :: u8) < 256"
  by (rule order.strict_trans2 [OF unsigned_less]) simp

lemma sample_hex_digits:
  assumes "\<And>n. n < 16 \<Longrightarrow> hex_digit n \<in> D"
  shows "set (sample_hex_encode bs) \<subseteq> D"
proof -
  have "unat b div 16 < 16" for b :: u8 using unat_u8_less[of b] by simp
  then show ?thesis by (auto simp: sample_hex_encode_def intro!: assms)
qed

lemma sample_hex_laws: "hex_laws sample_auth_env"
proof -
  have "sample_hex_decode (sample_hex_encode bs) = Inr bs" for bs
    by (induction bs) (simp_all add: sample_hex_encode_def hex_value_digit unat_u8_less less_mult_imp_div_less)
  moreover have "\<forall>n\<in>set [0..<16]. hex_digit n \<in> set ''0123456789abcdef''" by code_simp
  then have "set (sample_hex_encode bs) \<subseteq> set ''0123456789abcdef''" for bs
    by (intro sample_hex_digits) simp
  ultimately show ?thesis by (simp add: hex_laws_def sample_auth_env_def)
qed

section \<open>The whole handshake\<close>

lemma authenticate_server_returns: "tokio_laws T \<Longrightarrow> \<exists>x. authenticate_server T A auth s = Some x"
  using auth_loop_returns[of T A auth] by (auto simp: authenticate_server_def split: prod.splits sum.splits)

lemma authenticate_server_succeeds:
  assumes "tokio_laws T" and "sk_write_errors s = []"
  shows "(\<exists>buffered s'. authenticate_server T A auth s = Some (Inr \<lparr>ar_uid = uid, ar_buffered = buffered\<rparr>, s')
            \<and> buffered @ sk_in s' = rest \<and> sk_out s' = sk_out s @ bytes_of out)
     \<longleftrightarrow> (\<exists>u. sk_in s = 0 # u \<and> authenticates A (server_guid auth) (sk_end s) u uid rest out)"
proof (cases "\<exists>u. sk_in s = 0 # u")
  case False
  then show ?thesis
    by (auto simp: authenticate_server_def io_read_exact_eq[OF assms(1)] sock_read_exact_def neq_Nil_conv Suc_le_eq split: if_splits)
next
  case True
  then obtain u where u: "sk_in s = 0 # u" by blast
  let ?r = "\<lparr>br_buf = [], br_sock = s\<lparr>sk_in := u\<rparr>\<rparr>"
  obtain x where x: "auth_loop T A auth ?r = Some x" using auth_loop_returns[OF assms(1)] by blast
  have eq: "authenticate_server T A auth s = Some (fst x, br_sock (snd x))"
    by (simp add: authenticate_server_def io_read_exact_eq[OF assms(1)] sock_read_exact_def u x case_prod_unfold)
  have "clean (sk_end s) ?r" using assms(2) by (simp add: clean_def)
  from auth_loop_succeeds[OF assms(1) this x, of uid rest "sk_out s @ bytes_of out"]
  have "succeeds x uid rest (sk_out s @ bytes_of out) \<longleftrightarrow> authenticates A (server_guid auth) (sk_end s) u uid rest out"
    by (simp add: unread_def)
  moreover have "fst x = Inr \<lparr>ar_uid = uid, ar_buffered = b\<rparr> \<Longrightarrow> b = br_buf (snd x)" for b
    using auth_loop_sound[OF assms(1) x] by (auto simp: sound_def)
  ultimately show ?thesis
    by (auto simp: eq u succeeds_def unread_def prod_eq_iff)
qed

lemma authenticate_server_end:
  assumes "tokio_laws T" and "authenticate_server T A auth s = Some (res, s')"
  shows "sk_end s' = sk_end s"
  using assms(2) auth_loop_sound[OF assms(1)]
  by (fastforce simp: authenticate_server_def io_read_exact_eq[OF assms(1)] sock_read_exact_def sound_def split: if_splits)

text \<open>
  User ids survive their encoding: parsing the encoding of a user id, hexadecimal digits of
  its decimal digits, gives the user id back, for every 32-bit value.
\<close>

lemma parse_encode_uid:
  assumes "hex_laws A"
  shows "parse_hex_uid A (encode_uid A uid) = Inr uid"
proof -
  have "ascii (show_nat n)" for n
    by (auto simp: ascii_def list_all_iff digit_char_def dest!: show_nat_digits)
  moreover have "parse_unsigned (2 ^ 32 - 1) (show_nat (unat uid)) = Inr (unat uid)"
    using unat_u32_less[of uid] by (intro parse_unsigned_show) simp
  ultimately show ?thesis
    using assms by (simp add: parse_hex_uid_def encode_uid_def hex_laws_def)
qed

section \<open>Properties\<close>

text \<open>
  C13. Authentication always ends, and accepts exactly the transcripts of the grammar, whatever the
  sizes in which the bytes arrive: with working writes, the handshake ends with a user id if and only if the
  client sent the null byte and a dialogue of the grammar, with rejected attempts before it; the
  server then sent exactly the lines the grammar gives, and the bytes read ahead of the message
  stream together with those still in the socket are exactly the bytes after \<open>BEGIN\<close>.
\<close>

theorem authenticated_transcripts:
  assumes "tokio_laws T"
  shows "authenticate_server T A auth s \<noteq> None
     \<and> (sk_write_errors s = [] \<longrightarrow>
        ((\<exists>buffered s'. authenticate_server T A auth s = Some (Inr \<lparr>ar_uid = uid, ar_buffered = buffered\<rparr>, s')
            \<and> buffered @ sk_in s' = rest \<and> sk_out s' = sk_out s @ bytes_of out)
        \<longleftrightarrow> (\<exists>u. sk_in s = 0 # u \<and> authenticates A (server_guid auth) (sk_end s) u uid rest out)))"
  using authenticate_server_returns[OF assms, of A auth s] authenticate_server_succeeds[OF assms, of s A auth uid rest out] by auto

definition sample_socket :: "u8 list \<Rightarrow> nat list \<Rightarrow> socket" where
  "sample_socket bs reads = \<lparr>sk_in = bs, sk_end = None, sk_reads = reads, sk_out = [], sk_fds = [], sk_write_errors = []\<rparr>"

text \<open>The shortest dialogue: a claimed user id, then \<open>BEGIN\<close>.\<close>

definition claim_dialogue :: "string \<Rightarrow> u8 list" where
  "claim_dialogue hex = bytes_of (''AUTH EXTERNAL '' @ hex @ crlf @ ''BEGIN'' @ crlf)"

lemma until_spec_line: "10 \<notin> set l \<Longrightarrow> until_spec (l @ 10 # rest) fin = (Inr (l @ [10]), rest)"
  by (simp add: until_spec_def takeWhile_append dropWhile_append)

lemma line_spec_crlf:
  assumes "ascii l" and "l \<noteq> []" and "CHR 0x0A \<notin> set l"
  shows "line_spec (bytes_of (l @ crlf) @ rest) fin = (Inr l, rest)"
proof -
  have byte: "(of_nat (of_char c) :: u8) = 10 \<longleftrightarrow> c = CHR 0x0A" for c :: char
  proof
    assume "(of_nat (of_char c) :: u8) = 10"
    then have "unat (of_nat (of_char c) :: u8) = 10" by simp
    then have "(of_char c :: nat) = of_char (CHR 0x0A)" by (simp add: unat_of_nat)
    then show "c = CHR 0x0A" by (simp only: of_char_eq_iff)
  qed simp
  have "(10 :: u8) \<notin> set (bytes_of (l @ [CHR 0x0D]))"
    using assms(3) by (auto simp: bytes_of_def byte dest: sym[of "10 :: u8"])
  from until_spec_line[OF this, of rest fin]
  have "until_spec (bytes_of (l @ crlf) @ rest) fin = (Inr (bytes_of (l @ crlf)), rest)"
    by (simp add: crlf_def bytes_of_def)
  moreover have "ascii (l @ crlf)" using assms(1) by (simp add: ascii_def crlf_def)
  ultimately show ?thesis
    using assms(2) by (simp add: line_spec_def utf8_line_def crlf_def pop_if_def suffix_def Let_def butlast_append del: bytes_of_append)
qed

lemma claim_authenticates:
  assumes "parse_hex_uid A hex = Inr uid" and "ascii hex" and "CHR 0x0A \<notin> set hex"
  shows "authenticates A guid fin (claim_dialogue hex @ rest) uid rest (ok_line guid @ crlf)"
proof (rule authenticates.Direct[OF _ assms(1)])
  have "ascii (''AUTH EXTERNAL '' @ hex)" using assms(2) by (simp add: ascii_def)
  then show "line_spec (claim_dialogue hex @ rest) fin = (Inr (''AUTH EXTERNAL '' @ hex), bytes_of (''BEGIN'' @ crlf) @ rest)"
    using line_spec_crlf[of "''AUTH EXTERNAL '' @ hex" "bytes_of (''BEGIN'' @ crlf) @ rest" fin] assms(3)
    by (simp add: claim_dialogue_def flip: bytes_of_append append_assoc)
  have "line_spec (bytes_of (''BEGIN'' @ crlf) @ rest) fin = (Inr ''BEGIN'', rest)"
    by (rule line_spec_crlf) (simp_all add: ascii_def)
  then show "finishes guid fin (bytes_of (''BEGIN'' @ crlf) @ rest) rest (ok_line guid @ crlf)"
    by (rule finishes.Plain)
qed

lemma sample_claim: "parse_hex_uid sample_auth_env ''31303030'' = Inr 1000"
proof -
  have "hex_value (CHR ''3'') = Some 3" "hex_value (CHR ''1'') = Some 1" "hex_value (CHR ''0'') = Some 0"
    by code_simp+
  then have "sample_hex_decode ''31303030'' = Inr [49, 48, 48, 48]" by simp
  moreover have "char_of (49 :: nat) = CHR ''1''" "char_of (48 :: nat) = CHR ''0''" by code_simp+
  then have "from_utf8 [49, 48, 48, 48] = Inr ''1000''" by (simp add: from_utf8_def utf8_width_def string_of_def)
  moreover have "parse_unsigned 4294967295 ''1000'' = Inr 1000" by (simp add: parse_unsigned_def to_digit_def)
  ultimately show ?thesis by (simp add: parse_hex_uid_def sample_auth_env_def)
qed

theorem authenticated_transcripts_witness:
  "\<exists>buffered s'. authenticate_server sample_tokio sample_auth_env (sasl_with_guid ''g'')
         (sample_socket (0 # claim_dialogue ''31303030'' @ [108, 1]) [3, 100])
       = Some (Inr \<lparr>ar_uid = 1000, ar_buffered = buffered\<rparr>, s') \<and> buffered @ sk_in s' = [108, 1]"
proof -
  have "authenticates sample_auth_env ''g'' None (claim_dialogue ''31303030'' @ [108, 1]) 1000 [108, 1] (ok_line ''g'' @ crlf)"
    by (rule claim_authenticates[OF sample_claim]) (simp_all add: ascii_def)
  with authenticated_transcripts[OF sample_tokio_laws, of sample_auth_env "sasl_with_guid ''g''"
      "sample_socket (0 # claim_dialogue ''31303030'' @ [108, 1]) [3, 100]" 1000 "[108, 1]" "ok_line ''g'' @ crlf"]
  show ?thesis by (auto simp: sample_socket_def sasl_with_guid_def)
qed

end
