(* ===== verification/Client_Conn.thy ===== *)
theory Client_Conn
  imports Sasl_Auth Message_Rewriting
begin

text \<open>
  The handler of one client connection (\<open>client.rs\<close>): accepting and authenticating it, reading
  its messages from the bytes left over by the handshake and then from the socket, and sending
  messages with their descriptors. Out-of-range slices panic, and so does an overflow of \<open>u32\<close>
  arithmetic in a build with overflow checks (\<open>checks\<close>); without them it wraps. Both builds are
  modelled. Of the channels of tokio the model has whether they are open, not their capacity.
\<close>

section \<open>State\<close>

definition FDS_MAX :: nat where
  "FDS_MAX = 253"

definition next_client_id :: "u64 \<Rightarrow> client_id \<times> u64" where
  "next_client_id counter = (counter, counter + 1)"

text \<open>The channel that \<open>accept\<close> creates is closed when \<open>accept\<close> drops its receiver (\<open>cl_tx_open\<close>).\<close>

record client_connection =
  cl_id :: client_id
  cl_unique_name :: string
  cl_owned_names :: "string list"
  cl_tx_open :: bool
  cl_uid :: u32
  cl_pid :: "u32 option"
  cl_gid :: u32

definition add_owned_name :: "string \<Rightarrow> client_connection \<Rightarrow> client_connection" where
  "add_owned_name name c = c\<lparr>cl_owned_names := List.insert name (cl_owned_names c)\<rparr>"

definition remove_owned_name :: "string \<Rightarrow> client_connection \<Rightarrow> bool \<times> client_connection" where
  "remove_owned_name name c =
     (name \<in> set (cl_owned_names c), c\<lparr>cl_owned_names := hs_remove name (cl_owned_names c)\<rparr>)"

definition client_send :: "client_connection \<Rightarrow> message \<Rightarrow> error + unit" where
  "client_send c msg = (if cl_tx_open c then Inr () else Inl (Client Disconnected))"

definition client_is_closed :: "client_connection \<Rightarrow> bool" where
  "client_is_closed c = (\<not> cl_tx_open c)"

record client_handler =
  ch_client :: client_connection
  ch_stream :: socket
  ch_read_buf :: "u8 list"
  ch_pending_data :: "u8 list"
  ch_pending_pos :: nat

section \<open>Accepting a client\<close>

text \<open>\<open>peer_cred\<close> of the socket: process, user and group of the peer.\<close>

record peer_cred =
  pr_pid :: "u32 option"
  pr_uid :: u32
  pr_gid :: u32

definition accept ::
    "tokio_io \<Rightarrow> auth_env \<Rightarrow> sasl_auth \<Rightarrow> io_error + peer_cred \<Rightarrow> socket \<Rightarrow> u64 \<Rightarrow>
     (error + client_handler) option \<times> u64" where
  "accept T A auth peer stream counter =
     (let (ident, counter') = next_client_id counter;
          (pid, gid) = (case peer of Inr cred \<Rightarrow> (pr_pid cred, pr_gid cred) | Inl _ \<Rightarrow> (None, 0))
      in case authenticate_server T A auth stream of
           None \<Rightarrow> (None, counter')
         | Some (Inl e, _) \<Rightarrow> (Some (Inl e), counter')
         | Some (Inr res, s) \<Rightarrow>
             (Some (Inr \<lparr>ch_client = \<lparr>cl_id = ident, cl_unique_name = '':mux.'' @ show_nat (unat ident),
                     cl_owned_names = [], cl_tx_open = False, cl_uid = ar_uid res, cl_pid = pid, cl_gid = gid\<rparr>,
                   ch_stream = s, ch_read_buf = replicate 16384 0,
                   ch_pending_data = ar_buffered res, ch_pending_pos = 0\<rparr>), counter'))"

lemma accept_identity:
  assumes "accept T A auth peer stream counter = (res, k)"
  shows "k = counter + 1"
    and "res = Some (Inr h) \<Longrightarrow> cl_id (ch_client h) = counter \<and> cl_unique_name (ch_client h) = '':mux.'' @ show_nat (unat counter)"
  using assms by (auto simp: accept_def next_client_id_def case_prod_unfold Let_def split: prod.splits sum.splits option.splits)

section \<open>Reading\<close>

datatype 'a outcome = Ret 'a | Panic

text \<open>The part of a read that the bytes of the handshake serve.\<close>

definition take_pending :: "nat \<Rightarrow> client_handler \<Rightarrow> u8 list \<times> client_handler" where
  "take_pending n h =
     (if ch_pending_pos h < length (ch_pending_data h) then
        (let pending_remaining = drop (ch_pending_pos h) (ch_pending_data h);
             to_copy = min (length pending_remaining) n;
             pos = ch_pending_pos h + to_copy
         in (take to_copy pending_remaining,
             if length (ch_pending_data h) \<le> pos then h\<lparr>ch_pending_data := [], ch_pending_pos := 0\<rparr>
             else h\<lparr>ch_pending_pos := pos\<rparr>))
      else ([], h))"

definition read_exact :: "tokio_io \<Rightarrow> nat \<Rightarrow> client_handler \<Rightarrow> (io_error + u8 list) \<times> client_handler" where
  "read_exact T n h =
     (let (got, h1) = take_pending n h in
      if length got < n then
        (case io_read_exact T (n - length got) (ch_stream h1) of
           (Inl e, s) \<Rightarrow> (Inl e, h1\<lparr>ch_stream := s\<rparr>)
         | (Inr bs, s) \<Rightarrow> (Inr (got @ bs), h1\<lparr>ch_stream := s\<rparr>))
      else (Inr got, h1))"

definition read_exact_into_buf ::
    "tokio_io \<Rightarrow> nat \<Rightarrow> nat \<Rightarrow> client_handler \<Rightarrow> (io_error + unit) outcome \<times> client_handler" where
  "read_exact_into_buf T offset len h =
     (let (got, h1) = take_pending len h in
      if ch_pending_pos h < length (ch_pending_data h) \<and> length (ch_read_buf h) < offset + length got then (Panic, h)
      else
        (let h2 = h1\<lparr>ch_read_buf := copy_slice offset got (ch_read_buf h1)\<rparr> in
         if length got < len then
           if length (ch_read_buf h2) < offset + len then (Panic, h2)
           else (case io_read_exact T (len - length got) (ch_stream h2) of
              (Inl e, s) \<Rightarrow>
                (Ret (Inl e), h2\<lparr>ch_stream := s,
                    ch_read_buf := copy_slice (offset + length got) (sk_in (ch_stream h2)) (ch_read_buf h2)\<rparr>)
            | (Inr bs, s) \<Rightarrow>
                (Ret (Inr ()), h2\<lparr>ch_stream := s,
                    ch_read_buf := copy_slice (offset + length got) bs (ch_read_buf h2)\<rparr>))
         else (Ret (Inr ()), h2)))"

text \<open>\<open>u32\<close> addition and subtraction, which panic on overflow in a build with checks.\<close>

definition add_u32 :: "bool \<Rightarrow> u32 \<Rightarrow> u32 \<Rightarrow> u32 option" where
  "add_u32 checks a b = (if checks \<and> 2 ^ 32 \<le> unat a + unat b then None else Some (a + b))"

definition sub_u32 :: "bool \<Rightarrow> u32 \<Rightarrow> u32 \<Rightarrow> u32 option" where
  "sub_u32 checks a b = (if checks \<and> unat a < unat b then None else Some (a - b))"

definition align8 :: "u32 \<Rightarrow> u32" where
  "align8 w = and w (not 7)"

definition total_size :: "bool \<Rightarrow> u32 \<Rightarrow> u32 \<Rightarrow> u32 option" where
  "total_size checks fields_len body_len =
     (case add_u32 checks fields_len 7 of None \<Rightarrow> None
      | Some f \<Rightarrow>
     (case add_u32 checks 16 (align8 f) of None \<Rightarrow> None
      | Some t \<Rightarrow> add_u32 checks t body_len))"

definition resize_buf :: "nat \<Rightarrow> u8 list \<Rightarrow> u8 list" where
  "resize_buf n buf = (if length buf < n then buf @ replicate (n - length buf) 0 else buf)"

definition parse_frame :: "zbus_api \<Rightarrow> endian \<Rightarrow> u8 list \<Rightarrow> (error + message option) outcome" where
  "parse_frame Z e bytes = Ret (case z_from_bytes Z e bytes of Inl err \<Rightarrow> Inl (DBus err) | Inr m \<Rightarrow> Inr (Some m))"

definition read_message ::
    "tokio_io \<Rightarrow> zbus_api \<Rightarrow> bool \<Rightarrow> client_handler \<Rightarrow> (error + message option) outcome \<times> client_handler" where
  "read_message T Z checks h =
     (case read_exact T 16 h of
        (Inl e, h1) \<Rightarrow>
          if io_kind_of e = UnexpectedEof then (Ret (Inr None), h1) else (Ret (Inl (Io e)), h1)
      | (Inr hdr, h1) \<Rightarrow>
          (let endian = announced_endian hdr;
               body_len = from_bytes endian (slice 4 8 hdr);
               fields_len = from_bytes endian (slice 12 16 hdr)
           in case total_size checks fields_len body_len of
                None \<Rightarrow> (Panic, h1)
              | Some total_len \<Rightarrow>
                  (let h2 = h1\<lparr>ch_read_buf := resize_buf (unat total_len) (ch_read_buf h1)\<rparr> in
                   if length (ch_read_buf h2) < 16 then (Panic, h2)
                   else
                     (let h3 = h2\<lparr>ch_read_buf := copy_slice 0 hdr (ch_read_buf h2)\<rparr> in
                      case sub_u32 checks total_len 16 of
                        None \<Rightarrow> (Panic, h3)
                      | Some remaining \<Rightarrow>
                          if 0 < unat remaining then
                            (case read_exact_into_buf T 16 (unat remaining) h3 of
                               (Panic, h4) \<Rightarrow> (Panic, h4)
                             | (Ret (Inl e), h4) \<Rightarrow> (Ret (Inl (Io e)), h4)
                             | (Ret (Inr _), h4) \<Rightarrow>
                                 (parse_frame Z endian (take (unat total_len) (ch_read_buf h4)), h4))
                          else (parse_frame Z endian (take (unat total_len) (ch_read_buf h3)), h3)))))"

section \<open>Writing\<close>

text \<open>One \<open>sendmsg\<close> with the descriptors; \<open>result\<close> is what the system call returns.\<close>

definition fd_sendmsg :: "u8 list \<Rightarrow> nat list \<Rightarrow> io_error + nat \<Rightarrow> io_error + nat" where
  "fd_sendmsg buffer fds result =
     (if fds \<noteq> [] \<and> FDS_MAX < length fds then Inl (IoError InvalidInput ''too many file descriptors'')
      else (case result of
         Inl e \<Rightarrow> Inl e
       | Inr sent \<Rightarrow>
           if sent = 0 \<and> buffer \<noteq> [] then Inl (IoError WriteZero ''failed to write to buffer'') else Inr sent))"

text \<open>\<open>writable\<close> is the error of waiting for the socket, if any.\<close>

definition send_message ::
    "tokio_io \<Rightarrow> io_error option \<Rightarrow> io_error + nat \<Rightarrow> message \<Rightarrow> client_handler \<Rightarrow> (error + unit) \<times> client_handler" where
  "send_message T writable result msg h =
     (let bytes = m_data msg; fds = m_fds msg in
      if fds = [] then
        (let (res, s) = io_write_all T bytes (ch_stream h) in (map_err Io res, h\<lparr>ch_stream := s\<rparr>))
      else (case writable of
         Some e \<Rightarrow> (Inl (Io e), h)
       | None \<Rightarrow>
      (case fd_sendmsg bytes fds result of
         Inl e \<Rightarrow> (Inl (Io e), h)
       | Inr sent \<Rightarrow>
           (let s = (ch_stream h)\<lparr>sk_out := sk_out (ch_stream h) @ take sent bytes,
                                  sk_fds := sk_fds (ch_stream h) @ fds\<rparr> in
            if sent = length bytes then (Inr (), h\<lparr>ch_stream := s\<rparr>)
            else (let (res, s') = io_write_all T (drop sent bytes) s in (map_err Io res, h\<lparr>ch_stream := s'\<rparr>))))))"

definition create_hello_reply :: "zbus_api \<Rightarrow> client_handler \<Rightarrow> message \<Rightarrow> error + message" where
  "create_hello_reply Z h original_msg =
     mrb_build Z (mrb_set_destination (cl_unique_name (ch_client h)) (method_return_builder_new original_msg))
       (StrBody (cl_unique_name (ch_client h)))"

definition create_request_name_reply :: "zbus_api \<Rightarrow> client_handler \<Rightarrow> message \<Rightarrow> u32 \<Rightarrow> error + message" where
  "create_request_name_reply Z h original_msg result =
     mrb_build Z (mrb_set_destination (cl_unique_name (ch_client h)) (method_return_builder_new original_msg))
       (U32Body result)"

definition create_error_reply ::
    "zbus_api \<Rightarrow> client_handler \<Rightarrow> message \<Rightarrow> string \<Rightarrow> string \<Rightarrow> error + message" where
  "create_error_reply Z h original_msg error_name text =
     eb_build Z (eb_set_destination (cl_unique_name (ch_client h)) (error_builder_new original_msg error_name)) text"

definition send_hello_reply ::
    "tokio_io \<Rightarrow> zbus_api \<Rightarrow> io_error option \<Rightarrow> io_error + nat \<Rightarrow> message \<Rightarrow> client_handler \<Rightarrow> (error + unit) \<times> client_handler" where
  "send_hello_reply T Z writable result original_msg h =
     (case create_hello_reply Z h original_msg of
        Inl e \<Rightarrow> (Inl e, h)
      | Inr reply \<Rightarrow> send_message T writable result reply h)"

section \<open>The event loop\<close>

text \<open>
  A read that \<open>select!\<close> drops because a message to the client is ready: \<open>n\<close> bytes of its
  message have arrived in the socket. What the read consumed of them is gone with it. A read that \<open>n\<close> bytes
  complete is not dropped.
\<close>

definition cancel_read :: "tokio_io \<Rightarrow> zbus_api \<Rightarrow> bool \<Rightarrow> nat \<Rightarrow> client_handler \<Rightarrow> client_handler" where
  "cancel_read T Z checks n h =
     (let s = ch_stream h;
          arrived = s\<lparr>sk_in := take n (sk_in s), sk_end := None\<rparr>;
          (res, h1) = read_message T Z checks (h\<lparr>ch_stream := arrived\<rparr>);
          h2 = h1\<lparr>ch_stream := (ch_stream h1)\<lparr>sk_in := sk_in (ch_stream h1) @ drop n (sk_in s), sk_end := sk_end s\<rparr>\<rparr>
      in case res of
           Ret (Inr None) \<Rightarrow> h2
         | Ret (Inl (Io e)) \<Rightarrow> if io_kind_of e = UnexpectedEof then h2 else h
         | _ \<Rightarrow> h)"

text \<open>
  What the loop meets: a message that can be read, with the inbound channel still open or not,
  or a message to the client, with what the socket does.
\<close>

datatype client_event =
    Readable bool
  | Outbound message nat "io_error option" "io_error + nat"

datatype run_end = Waiting | Finished | Panicked

text \<open>The loop over a sequence of events: the messages handed over, how it stands, and the handler.\<close>

fun client_run ::
    "tokio_io \<Rightarrow> zbus_api \<Rightarrow> bool \<Rightarrow> client_event list \<Rightarrow> client_handler \<Rightarrow> message list \<times> run_end \<times> client_handler" where
  "client_run T Z checks [] h = ([], Waiting, h)"
| "client_run T Z checks (Readable channel_open # evs) h =
     (case read_message T Z checks h of
        (Panic, h1) \<Rightarrow> ([], Panicked, h1)
      | (Ret (Inr (Some msg)), h1) \<Rightarrow>
          if channel_open then (let (msgs, fin, h2) = client_run T Z checks evs h1 in (msg # msgs, fin, h2))
          else ([], Finished, h1)
      | (Ret (Inr None), h1) \<Rightarrow> ([], Finished, h1)
      | (Ret (Inl e), h1) \<Rightarrow> ([], Finished, h1))"
| "client_run T Z checks (Outbound msg n writable result # evs) h =
     (case send_message T writable result msg (cancel_read T Z checks n h) of
        (Inl e, h1) \<Rightarrow> ([], Finished, h1)
      | (Inr _, h1) \<Rightarrow> client_run T Z checks evs h1)"

section \<open>Lemmas\<close>

lemma align8_unat: "unat (align8 w) = 8 * (unat w div 8)"
proof -
  have "and w (not 7) = and w (not (mask 3))" by (simp add: mask_eq_exp_minus_1)
  also have "\<dots> = and w (not (take_bit 3 w))" by (rule bit_eqI) (auto simp: bit_simps)
  also have "\<dots> = w - take_bit 3 w" by (rule disjunctive_diff[symmetric]) (auto simp: bit_simps)
  finally have w: "align8 w = w - take_bit 3 w" by (simp add: align8_def)
  have "unat (take_bit 3 w) = take_bit 3 (unat w)" by (simp add: unsigned_take_bit_eq)
  then have t: "unat (take_bit 3 w) = unat w mod 8" by (simp only: take_bit_eq_mod) simp
  then have "take_bit 3 w \<le> w" by (simp add: word_le_nat_alt)
  then have "unat (align8 w) = unat w - unat w mod 8" unfolding w t[symmetric] by (rule unat_sub)
  then show ?thesis by (simp add: minus_mod_eq_mult_div)
qed

lemma add_u32_fits: "unat a + unat b < 2 ^ 32 \<Longrightarrow> add_u32 checks a b = Some (a + b)"
  by (simp add: add_u32_def)

lemma unat_add_fits: "unat (a :: u32) + unat b < 2 ^ 32 \<Longrightarrow> unat (a + b) = unat a + unat b"
  by (simp add: unat_word_ariths(1))

text \<open>The announced length of a frame, in unbounded arithmetic.\<close>

definition frame_len :: "u32 \<Rightarrow> u32 \<Rightarrow> nat" where
  "frame_len fields_len body_len = 16 + 8 * ((unat fields_len + 7) div 8) + unat body_len"

lemma total_size_fits:
  assumes "frame_len f b < 2 ^ 32"
  shows "\<exists>t. total_size checks f b = Some t \<and> unat t = frame_len f b"
proof -
  have "8 * ((unat f + 7) div 8) \<ge> unat f" by linarith
  then have f: "unat f + unat (7 :: u32) < 2 ^ 32" using assms by (simp add: frame_len_def)
  then have pad: "unat (align8 (f + 7)) = 8 * ((unat f + 7) div 8)"
    by (simp only: align8_unat unat_add_fits) simp
  have a: "unat (16 :: u32) + unat (align8 (f + 7)) < 2 ^ 32" using assms by (simp add: frame_len_def pad)
  have b: "unat (16 + align8 (f + 7)) + unat b < 2 ^ 32"
    using assms by (simp only: unat_add_fits[OF a] pad) (simp add: frame_len_def)
  show ?thesis
    using unat_add_fits[OF b] unat_add_fits[OF a] pad
    by (simp add: total_size_def add_u32_fits[OF f] add_u32_fits[OF a] add_u32_fits[OF b] frame_len_def)
qed

section \<open>What is available to read\<close>

definition pend :: "client_handler \<Rightarrow> u8 list" where
  "pend h = drop (ch_pending_pos h) (ch_pending_data h)"

definition available :: "client_handler \<Rightarrow> u8 list" where
  "available h = pend h @ sk_in (ch_stream h)"

lemma pend_updates [simp]:
  "pend (h\<lparr>ch_stream := s\<rparr>) = pend h" "pend (h\<lparr>ch_read_buf := b\<rparr>) = pend h"
  by (simp_all add: pend_def)

lemma take_pending_fst: "fst (take_pending n h) = take n (pend h)"
  by (auto simp: take_pending_def pend_def Let_def min_def)

lemma take_pending_snd:
  "pend (snd (take_pending n h)) = drop n (pend h)"
  "ch_stream (snd (take_pending n h)) = ch_stream h" "ch_read_buf (snd (take_pending n h)) = ch_read_buf h"
  "ch_client (snd (take_pending n h)) = ch_client h"
  by (auto simp: take_pending_def pend_def Let_def min_def add.commute)

lemma read_exact_available:
  assumes "n \<le> length (available h)"
    and T: "tokio_laws T"
  shows "\<exists>h'. read_exact T n h = (Inr (take n (available h)), h') \<and> available h' = drop n (available h)
     \<and> ch_read_buf h' = ch_read_buf h \<and> ch_client h' = ch_client h \<and> sk_end (ch_stream h') = sk_end (ch_stream h)"
proof -
  obtain got h1 where t: "take_pending n h = (got, h1)" by fastforce
  note f = take_pending_fst[of n h, unfolded t fst_conv] and s = take_pending_snd[of n h, unfolded t snd_conv]
  show ?thesis
  proof (cases "length got < n")
    case True
    then have "length (pend h) < n" by (simp add: f)
    then show ?thesis
      using assms by (auto simp: read_exact_def t f io_read_exact_eq[OF T] sock_read_exact_def s available_def)
  next
    case False
    then have "n \<le> length (pend h)" by (simp add: f)
    then show ?thesis by (simp add: read_exact_def t f s available_def)
  qed
qed

lemma copy_slice_split:
  "i + length a + length b \<le> length xs \<Longrightarrow> copy_slice (i + length a) b (copy_slice i a xs) = copy_slice i (a @ b) xs"
  by (simp add: copy_slice_def ac_simps)

lemma read_into_available:
  assumes "n \<le> length (available h)" and "offset + n \<le> length (ch_read_buf h)"
    and T: "tokio_laws T"
  shows "\<exists>h'. read_exact_into_buf T offset n h = (Ret (Inr ()), h') \<and> available h' = drop n (available h)
     \<and> ch_read_buf h' = copy_slice offset (take n (available h)) (ch_read_buf h) \<and> ch_client h' = ch_client h \<and> sk_end (ch_stream h') = sk_end (ch_stream h)"
proof -
  obtain got h1 where t: "take_pending n h = (got, h1)" by fastforce
  note f = take_pending_fst[of n h, unfolded t fst_conv] and s = take_pending_snd[of n h, unfolded t snd_conv]
  show ?thesis
  proof (cases "length got < n")
    case True
    then have l: "length (pend h) < n" and got: "got = pend h" by (simp_all add: f)
    let ?bs = "take (n - length (pend h)) (sk_in (ch_stream h))"
    have "length ?bs = n - length (pend h)" using assms(1) l by (simp add: available_def)
    then have "copy_slice (offset + length (pend h)) ?bs (copy_slice offset (pend h) (ch_read_buf h)) =
        copy_slice offset (take n (available h)) (ch_read_buf h)"
      using copy_slice_split[of offset "pend h" ?bs "ch_read_buf h"] assms l by (simp add: available_def)
    moreover have "length (copy_slice offset (pend h) (ch_read_buf h)) = length (ch_read_buf h)"
      using assms(2) l by (intro length_copy_slice) simp
    ultimately show ?thesis
      using assms l by (auto simp: read_exact_into_buf_def t got io_read_exact_eq[OF T] sock_read_exact_def s available_def Let_def)
  next
    case False
    then have "n \<le> length (pend h)" by (simp add: f)
    then show ?thesis using assms(2) by (simp add: read_exact_into_buf_def t f s available_def Let_def)
  qed
qed

section \<open>Frames\<close>

text \<open>The bytes of one message: they announce their own length and zbus accepts them.\<close>

definition frame_ok :: "zbus_api \<Rightarrow> u8 list \<Rightarrow> message \<Rightarrow> bool" where
  "frame_ok Z bs m \<longleftrightarrow>
     16 \<le> length bs \<and> length bs < 2 ^ 32
     \<and> length bs = frame_len (from_bytes (announced_endian bs) (slice 12 16 bs)) (from_bytes (announced_endian bs) (slice 4 8 bs))
     \<and> z_from_bytes Z (announced_endian bs) bs = Inr m"

lemma take_copy_slice: "length a \<le> length xs \<Longrightarrow> take (length a) (copy_slice 0 a xs) = a"
  by (simp add: copy_slice_def)

text \<open>What is left to do once the header of a frame is read.\<close>

definition finish_read ::
    "tokio_io \<Rightarrow> zbus_api \<Rightarrow> endian \<Rightarrow> nat \<Rightarrow> client_handler \<Rightarrow> (error + message option) outcome \<times> client_handler" where
  "finish_read T Z e n h =
     (if 16 < n then
        (case read_exact_into_buf T 16 (n - 16) h of
           (Panic, h1) \<Rightarrow> (Panic, h1)
         | (Ret (Inl err), h1) \<Rightarrow> (Ret (Inl (Io err)), h1)
         | (Ret (Inr _), h1) \<Rightarrow> (parse_frame Z e (take n (ch_read_buf h1)), h1))
      else (parse_frame Z e (take n (ch_read_buf h)), h))"

lemma read_message_header:
  assumes "frame_ok Z bs m" and "read_exact T 16 h = (Inr (take 16 bs), h1)" and "16 \<le> length (ch_read_buf h1)"
  shows "read_message T Z checks h = finish_read T Z (announced_endian bs) (length bs)
     (h1\<lparr>ch_read_buf := copy_slice 0 (take 16 bs) (resize_buf (length bs) (ch_read_buf h1))\<rparr>)"
proof -
  let ?e = "announced_endian bs"
  let ?f = "from_bytes ?e (slice 12 16 bs)" and ?b = "from_bytes ?e (slice 4 8 bs)"
  have len: "16 \<le> length bs" "length bs < 2 ^ 32" "length bs = frame_len ?f ?b"
    using assms(1) by (auto simp: frame_ok_def)
  have hdr: "announced_endian (take 16 bs) = ?e" "slice 4 8 (take 16 bs) = slice 4 8 bs" "slice 12 16 (take 16 bs) = slice 12 16 bs"
    using len(1) by (simp_all add: slice_def drop_take announced_endian_def)
  obtain t where t: "total_size checks ?f ?b = Some t" "unat t = length bs"
    using total_size_fits[of ?f ?b checks] len by auto
  have "16 \<le> t" using len(1) t(2) by (simp add: word_le_nat_alt)
  then have rem: "unat (t - 16) = length bs - 16" by (simp add: unat_sub t(2))
  have sub: "sub_u32 checks t 16 = Some (t - 16)" using len(1) t(2) by (simp add: sub_u32_def)
  have "16 \<le> length (resize_buf (length bs) (ch_read_buf h1))" using assms(3) by (simp add: resize_buf_def)
  then show ?thesis
    by (simp add: read_message_def assms(2) hdr t sub rem finish_read_def Let_def
        cong: prod.case_cong outcome.case_cong sum.case_cong)
qed

lemma read_message_frame:
  assumes "frame_ok Z bs m" and "available h = bs @ rest" and "16 \<le> length (ch_read_buf h)"
    and T: "tokio_laws T"
  shows "\<exists>h'. read_message T Z checks h = (Ret (Inr (Some m)), h') \<and> available h' = rest
     \<and> 16 \<le> length (ch_read_buf h') \<and> ch_client h' = ch_client h \<and> sk_end (ch_stream h') = sk_end (ch_stream h)"
proof -
  have len: "16 \<le> length bs" and z: "parse_frame Z (announced_endian bs) bs = Ret (Inr (Some m))"
    using assms(1) by (auto simp: frame_ok_def parse_frame_def)
  obtain h1 where h1: "read_exact T 16 h = (Inr (take 16 bs), h1)" "available h1 = drop 16 bs @ rest"
    "ch_read_buf h1 = ch_read_buf h" "ch_client h1 = ch_client h" "sk_end (ch_stream h1) = sk_end (ch_stream h)"
    using read_exact_available[of 16 h T] len assms(2) T by auto
  let ?big = "resize_buf (length bs) (ch_read_buf h)"
  let ?buf = "copy_slice 0 (take 16 bs) ?big" and ?h3 = "h1\<lparr>ch_read_buf := copy_slice 0 (take 16 bs) (resize_buf (length bs) (ch_read_buf h))\<rparr>"
  have buf: "length bs \<le> length ?big" "16 \<le> length ?big" "length ?buf = length ?big"
    using len assms(3) by (auto simp: resize_buf_def copy_slice_def)
  note read = read_message_header[OF assms(1) h1(1), of checks, unfolded h1(3), OF assms(3)]
  show ?thesis
  proof (cases "length bs = 16")
    case True
    then have "take (length bs) ?buf = bs" using take_copy_slice[of bs ?big] buf(2) by simp
    then show ?thesis
      using True h1 buf(2,3) by (simp add: read finish_read_def z available_def)
  next
    case False
    have av: "available ?h3 = drop 16 bs @ rest" using h1(2) by (simp add: available_def)
    have "length bs - 16 \<le> length (available ?h3)" by (simp add: av)
    moreover have "16 + (length bs - 16) \<le> length (ch_read_buf ?h3)" using buf len by simp
    ultimately obtain h4 where h4: "read_exact_into_buf T 16 (length bs - 16) ?h3 = (Ret (Inr ()), h4)"
      "available h4 = rest" "ch_read_buf h4 = copy_slice 16 (drop 16 bs) ?buf" "ch_client h4 = ch_client h"
      "sk_end (ch_stream h4) = sk_end (ch_stream h)"
      using read_into_available[of "length bs - 16" ?h3 16 T] av h1(4,5) T by auto
    have "ch_read_buf h4 = copy_slice 0 bs ?big"
      using copy_slice_split[of 0 "take 16 bs" "drop 16 bs" ?big] len buf(1)
      by (simp add: h4(3) min_def copy_slice_def)
    then have "take (length bs) (ch_read_buf h4) = bs" "16 \<le> length (ch_read_buf h4)"
      using take_copy_slice[OF buf(1)] buf(1) len by (simp_all add: copy_slice_def)
    then show ?thesis
      using False len h4 by (simp add: read finish_read_def z)
  qed
qed

text \<open>Any number of frames, wherever the handshake stopped reading ahead.\<close>

lemma client_run_frames:
  assumes "list_all2 (frame_ok Z) frames msgs" and "available h = concat frames @ rest" and "16 \<le> length (ch_read_buf h)"
    and T: "tokio_laws T"
  shows "\<exists>h'. client_run T Z checks (replicate (length msgs) (Readable True) @ evs) h =
        (let (ms, fin, h2) = client_run T Z checks evs h' in (msgs @ ms, fin, h2))
     \<and> available h' = rest \<and> 16 \<le> length (ch_read_buf h') \<and> ch_client h' = ch_client h
     \<and> sk_end (ch_stream h') = sk_end (ch_stream h)"
  using assms
proof (induction frames msgs arbitrary: h rule: list_all2_induct)
  case Nil
  then show ?case by (intro exI[of _ h]) simp
next
  case (Cons bs frames m msgs)
  obtain h1 where h1: "read_message T Z checks h = (Ret (Inr (Some m)), h1)" "available h1 = concat frames @ rest"
    "16 \<le> length (ch_read_buf h1)" "ch_client h1 = ch_client h" "sk_end (ch_stream h1) = sk_end (ch_stream h)"
    using read_message_frame[OF Cons.hyps(1), of h "concat frames @ rest" T checks] Cons.prems by auto
  from Cons.IH[OF h1(2,3) T] h1(4,5) show ?case by (auto simp: h1(1) case_prod_unfold Let_def)
qed

lemma read_message_end:
  assumes "length (available h) < 16" and "sk_end (ch_stream h) = None"
    and T: "tokio_laws T"
  shows "\<exists>h'. read_message T Z checks h = (Ret (Inr None), h')"
proof -
  obtain got h1 where t: "take_pending 16 h = (got, h1)" by fastforce
  note f = take_pending_fst[of 16 h, unfolded t fst_conv] and s = take_pending_snd[of 16 h, unfolded t snd_conv]
  have "length (pend h) < 16" "got = pend h" using assms(1) by (simp_all add: f available_def)
  then show ?thesis
    using assms by (auto simp: read_message_def read_exact_def t io_read_exact_eq[OF T] sock_read_exact_def s available_def end_error_def Let_def)
qed

section \<open>Lengths that do not fit\<close>

lemma total_size_checked: "2 ^ 32 \<le> frame_len f b \<Longrightarrow> total_size True f b = None"
proof -
  assume big: "2 ^ 32 \<le> frame_len f b"
  have "unat (16 + align8 (f + 7)) = 16 + 8 * ((unat f + 7) div 8)"
    if "unat f + 7 < 2 ^ 32" "16 + 8 * ((unat f + 7) div 8) < 2 ^ 32"
  proof -
    have "unat (f + 7) = unat f + 7" using unat_add_fits[of f 7] that(1) by simp
    then have "unat (align8 (f + 7)) = 8 * ((unat f + 7) div 8)" by (simp add: align8_unat)
    then show ?thesis using unat_add_fits[of 16 "align8 (f + 7)"] that(2) by simp
  qed
  moreover have "unat (align8 (f + 7)) = 8 * ((unat f + 7) div 8)" if "unat f + 7 < 2 ^ 32"
    using unat_add_fits[of f 7] that by (simp add: align8_unat)
  ultimately show ?thesis
    using big by (auto simp: total_size_def add_u32_def frame_len_def split: option.splits)
qed

lemma total_size_wraps:
  assumes "2 ^ 32 \<le> frame_len f b" and "frame_len f b < 2 ^ 32 + 16"
  shows "\<exists>t. total_size False f b = Some t \<and> unat t < 16"
proof -
  have le: "8 * ((unat f + 7) div 8) < 2 ^ 32" using assms(2) by (simp add: frame_len_def)
  have "unat f < 2 ^ 32" by (rule unat_u32_less)
  then have f7: "unat f + 7 < 2 ^ 32" using le by simp
  then have pad: "unat (align8 (f + 7)) = 8 * ((unat f + 7) div 8)"
    using unat_add_fits[of f 7] by (simp add: align8_unat)
  have "unat (16 + align8 (f + 7) + b) = (unat (16 :: u32) + unat (align8 (f + 7)) + unat b) mod 2 ^ 32"
    by (simp add: unat_word_ariths(1) mod_add_left_eq)
  also have "\<dots> = frame_len f b mod 2 ^ 32" by (simp add: pad frame_len_def)
  also have "\<dots> = frame_len f b - 2 ^ 32" using assms by (simp add: le_mod_geq)
  finally show ?thesis using assms(2) by (simp add: total_size_def add_u32_def)
qed

section \<open>Reads that end early\<close>

lemma read_exact_short:
  assumes "length (available h) < n"
    and T: "tokio_laws T"
  shows "\<exists>h'. read_exact T n h = (Inl (end_error (ch_stream h)), h') \<and> available h' = []
     \<and> sk_end (ch_stream h') = sk_end (ch_stream h)"
proof -
  obtain got h1 where t: "take_pending n h = (got, h1)" by fastforce
  note f = take_pending_fst[of n h, unfolded t fst_conv] and s = take_pending_snd[of n h, unfolded t snd_conv]
  have "got = pend h" "length (pend h) < n" using assms by (simp_all add: f available_def)
  then show ?thesis
    using assms by (auto simp: read_exact_def t io_read_exact_eq[OF T] sock_read_exact_def s available_def)
qed

lemma read_into_short:
  assumes "length (available h) < n" and "offset + n \<le> length (ch_read_buf h)"
    and T: "tokio_laws T"
  shows "\<exists>h'. read_exact_into_buf T offset n h = (Ret (Inl (end_error (ch_stream h))), h') \<and> available h' = []"
proof -
  obtain got h1 where t: "take_pending n h = (got, h1)" by fastforce
  note f = take_pending_fst[of n h, unfolded t fst_conv] and s = take_pending_snd[of n h, unfolded t snd_conv]
  have "got = pend h" "length (pend h) < n" using assms by (simp_all add: f available_def)
  moreover have "length (copy_slice offset (pend h) (ch_read_buf h)) = length (ch_read_buf h)"
    using assms calculation by (intro length_copy_slice) simp
  ultimately show ?thesis
    using assms by (auto simp: read_exact_into_buf_def t io_read_exact_eq[OF T] sock_read_exact_def s available_def Let_def)
qed

lemma read_into_panics:
  assumes "offset \<le> length (ch_read_buf h)" and "length (ch_read_buf h) < offset + n"
  shows "fst (read_exact_into_buf T offset n h) = Panic"
proof -
  obtain got h1 where t: "take_pending n h = (got, h1)" by fastforce
  note f = take_pending_fst[of n h, unfolded t fst_conv] and s = take_pending_snd[of n h, unfolded t snd_conv]
  have "length (copy_slice offset got (ch_read_buf h)) = length (ch_read_buf h)"
    if "offset + length got \<le> length (ch_read_buf h)"
    using that by (rule length_copy_slice)
  moreover have "got = [] \<or> ch_pending_pos h < length (ch_pending_data h)" by (auto simp: f pend_def)
  ultimately show ?thesis
    using assms by (auto simp: read_exact_into_buf_def t s Let_def not_less copy_slice_def[of offset "[]"])
qed

text \<open>A read of which only a part of the frame arrives uses up that part.\<close>

lemma read_message_partial:
  assumes "frame_ok Z bs m" and "available h = take k bs" and "k < length bs" and "16 \<le> length (ch_read_buf h)"
    and "sk_end (ch_stream h) = None"
    and T: "tokio_laws T"
  shows "\<exists>h'. read_message T Z checks h = (if k < 16 then Ret (Inr None) else Ret (Inl (Io (IoError UnexpectedEof ''early eof''))), h')
     \<and> available h' = []"
proof (cases "k < 16")
  case True
  then show ?thesis
    using read_exact_short[of h 16 T] assms(2,3,5) T by (auto simp: read_message_def end_error_def)
next
  case False
  obtain h1 where h1: "read_exact T 16 h = (Inr (take 16 bs), h1)" "available h1 = drop 16 (take k bs)"
    "ch_read_buf h1 = ch_read_buf h" "sk_end (ch_stream h1) = None"
    using read_exact_available[of 16 h T] False assms(2,3,5) T by (auto simp: min_def)
  let ?h3 = "h1\<lparr>ch_read_buf := copy_slice 0 (take 16 bs) (resize_buf (length bs) (ch_read_buf h))\<rparr>"
  have "length (available ?h3) < length bs - 16" using h1(2) False assms(3) by (simp add: available_def)
  moreover have "16 + (length bs - 16) \<le> length (ch_read_buf ?h3)"
    using False assms(3,4) by (auto simp: resize_buf_def copy_slice_def)
  ultimately obtain h4 where "read_exact_into_buf T 16 (length bs - 16) ?h3 = (Ret (Inl (end_error (ch_stream ?h3))), h4)"
    "available h4 = []"
    using read_into_short[OF _ _ T] by blast
  then show ?thesis
    using False assms(3,4) h1(3,4) read_message_header[OF assms(1) h1(1), of checks]
    by (simp add: finish_read_def end_error_def)
qed

section \<open>Properties\<close>


definition sample_frame :: "u8 list" where
  "sample_frame = [108, 1, 0, 1, 0, 0, 0, 0, 7, 0, 0, 0, 0, 0, 0, 0]"

lemma sample_frame_ok: "\<exists>m. frame_ok sample_api sample_frame m"
  by (simp add: frame_ok_def sample_frame_def sample_api_def announced_endian_def frame_len_def slice_def
      from_bytes_def from_le_bytes_def)

definition sample_cred :: peer_cred where
  "sample_cred = \<lparr>pr_pid = Some 42, pr_uid = 0, pr_gid = 100\<rparr>"


text \<open>The user id of an accepted client is the one it claims, whatever the socket says of its peer.\<close>

lemma accept_claimed_uid:
  assumes "hex_laws A" and "sk_in s = 0 # claim_dialogue (encode_uid A uid) @ rest" and "sk_write_errors s = []"
    and T: "tokio_laws T"
  shows "\<exists>h. accept T A auth peer s counter = (Some (Inr h), counter + 1) \<and> cl_uid (ch_client h) = uid"
proof -
  have digits: "set (encode_uid A uid) \<subseteq> set ''0123456789abcdef''"
    using assms(1) by (simp add: hex_laws_def encode_uid_def)
  have "ascii (encode_uid A uid)" and "CHR 0x0A \<notin> set (encode_uid A uid)"
    using digits by (auto simp: ascii_def list_all_iff)
  from claim_authenticates[OF parse_encode_uid[OF assms(1)] this]
  obtain buffered s' where "authenticate_server T A auth s = Some (Inr \<lparr>ar_uid = uid, ar_buffered = buffered\<rparr>, s')"
    using authenticate_server_succeeds[OF T assms(3), of A auth uid rest "ok_line (server_guid auth) @ crlf"] assms(2) by blast
  then show ?thesis by (simp add: accept_def next_client_id_def case_prod_unfold Let_def)
qed

text \<open>
  C31. A length that does not fit kills the task: a client that announces a message of
  \<open>2 ^ 32\<close> bytes or more makes \<open>read_message\<close> panic in a build with overflow checks; and in one
  without, where the length wraps around, it panics if the wrapped length is below the header's.
\<close>

theorem oversized_frame_panics:
  assumes "available h = hdr @ rest" and "length hdr = 16" and "16 \<le> length (ch_read_buf h)"
    and "length (ch_read_buf h) < 2 ^ 31"
    and "len = frame_len (from_bytes (announced_endian hdr) (slice 12 16 hdr)) (from_bytes (announced_endian hdr) (slice 4 8 hdr))"
    and "2 ^ 32 \<le> len" and "checks \<or> len < 2 ^ 32 + 16"
    and T: "tokio_laws T"
  shows "fst (read_message T Z checks h) = Panic"
proof -
  let ?f = "from_bytes (announced_endian hdr) (slice 12 16 hdr)" and ?b = "from_bytes (announced_endian hdr) (slice 4 8 hdr)"
  obtain h1 where h1: "read_exact T 16 h = (Inr hdr, h1)" "ch_read_buf h1 = ch_read_buf h"
    using read_exact_available[of 16 h T] assms(1,2) T by auto
  show ?thesis
  proof (cases checks)
    case True
    then show ?thesis using total_size_checked[of ?f ?b] assms(5,6) by (simp add: read_message_def h1(1) Let_def)
  next
    case False
    then obtain t where t: "total_size False ?f ?b = Some t" "unat t < 16"
      using total_size_wraps[of ?f ?b] assms(5-7) by auto
    have small: "t < 16" using t(2) by (simp add: word_less_nat_alt)
    have "unat (t - 16) = 2 ^ 32 + unat t - 16"
      using t(2) by (simp add: unat_sub_if')
    then have rem: "2 ^ 31 < unat (t - 16)" by simp
    let ?h3 = "h1\<lparr>ch_read_buf := copy_slice 0 hdr (resize_buf (unat t) (ch_read_buf h))\<rparr>"
    have buf: "resize_buf (unat t) (ch_read_buf h) = ch_read_buf h" "length (ch_read_buf ?h3) = length (ch_read_buf h)"
      using t(2) assms(2,3) by (simp_all add: resize_buf_def copy_slice_def)
    have "fst (read_exact_into_buf T 16 (unat (t - 16)) ?h3) = Panic"
      using assms(3,4) rem by (intro read_into_panics) (simp_all only: buf(2))
    then show ?thesis
      using False rem assms(2,3) buf
      by (auto simp: read_message_def h1 t(1) sub_u32_def Let_def split: prod.splits outcome.splits)
  qed
qed

lemma huge_header:
  "frame_len (from_bytes (announced_endian [108, 1, 0, 1, 248, 255, 255, 255, 7, 0, 0, 0, 0, 0, 0, 0])
       (slice 12 16 [108, 1, 0, 1, 248, 255, 255, 255, 7, 0, 0, 0, 0, 0, 0, 0]))
     (from_bytes (announced_endian [108, 1, 0, 1, 248, 255, 255, 255, 7, 0, 0, 0, 0, 0, 0, 0])
       (slice 4 8 [108, 1, 0, 1, 248, 255, 255, 255, 7, 0, 0, 0, 0, 0, 0, 0])) = 2 ^ 32 + 8"
  by (simp add: frame_len_def announced_endian_def slice_def from_bytes_def from_le_bytes_def)

definition sample_handler :: "u8 list \<Rightarrow> u8 list \<Rightarrow> client_handler" where
  "sample_handler pending bs =
     \<lparr>ch_client = \<lparr>cl_id = 1, cl_unique_name = '':mux.1'', cl_owned_names = [], cl_tx_open = False, cl_uid = 0,
        cl_pid = None, cl_gid = 0\<rparr>, ch_stream = sample_socket bs [], ch_read_buf = replicate 16384 0,
      ch_pending_data = pending, ch_pending_pos = 0\<rparr>"

lemma sample_handler_fields:
  "available (sample_handler pending bs) = pending @ bs" "length (ch_read_buf (sample_handler pending bs)) = 16384"
  by (simp_all add: sample_handler_def available_def pend_def sample_socket_def)

theorem oversized_frame_panics_witness:
  "fst (read_message sample_tokio sample_api False (sample_handler [] [108, 1, 0, 1, 248, 255, 255, 255, 7, 0, 0, 0, 0, 0, 0, 0])) = Panic"
  using oversized_frame_panics[of "sample_handler [] [108, 1, 0, 1, 248, 255, 255, 255, 7, 0, 0, 0, 0, 0, 0, 0]"
      "[108, 1, 0, 1, 248, 255, 255, 255, 7, 0, 0, 0, 0, 0, 0, 0]" "[]" "2 ^ 32 + 8" False sample_tokio sample_api]
  by (simp add: sample_handler_fields huge_header sample_tokio_laws)

text \<open>
  C32. A message to the client that becomes ready while a read is half done loses the bytes read:
  \<open>select!\<close> drops the read, and with it the part of the message that the handshake had buffered
  and the \<open>n\<close> bytes that had arrived; the next read starts in the middle of the message.
\<close>

theorem cancelled_read_loses_bytes:
  assumes "frame_ok Z bs m" and "available h = bs @ rest" and "16 \<le> length (ch_read_buf h)"
    and "length (pend h) + n < length bs"
    and T: "tokio_laws T"
  shows "available (cancel_read T Z checks n h) = drop (length (pend h) + n) (bs @ rest)"
proof -
  let ?s = "ch_stream h"
  let ?h0 = "h\<lparr>ch_stream := ?s\<lparr>sk_in := take n (sk_in ?s), sk_end := None\<rparr>\<rparr>"
  let ?k = "length (pend h) + n"
  have all: "pend h @ sk_in ?s = bs @ rest" using assms(2) by (simp add: available_def)
  have "available ?h0 = take ?k (pend h @ sk_in ?s)" by (simp add: available_def)
  then have "available ?h0 = take ?k bs" using assms(4) by (simp add: all)
  from read_message_partial[OF assms(1) this assms(4), of T checks] assms(3) T
  obtain res h1 where read: "read_message T Z checks ?h0 = (res, h1)" "available h1 = []"
    and res: "res = Ret (Inr None) \<or> res = Ret (Inl (Io (IoError UnexpectedEof ''early eof'')))"
    by (auto split: if_splits)
  have "drop ?k (bs @ rest) = drop n (sk_in ?s)" by (simp flip: all)
  moreover have "available (h1\<lparr>ch_stream := (ch_stream h1)\<lparr>sk_in := sk_in (ch_stream h1) @ x, sk_end := y\<rparr>\<rparr>) = x" for x y
    using read(2) by (simp add: available_def)
  ultimately show ?thesis
    using res by (auto simp: cancel_read_def read(1) Let_def)
qed

theorem cancelled_read_loses_bytes_witness:
  "\<exists>m. frame_ok sample_api sample_frame m
     \<and> available (cancel_read sample_tokio sample_api True 1 (sample_handler (take 4 sample_frame) (drop 4 sample_frame @ sample_frame)))
         = drop 5 sample_frame @ sample_frame"
proof -
  obtain m where m: "frame_ok sample_api sample_frame m" using sample_frame_ok by blast
  moreover have "pend (sample_handler (take 4 sample_frame) bs) = take 4 sample_frame" for bs
    by (simp add: pend_def sample_handler_def)
  moreover have "length sample_frame = 16" by (simp add: sample_frame_def)
  ultimately show ?thesis
    using cancelled_read_loses_bytes[OF m, of "sample_handler (take 4 sample_frame) (drop 4 sample_frame @ sample_frame)" sample_frame 1 sample_tokio True]
    by (auto simp: sample_handler_fields sample_tokio_laws)
qed



end
