(* ===== verification/Mux_Lifecycle.thy ===== *)
theory Mux_Lifecycle
  imports Mux_Delivery Client_Conn
begin

text \<open>
  The life of a client from end to end: its registration after the handshake, what the
  multiplexer tells others about it, the clean-up after it left; the well-formedness of the
  whole state; and the messages that the multiplexer never passes on.
\<close>

section \<open>A new client\<close>

text \<open>
  A new connection: the handshake under the next id, and the registration when it succeeds. A
  connection that is refused uses up its id, and so would one whose handshake never ended.
\<close>

definition handle_new_client ::
    "tokio_io \<Rightarrow> auth_env \<Rightarrow> sasl_auth \<Rightarrow> io_error + peer_cred \<Rightarrow> socket \<Rightarrow> system \<Rightarrow> system" where
  "handle_new_client T A auth peer stream s =
     (case accept T A (sasl_with_guid (sasl_guid auth)) peer stream (sys_next s) of
        (Some (Inr handler), next_id) \<Rightarrow>
          (let client = ch_client handler;
               credentials = \<lparr>cc_uid = cl_uid client, cc_pid = cl_pid client, cc_gid = cl_gid client\<rparr>
           in s\<lparr>sys_mux := register_client (cl_id client) (cl_unique_name client) credentials (sys_mux s),
                sys_next := next_id\<rparr>)
      | (Some (Inl e), next_id) \<Rightarrow> s\<lparr>sys_next := next_id\<rparr>
      | (None, next_id) \<Rightarrow> s\<lparr>sys_next := next_id\<rparr>)"

lemma new_client_step:
  assumes "unat (sys_next s) + 1 < 2 ^ 64"
  shows "sys_step s (handle_new_client T A auth peer stream s)"
proof -
  obtain res k where acc: "accept T A (sasl_with_guid (sasl_guid auth)) peer stream (sys_next s) = (res, k)" by fastforce
  note k = accept_identity(1)[OF acc]
  show ?thesis
  proof (cases "\<exists>h. res = Some (Inr h)")
    case False
    then have "handle_new_client T A auth peer stream s = s\<lparr>sys_next := sys_next s + 1\<rparr>"
      by (auto simp: handle_new_client_def acc k split: option.splits sum.splits)
    then show ?thesis using sys_step.Refuse[OF assms] by simp
  next
    case True
    then obtain h where h: "res = Some (Inr h)" by blast
    then show ?thesis
      using sys_step.Connect[OF assms] accept_identity(2)[OF acc h] by (simp add: handle_new_client_def acc k mux_name_def Let_def)
  qed
qed

section \<open>A clean-up that nothing interrupts\<close>

lemma run_cleanup_disconnect:
  assumes "unregister_client c mx = ((owned, rules), mx')"
  shows "run_cleanup (ReleaseRules c u rules owned) mx' = disconnect_client c u mx"
  using assms
  by (simp add: disconnect_client_def run_cleanup.simps[of "ReleaseRules _ _ _ _"] run_cleanup.simps[of "DropPortal _ _ _"]
      run_cleanup.simps[of "LeaveQueues _ _ _"] run_hand_over run_release_owned case_prod_unfold Let_def)

lemma cleanup_runs:
  "sys_tasks s = ts1 @ t # ts2 \<Longrightarrow>
     sys_step\<^sup>*\<^sup>* s (s\<lparr>sys_mux := run_cleanup t (sys_mux s), sys_tasks := ts1 @ ts2\<rparr>)"
proof (induction t "sys_mux s" arbitrary: s rule: run_cleanup.induct)
  case (1 t)
  obtain t' mx' where step: "cleanup_step t (sys_mux s) = (t', mx')" by fastforce
  let ?s = "s\<lparr>sys_mux := mx', sys_tasks := ts1 @ (case t' of Some x \<Rightarrow> [x] | None \<Rightarrow> []) @ ts2\<rparr>"
  have first: "sys_step s ?s" by (rule sys_step.Clean[OF 1(2) step])
  show ?case
  proof (cases t')
    case None
    then have "?s = s\<lparr>sys_mux := run_cleanup t (sys_mux s), sys_tasks := ts1 @ ts2\<rparr>"
      by (simp add: run_cleanup.simps[of t] step)
    with first show ?thesis by (metis r_into_rtranclp)
  next
    case (Some x)
    have "sys_step\<^sup>*\<^sup>* ?s (?s\<lparr>sys_mux := run_cleanup x (sys_mux ?s), sys_tasks := ts1 @ ts2\<rparr>)"
      using 1(1)[of t' ?s x] by (simp add: step Some)
    moreover have "?s\<lparr>sys_mux := run_cleanup x (sys_mux ?s), sys_tasks := ts1 @ ts2\<rparr> =
        s\<lparr>sys_mux := run_cleanup t (sys_mux s), sys_tasks := ts1 @ ts2\<rparr>"
      by (simp add: run_cleanup.simps[of t] step Some)
    ultimately show ?thesis using first by (metis converse_rtranclp_into_rtranclp)
  qed
qed

lemma disconnect_steps:
  assumes "hm_get (mx_clients (sys_mux s)) c = Some info"
  shows "sys_step\<^sup>*\<^sup>* s (s\<lparr>sys_mux := disconnect_client c (ci_unique_name info) (sys_mux s)\<rparr>)"
proof -
  obtain owned rules mx1 where un: "unregister_client c (sys_mux s) = ((owned, rules), mx1)" by (metis prod.exhaust)
  let ?t = "ReleaseRules c (ci_unique_name info) rules owned"
  let ?s = "s\<lparr>sys_mux := mx1, sys_tasks := ?t # sys_tasks s\<rparr>"
  have "sys_step s ?s" by (rule sys_step.Disconnect[OF assms un])
  moreover have "sys_step\<^sup>*\<^sup>* ?s (?s\<lparr>sys_mux := run_cleanup ?t (sys_mux ?s), sys_tasks := [] @ sys_tasks s\<rparr>)"
    by (rule cleanup_runs) simp
  ultimately have "sys_step\<^sup>*\<^sup>* s (?s\<lparr>sys_mux := run_cleanup ?t (sys_mux ?s), sys_tasks := [] @ sys_tasks s\<rparr>)"
    by (rule converse_rtranclp_into_rtranclp)
  then show ?thesis using run_cleanup_disconnect[OF un] by simp
qed

text \<open>What the last sections of a clean-up leave alone.\<close>

lemma hand_over_frame:
  "mx_name_queue (fold (hand_over u) rs mx) = mx_name_queue mx"
  "mx_portal_requests (fold (hand_over u) rs mx) = mx_portal_requests mx"
  "hm_get (mx_clients mx) c = None \<Longrightarrow> hm_get (mx_clients (fold (hand_over u) rs mx)) c = None"
  by (induction rs arbitrary: mx) (auto simp: hand_over_def split: prod.splits option.splits)

lemma release_owned_frame:
  "mx_name_queue (fold (release_owned u) ns mx) = mx_name_queue mx"
  "mx_portal_requests (fold (release_owned u) ns mx) = mx_portal_requests mx"
  "mx_clients (fold (release_owned u) ns mx) = mx_clients mx"
  by (induction ns arbitrary: mx) (simp_all add: release_owned_def)

lemma release_rules_frame:
  "mx_name_queue (release_rules rules mx) = mx_name_queue mx" "mx_clients (release_rules rules mx) = mx_clients mx"
  unfolding release_rules_def by (induction rules arbitrary: mx) (simp_all add: release_rule_def)

lemma disconnect_leaves_nothing:
  assumes "mux_wf mx" and "hm_get (mx_clients mx) c = Some info"
  shows "hm_get (mx_clients (disconnect_client c u mx)) c = None"
    and "queue_of (mx_name_queue (disconnect_client c u mx)) n = without c (queue_of (mx_name_queue mx) n)"
    and "request_entry (disconnect_client c u mx) path \<noteq> Some (c, at)"
proof -
  have q: "manager_wf (mx_name_queue mx)" and p: "pt_wf (mx_portal_requests mx)" using assms(1) by (simp_all add: mux_wf_def)
  show "hm_get (mx_clients (disconnect_client c u mx)) c = None"
    using assms(2)
    by (auto simp: disconnect_client_def unregister_client_def release_owned_frame release_rules_frame drop_portal_requests_def
        leave_queues_def case_prod_unfold Let_def intro!: hand_over_frame(3))
  show "queue_of (mx_name_queue (disconnect_client c u mx)) n = without c (queue_of (mx_name_queue mx) n)"
    using assms(2) remove_client_refines(2)[OF q, of c]
    by (simp add: disconnect_client_def unregister_client_def release_owned_frame hand_over_frame release_rules_frame
        drop_portal_requests_def leave_queues_def case_prod_unfold Let_def)
  show "request_entry (disconnect_client c u mx) path \<noteq> Some (c, at)"
    using assms(2) pt_entry_remove_client[OF p, of c path]
    by (auto simp: disconnect_client_def unregister_client_def release_owned_frame hand_over_frame portal_release_rules
        drop_portal_requests_def leave_queues_def request_entry_def case_prod_unfold Let_def split: option.splits if_splits)
qed

section \<open>Unique names\<close>

lemma mux_name_inject: "mux_name c = mux_name d \<Longrightarrow> c = d"
  by (simp add: mux_name_def word_unat_eq_iff)

lemma reachable_names: "reachable s \<Longrightarrow> hm_get (mx_clients (sys_mux s)) c = Some info \<Longrightarrow> ci_unique_name info = mux_name c"
  by (drule reachable_own_inv) (simp add: own_inv_def named_def client_view_def)

lemma find_credentials_unique:
  assumes "mux_wf mx" and "\<And>c info. hm_get (mx_clients mx) c = Some info \<Longrightarrow> ci_unique_name info = mux_name c"
    and "hm_get (mx_clients mx) c = Some info"
  shows "find_client_credentials mx (mux_name c) = Some (ci_credentials info)"
proof -
  have wf: "hm_wf (mx_clients mx)" using assms(1) by (simp add: mux_wf_def clients_wf_def)
  let ?P = "\<lambda>info. ci_unique_name info = mux_name c"
  have "info \<in> set (map snd (mx_clients mx))" using hm_get_SomeD[OF assms(3)] by force
  then have "find ?P (map snd (mx_clients mx)) \<noteq> None" using assms(2)[OF assms(3)] by (auto simp: find_None_iff)
  then obtain i where i: "find ?P (map snd (mx_clients mx)) = Some i" by blast
  then have "i \<in> set (map snd (mx_clients mx))" "?P i" by (auto simp: find_Some_iff)
  then obtain d where "(d, i) \<in> set (mx_clients mx)" "?P i" by auto
  then have "hm_get (mx_clients mx) d = Some i" "mux_name d = mux_name c" using assms(2) by (auto simp: hm_get_set[OF wf])
  then have "i = info" using assms(3) by (auto dest: mux_name_inject)
  then show ?thesis by (simp add: find_client_credentials_def i)
qed

section \<open>Properties\<close>

text \<open>
  C18. The clean-up of a client comes to an end and leaves nothing of it: in every reachable state
  with a connected client the system can take the steps of its disconnect and of its clean-up
  one after the other until no step of it is left, while the other clean-ups wait where they
  were; the state is then that of \<open>disconnect_client\<close>, in which the client is not connected, waits
  in no queue, the other entries of each queue stand as they did, and no portal request is its.
\<close>

theorem cleanup_refines_disconnect:
  assumes "reachable s" and "hm_get (mx_clients (sys_mux s)) c = Some info"
    and "mx' = disconnect_client c (ci_unique_name info) (sys_mux s)"
  shows "sys_step\<^sup>*\<^sup>* s (s\<lparr>sys_mux := mx'\<rparr>) \<and> hm_get (mx_clients mx') c = None
     \<and> (\<forall>n. queue_of (mx_name_queue mx') n = without c (queue_of (mx_name_queue (sys_mux s)) n))
     \<and> (\<forall>path at. request_entry mx' path \<noteq> Some (c, at))"
  using disconnect_steps[OF assms(2)] disconnect_leaves_nothing[OF reachable_mux_wf[OF assms(1)] assms(2)]
  by (simp add: assms(3))

theorem cleanup_refines_disconnect_witness:
  "sys_step\<^sup>*\<^sup>* \<lparr>sys_mux = connected_mux, sys_tasks = [], sys_next = 2\<rparr>
     \<lparr>sys_mux = disconnect_client 1 (mux_name 1) connected_mux, sys_tasks = [], sys_next = 2\<rparr>"
  using cleanup_refines_disconnect[OF connected_reachable _ refl, of 1] connected_client by simp

text \<open>
  C17. The state of a running multiplexer is well formed and names tell clients apart: in every
  reachable state each map has at most one entry per key, each set and each client's rules no
  duplicates, each name queue an owner and each client at most once; every connected client has
  the unique name \<open>:mux.N\<close> of its own id, no other client has the same, and asking for the
  credentials behind this name gives the credentials with which this client was registered.
\<close>

theorem reachable_states_well_formed:
  assumes "reachable s"
  shows "mux_wf (sys_mux s)
     \<and> (\<forall>c info. hm_get (mx_clients (sys_mux s)) c = Some info \<longrightarrow>
          ci_unique_name info = mux_name c
          \<and> (\<forall>d info'. hm_get (mx_clients (sys_mux s)) d = Some info' \<and> ci_unique_name info' = mux_name c \<longrightarrow> d = c)
          \<and> find_client_credentials (sys_mux s) (mux_name c) = Some (ci_credentials info))"
proof -
  have wf: "mux_wf (sys_mux s)" by (rule reachable_mux_wf[OF assms])
  have "d = c" if "hm_get (mx_clients (sys_mux s)) d = Some info" "ci_unique_name info = mux_name c" for c d info
    using reachable_names[OF assms that(1)] that(2) by (auto dest: mux_name_inject)
  then show ?thesis
    using wf find_credentials_unique[OF wf reachable_names[OF assms]] reachable_names[OF assms] by blast
qed

theorem reachable_states_well_formed_witness:
  "find_client_credentials connected_mux (mux_name 1) = Some demo_creds"
  using reachable_states_well_formed[OF connected_reachable] connected_client by auto

text \<open>
  Method calls are passed on in one direction only: a method call that arrives from a bus, as
  one to a name that a client owns does, changes nothing and reaches nobody, and whatever a client
  sends that is not a method call, a reply or a signal for instance, goes nowhere either.
\<close>

lemma served_calls_are_dropped:
  "(is_method_call msg \<longrightarrow> run_step E (BusItem route (Some (Inr msg))) mx = Inr mx)
   \<and> (\<not> is_method_call msg \<longrightarrow> run_step E (ClientMessage c msg) mx = Inr mx)"
  by (simp_all add: bus_recv_def handle_bus_message_def handle_client_message_def mux_simps Let_def)

lemma served_calls_are_dropped_witness:
  "run_step demo_env (BusItem Container (Some (Inr sample_message))) connected_mux = Inr connected_mux
   \<and> run_step demo_env (ClientMessage 1 (answer_with 7)) connected_mux = Inr connected_mux"
proof -
  have "\<not> is_method_call (answer_with 7)" by (simp add: answer_with_def is_method_call_def)
  with served_calls_are_dropped[of sample_message] served_calls_are_dropped[of "answer_with 7"] sample_call(1)
  show ?thesis by blast
qed

text \<open>
  C30. The claimed user id is trusted: in any reachable state, a new connection that claims a user
  id in the handshake becomes a connected client under the next unique name, and whoever asks for
  the credentials of this name is told the claimed user id. The user id that the socket reports
  for its peer is never compared with it.
\<close>

theorem claimed_uid_is_trusted:
  assumes "reachable s" and "unat (sys_next s) + 1 < 2 ^ 64" and "hex_laws A"
    and "sk_in stream = 0 # claim_dialogue (encode_uid A uid) @ rest" and "sk_write_errors stream = []"
    and "pr_uid cred \<noteq> uid" and "tokio_laws T" and "s' = handle_new_client T A auth (Inr cred) stream s"
  shows "reachable s' \<and> (\<exists>creds. find_client_credentials (sys_mux s') (mux_name (sys_next s)) = Some creds \<and> cc_uid creds = uid)"
proof -
  obtain h where h: "accept T A (sasl_with_guid (sasl_guid auth)) (Inr cred) stream (sys_next s) = (Some (Inr h), sys_next s + 1)"
    "cl_uid (ch_client h) = uid"
    using accept_claimed_uid[OF assms(3-5,7)] by blast
  have r: "reachable s'" unfolding assms(8) by (rule reachable.Step[OF assms(1) new_client_step[OF assms(2)]])
  obtain info where info: "hm_get (mx_clients (sys_mux s')) (sys_next s) = Some info" "cc_uid (ci_credentials info) = uid"
    using accept_identity(2)[OF h(1) refl] h(2) by (simp add: assms(8) handle_new_client_def h(1) register_client_def Let_def)
  have "find_client_credentials (sys_mux s') (mux_name (sys_next s)) = Some (ci_credentials info)"
    using info(1) reachable_names[OF r] by (intro find_credentials_unique reachable_mux_wf[OF r])
  with r info(2) show ?thesis by blast
qed

theorem claimed_uid_is_trusted_witness:
  "let s' = handle_new_client sample_tokio sample_auth_env (sasl_with_guid ''g'') (Inr sample_cred)
       (sample_socket (0 # claim_dialogue (encode_uid sample_auth_env 1000)) [])
       \<lparr>sys_mux = connected_mux, sys_tasks = [], sys_next = 2\<rparr>
   in pr_uid sample_cred = 0 \<and> map_option cc_uid (find_client_credentials (sys_mux s') (mux_name 2)) = Some 1000"
  using claimed_uid_is_trusted[OF connected_reachable _ sample_hex_laws _ _ _ sample_tokio_laws refl,
      of "sample_socket (0 # claim_dialogue (encode_uid sample_auth_env 1000)) []" 1000 "[]" sample_cred "sasl_with_guid ''g''"]
  by (auto simp: sample_socket_def sample_cred_def Let_def)

end
