(* ===== verification/Mux_Channels.thy ===== *)
theory Mux_Channels
  imports Mux_Lifecycle "HOL-Library.Sublist"
begin

text \<open>
  The tasks of the program and the channels between them. Each client has a task that reads its
  socket and hands the messages to the main loop through one inbound channel (1024 places), and
  that writes to its socket what the main loop puts into its outbound channel (256 places). A
  task that sends into a full channel waits. A handler of the loop sends to clients as its last
  actions and holds the client map for reading while it does, so clients are registered and
  unregistered, and names handed over to waiting clients, only between handlers. The other
  sections of a clean-up are allowed at any time, although a handler may hold their lock too.
  The channels are those of tokio, a parameter of the steps.
\<close>

section \<open>Channels\<close>

text \<open>
  The operations of \<open>tokio::sync::mpsc\<close>: a channel with a number of places; the send that completes
  now, or \<open>None\<close> while it has to wait; the message that is received now, or \<open>None\<close> while there is none.
\<close>

record ('q, 'm) mpsc =
  mpsc_channel :: "nat \<Rightarrow> 'q"
  mpsc_send :: "'m \<Rightarrow> 'q \<Rightarrow> 'q option"
  mpsc_recv :: "'q \<Rightarrow> ('m \<times> 'q) option"

text \<open>
  What is documented of them: under a view of a channel as its number of places and its messages, a
  new channel is empty, a send waits exactly while all places are taken and puts the message last,
  and a receive takes the first message.
\<close>

definition mpsc_laws :: "('q, 'm) mpsc \<Rightarrow> ('q \<Rightarrow> nat \<times> 'm list) \<Rightarrow> bool" where
  "mpsc_laws M v \<longleftrightarrow>
     (\<forall>n. v (mpsc_channel M n) = (n, []))
     \<and> (\<forall>m q. mpsc_send M m q = None \<longleftrightarrow> fst (v q) \<le> length (snd (v q)))
     \<and> (\<forall>m q q'. mpsc_send M m q = Some q' \<longrightarrow> v q' = (fst (v q), snd (v q) @ [m]))
     \<and> (\<forall>q. mpsc_recv M q = None \<longleftrightarrow> snd (v q) = [])
     \<and> (\<forall>m q q'. mpsc_recv M q = Some (m, q') \<longrightarrow> fst (v q') = fst (v q) \<and> snd (v q) = m # snd (v q'))"

lemma mpsc_lawsD:
  assumes "mpsc_laws M v"
  shows "v (mpsc_channel M n) = (n, [])" and "mpsc_send M m q = None \<longleftrightarrow> fst (v q) \<le> length (snd (v q))"
    and "mpsc_send M m q = Some q' \<Longrightarrow> v q' = (fst (v q), snd (v q) @ [m])"
    and "mpsc_recv M q = None \<longleftrightarrow> snd (v q) = []"
    and "mpsc_recv M q = Some (m, q') \<Longrightarrow> fst (v q') = fst (v q) \<and> snd (v q) = m # snd (v q')"
  using assms unfolding mpsc_laws_def by blast+

lemma mpsc_send_room: "mpsc_laws M v \<Longrightarrow> length (snd (v q)) < fst (v q) \<Longrightarrow> \<exists>q'. mpsc_send M m q = Some q' \<and> v q' = (fst (v q), snd (v q) @ [m])"
  by (metis mpsc_lawsD(2,3) not_le not_None_eq)

lemma mpsc_recv_first: "mpsc_laws M v \<Longrightarrow> snd (v q) = m # ms \<Longrightarrow> \<exists>q'. mpsc_recv M q = Some (m, q') \<and> v q' = (fst (v q), ms)"
  using mpsc_lawsD(4,5)[of M v q] by (cases "mpsc_recv M q") (auto simp: prod_eq_iff)

text \<open>An instance.\<close>

definition list_channel :: "(nat \<times> 'm list, 'm) mpsc" where
  "list_channel = \<lparr>mpsc_channel = (\<lambda>n. (n, [])),
     mpsc_send = (\<lambda>m (n, ms). if length ms < n then Some (n, ms @ [m]) else None),
     mpsc_recv = (\<lambda>(n, ms). case ms of [] \<Rightarrow> None | m # ms' \<Rightarrow> Some (m, (n, ms')))\<rparr>"

lemma list_channel_laws: "mpsc_laws list_channel id"
  by (auto simp: mpsc_laws_def list_channel_def split: list.splits if_splits)

section \<open>State\<close>

definition INBOUND_CAPACITY :: nat where
  "INBOUND_CAPACITY = 1024"

definition OUTBOUND_CAPACITY :: nat where
  "OUTBOUND_CAPACITY = 256"

text \<open>
  What the task of a client is doing: nothing yet, waiting in \<open>select!\<close>, handing over a message it
  read, writing a message to the socket, or its loop has ended.
\<close>

datatype task = Absent | Selecting | Handing message | Writing message | Ended

text \<open>
  Beside the system, the sends that the running handler still has to make (none while the loop
  waits in its own \<open>select!\<close>) and the channels; and what happened so far: the messages each client
  sent and was sent, the messages the loop took, and how many effects there were when a client was
  registered.
\<close>

record ('i, 'o) pipes =
  p_sys :: system
  p_loop :: "(client_id \<times> message) list"
  p_inbound :: 'i
  p_task :: "client_id \<Rightarrow> task"
  p_outbound :: "client_id \<Rightarrow> 'o"
  p_read :: "client_id \<Rightarrow> message list"
  p_written :: "client_id \<Rightarrow> message list"
  p_handled :: "(client_id \<times> message) list"
  p_since :: "client_id \<Rightarrow> nat"

abbreviation p_mux :: "('i, 'o) pipes \<Rightarrow> multiplexer" where
  "p_mux s \<equiv> sys_mux (p_sys s)"

definition pipes_init :: "('i, client_id \<times> message) mpsc \<Rightarrow> ('o, message) mpsc \<Rightarrow> multiplexer \<Rightarrow> ('i, 'o) pipes" where
  "pipes_init In Out mx = \<lparr>p_sys = sys_init mx, p_loop = [], p_inbound = mpsc_channel In INBOUND_CAPACITY, p_task = (\<lambda>c. Absent),
     p_outbound = (\<lambda>c. mpsc_channel Out OUTBOUND_CAPACITY), p_read = (\<lambda>c. []), p_written = (\<lambda>c. []), p_handled = [], p_since = (\<lambda>c. 0)\<rparr>"

text \<open>The sends of a handler: the messages to clients among its new effects.\<close>

definition new_sends :: "multiplexer \<Rightarrow> multiplexer \<Rightarrow> (client_id \<times> message) list" where
  "new_sends mx mx' = answers (drop (length (mx_effects mx)) (mx_effects mx'))"

section \<open>Steps\<close>

datatype act =
    Register client_credentials
  | Refuse_id
  | Read client_id message
  | Hand client_id
  | Take client_id
  | Write client_id
  | Stop client_id
  | Handle_client env
  | Handle_bus env route message
  | Handle_tick env
  | Send
  | Unregister client_id
  | Clean_section

text \<open>The sections of a clean-up that write to the client map.\<close>

fun writes_clients :: "cleanup \<Rightarrow> bool" where
  "writes_clients (HandOver c u ((name, Some owner) # rs) owned) = True"
| "writes_clients _ = False"

inductive pipe_step :: "('i, client_id \<times> message) mpsc \<Rightarrow> ('o, message) mpsc \<Rightarrow> act \<Rightarrow> ('i, 'o) pipes \<Rightarrow> ('i, 'o) pipes \<Rightarrow> bool"
  for In Out where
  Register: "p_loop s = [] \<Longrightarrow> c = sys_next (p_sys s) \<Longrightarrow> unat c + 1 < 2 ^ 64 \<Longrightarrow>
     pipe_step In Out (Register creds) s (s\<lparr>p_sys := (p_sys s)\<lparr>sys_mux := register_client c (mux_name c) creds (p_mux s), sys_next := c + 1\<rparr>,
         p_task := (p_task s)(c := Selecting), p_outbound := (p_outbound s)(c := mpsc_channel Out OUTBOUND_CAPACITY),
         p_since := (p_since s)(c := length (mx_effects (p_mux s)))\<rparr>)"
| Refuse_id: "c = sys_next (p_sys s) \<Longrightarrow> unat c + 1 < 2 ^ 64 \<Longrightarrow>
     pipe_step In Out Refuse_id s (s\<lparr>p_sys := (p_sys s)\<lparr>sys_next := c + 1\<rparr>\<rparr>)"
| Read: "p_task s c = Selecting \<Longrightarrow>
     pipe_step In Out (Read c m) s (s\<lparr>p_task := (p_task s)(c := Handing m), p_read := (p_read s)(c := p_read s c @ [m])\<rparr>)"
| Hand: "p_task s c = Handing m \<Longrightarrow> mpsc_send In (c, m) (p_inbound s) = Some q \<Longrightarrow>
     pipe_step In Out (Hand c) s (s\<lparr>p_task := (p_task s)(c := Selecting), p_inbound := q\<rparr>)"
| Take: "p_task s c = Selecting \<Longrightarrow> mpsc_recv Out (p_outbound s c) = Some (m, q) \<Longrightarrow>
     pipe_step In Out (Take c) s (s\<lparr>p_task := (p_task s)(c := Writing m), p_outbound := (p_outbound s)(c := q)\<rparr>)"
| Write: "p_task s c = Writing m \<Longrightarrow>
     pipe_step In Out (Write c) s (s\<lparr>p_task := (p_task s)(c := Selecting), p_written := (p_written s)(c := p_written s c @ [m])\<rparr>)"
| Stop: "p_task s c = Selecting \<or> p_task s c = Writing m \<Longrightarrow>
     pipe_step In Out (Stop c) s (s\<lparr>p_task := (p_task s)(c := Ended)\<rparr>)"
| Handle_client: "p_loop s = [] \<Longrightarrow> mpsc_recv In (p_inbound s) = Some ((c, m), q) \<Longrightarrow> run_step E (ClientMessage c m) (p_mux s) = Inr mx' \<Longrightarrow>
     pipe_step In Out (Handle_client E) s (s\<lparr>p_sys := (p_sys s)\<lparr>sys_mux := mx'\<rparr>, p_inbound := q,
         p_handled := p_handled s @ [(c, m)], p_loop := new_sends (p_mux s) mx'\<rparr>)"
| Handle_bus: "p_loop s = [] \<Longrightarrow> run_step E (BusItem route (Some (Inr m))) (p_mux s) = Inr mx' \<Longrightarrow>
     pipe_step In Out (Handle_bus E route m) s (s\<lparr>p_sys := (p_sys s)\<lparr>sys_mux := mx'\<rparr>, p_loop := new_sends (p_mux s) mx'\<rparr>)"
| Handle_tick: "p_loop s = [] \<Longrightarrow> run_step E Tick (p_mux s) = Inr mx' \<Longrightarrow>
     pipe_step In Out (Handle_tick E) s (s\<lparr>p_sys := (p_sys s)\<lparr>sys_mux := mx'\<rparr>\<rparr>)"
| Send: "p_loop s = (c, m) # ms \<Longrightarrow> p_task s c \<noteq> Ended \<Longrightarrow> mpsc_send Out m (p_outbound s c) = Some q \<Longrightarrow>
     pipe_step In Out Send s (s\<lparr>p_loop := ms, p_outbound := (p_outbound s)(c := q)\<rparr>)"
| Send_fails: "p_loop s = (c, m) # ms \<Longrightarrow> p_task s c = Ended \<Longrightarrow> pipe_step In Out Send s (s\<lparr>p_loop := ms\<rparr>)"
| Unregister: "p_loop s = [] \<Longrightarrow> p_task s c = Ended \<Longrightarrow> hm_get (mx_clients (p_mux s)) c = Some info \<Longrightarrow>
     unregister_client c (p_mux s) = ((owned, rules), mx') \<Longrightarrow>
     pipe_step In Out (Unregister c) s (s\<lparr>p_sys := (p_sys s)\<lparr>sys_mux := mx',
         sys_tasks := ReleaseRules c (ci_unique_name info) rules owned # sys_tasks (p_sys s)\<rparr>\<rparr>)"
| Clean_section: "sys_tasks (p_sys s) = ts1 @ t # ts2 \<Longrightarrow> writes_clients t \<longrightarrow> p_loop s = [] \<Longrightarrow> cleanup_step t (p_mux s) = (t', mx') \<Longrightarrow>
     pipe_step In Out Clean_section s (s\<lparr>p_sys := (p_sys s)\<lparr>sys_mux := mx',
         sys_tasks := ts1 @ (case t' of Some x \<Rightarrow> [x] | None \<Rightarrow> []) @ ts2\<rparr>\<rparr>)"

inductive pipe_run :: "('i, client_id \<times> message) mpsc \<Rightarrow> ('o, message) mpsc \<Rightarrow> act list \<Rightarrow> ('i, 'o) pipes \<Rightarrow> ('i, 'o) pipes \<Rightarrow> bool"
  for In Out where
  Nil: "pipe_run In Out [] s s"
| Cons: "pipe_step In Out a s s1 \<Longrightarrow> pipe_run In Out as s1 s2 \<Longrightarrow> pipe_run In Out (a # as) s s2"

definition pipe_reachable :: "('i, client_id \<times> message) mpsc \<Rightarrow> ('o, message) mpsc \<Rightarrow> ('i, 'o) pipes \<Rightarrow> bool" where
  "pipe_reachable In Out s \<longleftrightarrow> (\<exists>E build session guid cbus hbus mx as.
     multiplexer_new E build session guid cbus hbus = Inr mx \<and> pipe_run In Out as (pipes_init In Out mx) s)"

section \<open>What handlers send\<close>

text \<open>Nothing that was sent is taken back, new messages go to connected clients only, and the handlers change nobody's connection.\<close>

definition speaks :: "multiplexer \<Rightarrow> multiplexer \<Rightarrow> bool" where
  "speaks mx mx' \<longleftrightarrow> (\<forall>c. connected mx' c = connected mx c)
     \<and> (\<exists>effs. mx_effects mx' = mx_effects mx @ effs \<and> (\<forall>(c, m) \<in> set (answers effs). connected mx c))"

lemma connected_iff: "connected mx c \<longleftrightarrow> hm_get (mx_clients mx) c \<noteq> None"
  by (simp add: connected_def client_view_def)

lemma speaks_refl [simp, intro]: "speaks mx mx"
  by (simp add: speaks_def)

lemma speaks_trans [trans]: "speaks a b \<Longrightarrow> speaks b c \<Longrightarrow> speaks a c"
  unfolding speaks_def by fastforce

lemma speaks_emit: "speaks mx mx' \<Longrightarrow> (\<And>c m. (c, m) \<in> set (answers effs) \<Longrightarrow> connected mx' c) \<Longrightarrow> speaks mx (emit effs mx')"
  by (erule speaks_trans) (auto simp: speaks_def connected_iff)

lemma speaks_steps:
  "speaks mx mx' \<Longrightarrow> speaks mx (upd_table f mx')" "speaks mx mx' \<Longrightarrow> speaks mx (upd_client d g mx')"
  "speaks mx mx' \<Longrightarrow> speaks mx (mx'\<lparr>mx_name_queue := q\<rparr>)" "speaks mx mx' \<Longrightarrow> speaks mx (mx'\<lparr>mx_refcount := rc\<rparr>)"
  "speaks mx mx' \<Longrightarrow> speaks mx (mx'\<lparr>mx_router := r\<rparr>)" "speaks mx mx' \<Longrightarrow> speaks mx (mx'\<lparr>mx_portal_requests := t\<rparr>)"
  "speaks mx mx' \<Longrightarrow> speaks mx (emit [CallBus rt call] mx')"
  "speaks mx mx' \<Longrightarrow> speaks mx (subscribe_on rt bus rule mx')" "speaks mx mx' \<Longrightarrow> speaks mx (unsubscribe_on rt bus rule mx')"
  by (erule speaks_trans, auto simp: speaks_def connected_iff subscribe_on_def unsubscribe_on_def case_prod_unfold Let_def)+

lemma speaks_send:
  "speaks mx mx' \<Longrightarrow> speaks mx (send_reply_to_client E c msg body mx')"
  "speaks mx mx' \<Longrightarrow> speaks mx (send_error_to_client E c msg name txt mx')"
  "speaks mx mx' \<Longrightarrow> speaks mx (invalid_args E c msg e mx')"
  by (auto simp: send_emit reply_effects_def error_effects_def connected_iff intro!: speaks_emit split: option.splits sum.splits)

lemma speaks_answers:
  "speaks mx (handle_hello E c msg mx)" "speaks mx (handle_list_names E c msg mx)"
  "speaks mx (handle_list_activatable_names E c msg mx)" "speaks mx (handle_get_name_owner E c msg mx)"
  "speaks mx (handle_name_has_owner E c msg mx)" "speaks mx (handle_get_id E c msg mx)"
  "speaks mx (handle_ping E c msg mx)" "speaks mx (handle_get_machine_id E c msg mx)"
  "speaks mx (handle_get_connection_unix_user E c msg mx)"
  "speaks mx (handle_get_connection_unix_process_id E c msg mx)"
  "speaks mx (handle_get_connection_credentials E c msg mx)"
  "speaks mx (handle_list_queued_owners E c msg mx)" "speaks mx (handle_introspect E c msg mx)"
  "speaks mx (handle_get_all E c msg mx)"
proof -
  show "speaks mx (handle_hello E c msg mx)"
    by (auto simp: handle_hello_def connected_iff intro!: speaks_emit split: option.splits sum.splits)
  have calls: "answers (snd (list_activatable_names E r)) = []" "answers (snd (get_name_owner E r n)) = []" for r n
    by (auto simp: list_activatable_names_def get_name_owner_def call_and_read_def split: sum.splits zbus_error.splits)
qed (unfold answer_defs case_prod_unfold Let_def,
     auto intro!: speaks_send speaks_emit simp: list_activatable_names_def get_name_owner_def call_and_read_def split: sum.splits option.splits zbus_error.splits)

lemma speaks_handlers:
  "speaks mx (handle_request_name E c msg mx)" "speaks mx (handle_release_name E c msg mx)"
  "speaks mx (handle_add_match E c msg mx)" "speaks mx (handle_bus_reply E msg route mx)"
  unfolding handle_request_name_def handle_release_name_def handle_add_match_def handle_bus_reply_def
    case_prod_unfold Let_def
  by (auto simp: connected_iff intro!: speaks_send speaks_emit speaks_steps split: sum.splits option.splits)

lemma speaks_remove_match: "speaks mx (handle_remove_match E c msg mx)"
proof -
  have "speaks mx (mx\<lparr>mx_clients := hm_insert c (f i) (mx_clients mx)\<rparr>)" if "hm_get (mx_clients mx) c = Some i" for i f
    using that by (auto simp: speaks_def connected_iff)
  then show ?thesis
    by (auto simp: handle_remove_match_def case_prod_unfold Let_def intro!: speaks_send speaks_steps split: sum.splits option.splits)
qed

lemma speaks_forward: "speaks mx (snd (forward E c msg route mx))"
proof -
  obtain res effs r where f: "forward_method_call E c msg route (mx_router mx) = (res, effs, r)" by (metis prod_cases3)
  then have "answers effs = []" by (cases rule: forward_cases) auto
  with f show ?thesis by (auto simp: forward_def intro!: speaks_emit speaks_steps)
qed

lemma speaks_signal: "speaks mx (handle_bus_signal E msg route mx)"
proof -
  have "speaks mx (deliver_signal E msg route mx')" if "speaks mx mx'" for mx'
    using that
    by (force simp: deliver_signal_def answers_def connected_iff hm_get_None_keys Let_def intro!: speaks_emit)
  then show ?thesis
    by (auto simp: handle_bus_signal_def connected_iff case_prod_unfold Let_def intro!: speaks_emit speaks_steps split: option.splits)
qed

lemma speaks_client_message: "speaks mx (handle_client_message E c msg mx)"
proof -
  have fwd: "speaks mx (case forward E c msg r mx of (Inr _, mx1) \<Rightarrow> mx1 | (Inl e, mx1) \<Rightarrow> send_error_to_client E c msg n (t e) mx1)" for r n t
    using speaks_forward[of mx E c msg r] by (auto intro!: speaks_send split: prod.splits sum.splits)
  have pick: "speaks mx a \<Longrightarrow> speaks mx b \<Longrightarrow> speaks mx (if P then a else b)" for P a b by simp
  have "speaks mx (handle_dbus_method E c msg mx)"
    unfolding handle_dbus_method_def Let_def by (intro pick speaks_answers speaks_handlers speaks_remove_match fwd)
  then show ?thesis unfolding handle_client_message_def Let_def by (intro pick fwd speaks_refl)
qed

lemma speaks_run_step: "run_step E ev mx = Inr mx' \<Longrightarrow> speaks mx mx'"
proof (induction E ev mx rule: run_step.induct)
  case (1 E route item mx)
  have "speaks mx (handle_bus_message E msg route mx)" for msg
    using speaks_handlers(4)[of mx E msg route] speaks_signal[of mx E msg route]
    by (auto simp: handle_bus_message_def Let_def is_signal_def is_method_return_def is_error_def
        intro!: speaks_steps split: sum.splits route.splits)
  with 1 show ?case by (auto split: sum.splits option.splits)
qed (auto simp: speaks_client_message periodic_cleanup_def case_prod_unfold Let_def intro!: speaks_steps)

definition silent :: "multiplexer \<Rightarrow> multiplexer \<Rightarrow> bool" where
  "silent mx mx' \<longleftrightarrow> (\<exists>effs. mx_effects mx' = mx_effects mx @ effs \<and> answers effs = [])"

lemma silent_refl [simp, intro]: "silent mx mx"
  by (simp add: silent_def)

lemma silent_trans: "silent a b \<Longrightarrow> silent b c \<Longrightarrow> silent a c"
  unfolding silent_def by auto

lemma silent_release_rules: "silent mx (release_rules rules mx)"
  unfolding release_rules_def
proof (induction rules arbitrary: mx)
  case (Cons r rules)
  have "silent m (unsubscribe_on rt bus r m)" for rt bus m by (auto simp: silent_def unsubscribe_on_def case_prod_unfold Let_def)
  then have "silent mx (release_rule r mx)" unfolding release_rule_def by (meson silent_trans)
  with Cons show ?case by (auto intro: silent_trans)
qed simp

lemma silent_cleanup: "silent mx (snd (cleanup_step t mx))"
  by (cases "(t, mx)" rule: cleanup_step.cases)
     (auto simp: silent_release_rules[unfolded silent_def] case_prod_unfold Let_def silent_def drop_portal_requests_def leave_queues_def
       hand_over_def release_owned_def split: option.splits)

lemma silent_registration:
  "silent mx (register_client c u creds mx)" "unregister_client c mx = (x, mx') \<Longrightarrow> silent mx mx'"
  by (auto simp: silent_def register_client_def unregister_client_def split: option.splits)

section \<open>Invariants\<close>

definition to_client :: "client_id \<Rightarrow> (client_id \<times> message) list \<Rightarrow> message list" where
  "to_client c xs = map snd (filter (\<lambda>x. fst x = c) xs)"

lemma to_client_simps [simp]:
  "to_client c [] = []" "to_client c (x # xs) = (if fst x = c then snd x # to_client c xs else to_client c xs)"
  "to_client c (xs @ ys) = to_client c xs @ to_client c ys"
  by (simp_all add: to_client_def)

fun writing :: "task \<Rightarrow> message list" where
  "writing (Writing m) = [m]"
| "writing _ = []"

fun handing :: "task \<Rightarrow> message list" where
  "handing (Handing m) = [m]"
| "handing _ = []"

definition live :: "task \<Rightarrow> bool" where
  "live t \<longleftrightarrow> t \<noteq> Absent \<and> t \<noteq> Ended"

lemma live_simps [simp]: "live Selecting" "live (Handing m)" "live (Writing m)" "\<not> live Ended" "\<not> live Absent"
  by (simp_all add: live_def)

text \<open>The messages that the handlers sent to a client since it was registered, in their order.\<close>

definition sent :: "('i, 'o) pipes \<Rightarrow> client_id \<Rightarrow> message list" where
  "sent s c = to_client c (answers (drop (p_since s c) (mx_effects (p_mux s))))"

definition known_inv :: "('i, 'o) pipes \<Rightarrow> bool" where
  "known_inv s \<longleftrightarrow> (\<forall>c. unat (sys_next (p_sys s)) \<le> unat c \<longrightarrow> p_task s c = Absent)
     \<and> (\<forall>c. connected (p_mux s) c \<longrightarrow> p_task s c \<noteq> Absent) \<and> (\<forall>(c, m) \<in> set (p_loop s). p_task s c \<noteq> Absent)"

text \<open>Both flows, and the places, under views of the channels.\<close>

definition in_flow :: "('i \<Rightarrow> nat \<times> (client_id \<times> message) list) \<Rightarrow> ('i, 'o) pipes \<Rightarrow> client_id \<Rightarrow> bool" where
  "in_flow vi s c \<longleftrightarrow> to_client c (p_handled s) @ to_client c (snd (vi (p_inbound s))) @ handing (p_task s c) = p_read s c"

definition out_flow :: "('o \<Rightarrow> nat \<times> message list) \<Rightarrow> ('i, 'o) pipes \<Rightarrow> client_id \<Rightarrow> bool" where
  "out_flow vo s c \<longleftrightarrow> (p_task s c = Absent \<longrightarrow> p_written s c = [])
     \<and> (p_task s c \<noteq> Absent \<longrightarrow> p_since s c \<le> length (mx_effects (p_mux s)) \<and> prefix (p_written s c) (sent s c))
     \<and> (live (p_task s c) \<longrightarrow> p_written s c @ writing (p_task s c) @ snd (vo (p_outbound s c)) @ to_client c (p_loop s) = sent s c)"

definition places :: "nat \<Rightarrow> nat \<times> 'm list \<Rightarrow> bool" where
  "places n q \<longleftrightarrow> fst q = n \<and> length (snd q) \<le> n"

definition within_capacity :: "('i \<Rightarrow> nat \<times> (client_id \<times> message) list) \<Rightarrow> ('o \<Rightarrow> nat \<times> message list) \<Rightarrow> ('i, 'o) pipes \<Rightarrow> bool" where
  "within_capacity vi vo s \<longleftrightarrow> places INBOUND_CAPACITY (vi (p_inbound s)) \<and> (\<forall>c. places OUTBOUND_CAPACITY (vo (p_outbound s c)))"

lemma places_ops:
  assumes "mpsc_laws M v"
  shows "places n (v (mpsc_channel M n))" and "places n (v q) \<Longrightarrow> mpsc_send M m q = Some q' \<Longrightarrow> places n (v q')"
    and "places n (v q) \<Longrightarrow> mpsc_recv M q = Some (m, q') \<Longrightarrow> places n (v q')"
proof -
  show "places n (v (mpsc_channel M n))" by (simp add: places_def mpsc_lawsD(1)[OF assms])
  show "places n (v q')" if "places n (v q)" "mpsc_send M m q = Some q'"
    using that mpsc_lawsD(3)[OF assms that(2)] mpsc_lawsD(2)[OF assms, of m q] by (auto simp: places_def)
  show "places n (v q')" if "places n (v q)" "mpsc_recv M q = Some (m, q')"
    using that mpsc_lawsD(5)[OF assms that(2)] by (auto simp: places_def)
qed

lemma capacity_step:
  "pipe_step In Out a s s' \<Longrightarrow> mpsc_laws In vi \<Longrightarrow> mpsc_laws Out vo \<Longrightarrow> within_capacity vi vo s \<Longrightarrow> within_capacity vi vo s'"
  by (induction rule: pipe_step.induct) (auto simp: within_capacity_def intro: places_ops)

lemma in_flow_step:
  assumes "pipe_step In Out a s s'" "mpsc_laws In vi" "known_inv s" "in_flow vi s c"
  shows "in_flow vi s' c"
  using assms
proof (induction rule: pipe_step.induct)
  case (Hand s d m q)
  then show ?case using mpsc_lawsD(3)[OF Hand(3,2)] by (auto simp: in_flow_def)
next
  case (Handle_client s d m q E mx')
  then show ?case using mpsc_lawsD(5)[OF Handle_client(4,2)] by (auto simp: in_flow_def split: if_splits)
qed (auto simp: in_flow_def known_inv_def)

lemma known_step: "pipe_step In Out a s s' \<Longrightarrow> known_inv s \<Longrightarrow> known_inv s'"
proof (induction rule: pipe_step.induct)
  case (Register s c creds)
  then show ?case by (auto simp: known_inv_def connected_iff register_client_def unat_word_ariths split: if_splits)
next
  case (Refuse_id c s)
  then show ?case by (auto simp: known_inv_def unat_word_ariths)
next
  case (Handle_client s c m q E mx')
  show ?case using speaks_run_step[OF Handle_client(3)] Handle_client(4) by (fastforce simp: known_inv_def speaks_def new_sends_def)
next
  case (Handle_bus s E route m mx')
  show ?case using speaks_run_step[OF Handle_bus(2)] Handle_bus(3) by (fastforce simp: known_inv_def speaks_def new_sends_def)
next
  case (Handle_tick s E mx')
  show ?case using speaks_run_step[OF Handle_tick(2)] Handle_tick(3) by (auto simp: known_inv_def speaks_def)
next
  case (Unregister s c info owned rules mx')
  then show ?case by (auto simp: known_inv_def unregister_client_def connected_iff split: if_splits)
next
  case (Clean_section s ts1 t ts2 t' mx')
  then show ?case using cleanup_step_connected[of t "p_mux s"] by (auto simp: known_inv_def connected_def)
qed (auto simp: known_inv_def split: if_splits)

lemma sent_more:
  assumes "mx_effects (p_mux s') = mx_effects (p_mux s) @ effs" "p_since s' c = p_since s c" "p_since s c \<le> length (mx_effects (p_mux s))"
  shows "sent s' c = sent s c @ to_client c (answers effs)"
  using assms by (simp add: sent_def)

lemma sent_same: "mx_effects (p_mux s') = mx_effects (p_mux s) \<Longrightarrow> p_since s' c = p_since s c \<Longrightarrow> sent s' c = sent s c"
  by (simp add: sent_def)

text \<open>A step that only adds effects, and puts the sends among them into the loop.\<close>

lemma out_flow_more:
  assumes "out_flow vo s c" and "mx_effects (p_mux s') = mx_effects (p_mux s) @ effs" and "p_loop s' = p_loop s @ answers effs"
    and "p_since s' = p_since s" "p_outbound s' = p_outbound s" "p_written s' = p_written s" "p_task s' = p_task s"
  shows "out_flow vo s' c"
proof (cases "p_task s c = Absent")
  case False
  then have "sent s' c = sent s c @ to_client c (answers effs)"
    using assms(1,4) by (intro sent_more[OF assms(2)]) (simp_all add: out_flow_def)
  then show ?thesis using assms False by (auto simp: out_flow_def)
qed (use assms in \<open>auto simp: out_flow_def\<close>)

lemma out_flow_handler:
  assumes "out_flow vo s c" "p_loop s = []" "speaks (p_mux s) mx'" "p_mux s' = mx'" "p_loop s' = new_sends (p_mux s) mx'"
    "p_since s' = p_since s" "p_outbound s' = p_outbound s" "p_written s' = p_written s" "p_task s' = p_task s"
  shows "out_flow vo s' c"
proof -
  obtain effs where "mx_effects mx' = mx_effects (p_mux s) @ effs" using assms(3) by (auto simp: speaks_def)
  then show ?thesis using assms by (intro out_flow_more[OF assms(1), of s' effs]) (simp_all add: new_sends_def)
qed

lemma out_flow_silent:
  assumes "out_flow vo s c" "silent (p_mux s) (p_mux s')" "p_loop s' = p_loop s"
    "p_since s' = p_since s" "p_outbound s' = p_outbound s" "p_written s' = p_written s" "p_task s' = p_task s"
  shows "out_flow vo s' c"
  using assms(2) unfolding silent_def
  by (elim exE conjE) (use assms in \<open>intro out_flow_more[OF assms(1)]; simp\<close>)

lemma out_flow_step:
  assumes "pipe_step In Out a s s'" and "mpsc_laws Out vo" and "known_inv s" and "out_flow vo s c"
  shows "out_flow vo s' c"
  using assms
proof (induction rule: pipe_step.induct)
  case (Register s d creds)
  have "p_task s d = Absent" using Register(2,5) by (simp add: known_inv_def)
  then show ?case
    using Register(1,6) mpsc_lawsD(1)[OF Register(4)] by (auto simp: out_flow_def sent_def register_client_def)
next
  case (Take s d m q)
  then show ?case using mpsc_lawsD(5)[OF Take(3,2)] by (cases "d = c") (auto simp: out_flow_def sent_def)
next
  case (Write s d m)
  then show ?case by (cases "d = c") (auto simp: out_flow_def sent_def intro: prefixI[OF sym])
next
  case (Handle_client s d m q E mx')
  show ?case by (rule out_flow_handler[OF Handle_client(6,1) speaks_run_step[OF Handle_client(3)]]) simp_all
next
  case (Handle_bus s E route m mx')
  show ?case by (rule out_flow_handler[OF Handle_bus(5,1) speaks_run_step[OF Handle_bus(2)]]) simp_all
next
  case (Handle_tick s E mx')
  show ?case
    by (rule out_flow_silent[OF Handle_tick(5)])
       (use Handle_tick(2) in \<open>auto simp: silent_def periodic_cleanup_def case_prod_unfold Let_def\<close>)
next
  case (Send s d m ms q)
  then show ?case using mpsc_lawsD(3)[OF Send(4,3)] by (cases "d = c") (auto simp: out_flow_def sent_def known_inv_def)
next
  case (Unregister s d info owned rules mx')
  show ?case by (rule out_flow_silent[OF Unregister(7)]) (use silent_registration(2)[OF Unregister(4)] in simp_all)
next
  case (Clean_section s ts1 t ts2 t' mx')
  have "silent (p_mux s) mx'" using silent_cleanup[of "p_mux s" t] Clean_section(3) by simp
  then show ?case by (intro out_flow_silent[OF Clean_section(6)]) simp_all
qed (auto simp: out_flow_def sent_def known_inv_def split: if_splits)

definition pipes_inv :: "('i \<Rightarrow> nat \<times> (client_id \<times> message) list) \<Rightarrow> ('o \<Rightarrow> nat \<times> message list) \<Rightarrow> ('i, 'o) pipes \<Rightarrow> bool" where
  "pipes_inv vi vo s \<longleftrightarrow> known_inv s \<and> within_capacity vi vo s \<and> (\<forall>c. in_flow vi s c \<and> out_flow vo s c)"

lemma pipes_inv_run:
  "pipe_run In Out as s s' \<Longrightarrow> mpsc_laws In vi \<Longrightarrow> mpsc_laws Out vo \<Longrightarrow> pipes_inv vi vo s \<Longrightarrow> pipes_inv vi vo s'"
  by (induction rule: pipe_run.induct) (auto simp: pipes_inv_def intro: known_step capacity_step in_flow_step out_flow_step)

lemma pipes_inv_init:
  assumes "multiplexer_new E build session guid cbus hbus = Inr mx" "mpsc_laws In vi" "mpsc_laws Out vo"
  shows "pipes_inv vi vo (pipes_init In Out mx)"
  using multiplexer_new_fields(1)[OF assms(1)] places_ops(1)[OF assms(2)] places_ops(1)[OF assms(3)] mpsc_lawsD(1)[OF assms(2)]
  by (simp add: pipes_inv_def known_inv_def within_capacity_def in_flow_def out_flow_def pipes_init_def sys_init_def connected_iff)

lemma reachable_pipes_inv: "pipe_reachable In Out s \<Longrightarrow> mpsc_laws In vi \<Longrightarrow> mpsc_laws Out vo \<Longrightarrow> pipes_inv vi vo s"
  by (auto simp: pipe_reachable_def intro: pipes_inv_run pipes_inv_init)

lemma pipe_run_append: "pipe_run In Out as s s1 \<Longrightarrow> pipe_run In Out bs s1 s2 \<Longrightarrow> pipe_run In Out (as @ bs) s s2"
  by (induction rule: pipe_run.induct) (auto intro: pipe_run.Cons)

lemma pipe_reachable_run: "pipe_reachable In Out s \<Longrightarrow> pipe_run In Out as s s' \<Longrightarrow> pipe_reachable In Out s'"
  unfolding pipe_reachable_def by (blast intro: pipe_run_append)

section \<open>When the loop cannot go on\<close>

text \<open>
  The loop waits for a place in the outbound channel of a client whose task waits for a place in
  the inbound channel.
\<close>

definition wedged :: "('i, client_id \<times> message) mpsc \<Rightarrow> ('o, message) mpsc \<Rightarrow> client_id \<Rightarrow> ('i, 'o) pipes \<Rightarrow> bool" where
  "wedged In Out c s \<longleftrightarrow> (\<exists>m rest. p_loop s = (c, m) # rest \<and> mpsc_send Out m (p_outbound s c) = None)
     \<and> (\<exists>m. p_task s c = Handing m \<and> mpsc_send In (c, m) (p_inbound s) = None)"

lemma send_waits_alike: "mpsc_laws M v \<Longrightarrow> mpsc_send M m q = None \<Longrightarrow> mpsc_send M m' q = None"
  by (simp add: mpsc_lawsD(2))

lemma wedged_step:
  assumes "pipe_step In Out a s s'" "mpsc_laws In vi" "wedged In Out c s"
  shows "wedged In Out c s' \<and> p_loop s' = p_loop s \<and> p_handled s' = p_handled s"
  using assms
proof (induction rule: pipe_step.induct)
  case (Hand s d m q)
  obtain x where "mpsc_send In (c, x) (p_inbound s) = None" using Hand(4) by (auto simp: wedged_def)
  then show ?case using send_waits_alike[OF Hand(3), of "(c, x)" "p_inbound s" "(d, m)"] Hand(2) by simp
qed (auto simp: wedged_def)

lemma wedged_run:
  "pipe_run In Out as s s' \<Longrightarrow> mpsc_laws In vi \<Longrightarrow> wedged In Out c s \<Longrightarrow> wedged In Out c s' \<and> p_loop s' = p_loop s \<and> p_handled s' = p_handled s"
  by (induction rule: pipe_run.induct) (auto dest: wedged_step)

text \<open>The socket of the client takes no bytes: its task is in the middle of a write and the channel behind it is full.\<close>

definition stalled :: "('o, message) mpsc \<Rightarrow> client_id \<Rightarrow> ('i, 'o) pipes \<Rightarrow> bool" where
  "stalled Out c s \<longleftrightarrow> (\<exists>m rest. p_loop s = (c, m) # rest \<and> mpsc_send Out m (p_outbound s c) = None) \<and> (\<exists>m. p_task s c = Writing m)"

lemma stalled_step:
  "pipe_step In Out a s s' \<Longrightarrow> stalled Out c s \<Longrightarrow> a \<noteq> Write c \<Longrightarrow> a \<noteq> Stop c \<Longrightarrow>
     stalled Out c s' \<and> p_loop s' = p_loop s \<and> p_handled s' = p_handled s
       \<and> connected (p_mux s') = connected (p_mux s)"
proof (induction rule: pipe_step.induct)
  case (Clean_section s ts1 t ts2 t' mx')
  then show ?case using cleanup_step_connected[of t "p_mux s"] by (auto simp: stalled_def connected_def fun_eq_iff)
qed (auto simp: stalled_def)

lemma stalled_run:
  "pipe_run In Out as s s' \<Longrightarrow> stalled Out c s \<Longrightarrow> Write c \<notin> set as \<Longrightarrow> Stop c \<notin> set as \<Longrightarrow>
     stalled Out c s' \<and> p_loop s' = p_loop s \<and> p_handled s' = p_handled s \<and> connected (p_mux s') = connected (p_mux s)"
  by (induction rule: pipe_run.induct) (auto dest: stalled_step)

lemma take_makes_room:
  assumes "mpsc_laws Out vo" "p_loop s = (c, m) # rest" "p_task s c = Selecting"
    and "snd (vo (p_outbound s c)) = x # xs" "length xs < fst (vo (p_outbound s c))"
  shows "\<exists>s'. pipe_run In Out [Take c, Send] s s' \<and> p_loop s' = rest"
proof -
  obtain q where q: "mpsc_recv Out (p_outbound s c) = Some (x, q)" "vo q = (fst (vo (p_outbound s c)), xs)"
    using mpsc_recv_first[OF assms(1,4)] by blast
  then obtain q' where q': "mpsc_send Out m q = Some q'" using mpsc_send_room[OF assms(1), of q m] assms(5) by auto
  let ?s = "s\<lparr>p_task := (p_task s)(c := Writing x), p_outbound := (p_outbound s)(c := q)\<rparr>"
  let ?t = "?s\<lparr>p_loop := rest, p_outbound := (p_outbound ?s)(c := q')\<rparr>"
  have "pipe_step In Out Send ?s ?t" by (rule pipe_step.Send) (use assms(2) q' in simp_all)
  then have "pipe_run In Out [Take c, Send] s ?t"
    by (intro pipe_run.Cons[OF pipe_step.Take[OF assms(3) q(1)]] pipe_run.Cons[OF _ pipe_run.Nil])
  moreover have "p_loop ?t = rest" by simp
  ultimately show ?thesis by blast
qed

lemma loop_unblocks:
  assumes laws: "mpsc_laws In vi" "mpsc_laws Out vo" and inv: "known_inv s" "within_capacity vi vo s"
    and loop: "p_loop s = (c, m) # rest" and free: "\<not> wedged In Out c s"
  shows "\<exists>as s'. length as \<le> 3 \<and> pipe_run In Out as s s' \<and> p_loop s' = rest"
proof (cases "p_task s c = Ended \<or> mpsc_send Out m (p_outbound s c) \<noteq> None")
  case True
  then have "\<exists>s'. pipe_step In Out Send s s' \<and> p_loop s' = rest"
  proof (cases "p_task s c = Ended")
    case True
    have "pipe_step In Out Send s (s\<lparr>p_loop := rest\<rparr>)" by (rule pipe_step.Send_fails[OF loop True])
    then show ?thesis by force
  next
    case alive: False
    then obtain q where "mpsc_send Out m (p_outbound s c) = Some q" using True by auto
    from pipe_step.Send[OF loop alive this] show ?thesis by force
  qed
  then show ?thesis by (auto intro!: exI[of _ "[Send]"] intro: pipe_run.intros)
next
  case False
  have cap: "places OUTBOUND_CAPACITY (vo (p_outbound s c))" using inv(2) by (simp add: within_capacity_def)
  moreover have "fst (vo (p_outbound s c)) \<le> length (snd (vo (p_outbound s c)))" using False mpsc_lawsD(2)[OF laws(2)] by simp
  ultimately obtain x xs where out: "snd (vo (p_outbound s c)) = x # xs" "length xs < fst (vo (p_outbound s c))"
    by (cases "snd (vo (p_outbound s c))") (auto simp: places_def OUTBOUND_CAPACITY_def)
  have after: ?thesis if "pipe_step In Out a s s1" "p_loop s1 = p_loop s" "p_task s1 c = Selecting" "p_outbound s1 = p_outbound s" for a s1
    using take_makes_room[OF laws(2), of s1 c m rest x xs In] that loop out by (auto intro!: exI[of _ "[a, Take c, Send]"] intro: pipe_run.Cons)
  show ?thesis
  proof (cases "p_task s c")
    case Absent
    then show ?thesis using inv(1) loop by (auto simp: known_inv_def)
  next
    case Selecting
    then show ?thesis using take_makes_room[OF laws(2) loop _ out, of In] by (auto intro!: exI[of _ "[Take c, Send]"])
  next
    case (Handing y)
    then obtain q where "mpsc_send In (c, y) (p_inbound s) = Some q" using free loop False by (auto simp: wedged_def)
    then show ?thesis by (intro after[OF pipe_step.Hand[OF Handing]]) simp_all
  next
    case (Writing y)
    show ?thesis by (rule after[OF pipe_step.Write[OF Writing]]) simp_all
  qed (use False in simp)
qed

lemma wedged_iff:
  assumes "mpsc_laws In vi" "mpsc_laws Out vo" "pipes_inv vi vo s" "p_loop s = (c, m) # rest"
  shows "wedged In Out c s \<longleftrightarrow> (\<forall>as s'. pipe_run In Out as s s' \<longrightarrow> p_loop s' = p_loop s)"
proof (cases "wedged In Out c s")
  case True
  then show ?thesis using wedged_run[OF _ assms(1)] by blast
next
  case False
  then obtain as s' where "pipe_run In Out as s s'" "p_loop s' = rest"
    using loop_unblocks[OF assms(1,2) _ _ assms(4)] assms(3) by (auto simp: pipes_inv_def)
  moreover have "rest \<noteq> p_loop s" using assms(4) by simp
  ultimately show ?thesis using False by metis
qed

section \<open>Runs into these states\<close>

definition ping :: message where
  "ping = daemon_call ''Ping''"

lemma ping_handled:
  assumes "hm_get (mx_clients mx) 1 = Some info"
  obtains m where "run_step demo_env (ClientMessage 1 ping) mx = Inr (emit [SendClient 1 m] mx)"
proof -
  obtain m where "mrb_build (e_zbus demo_env) (mrb_set_destination (ci_unique_name info) (method_return_builder_new ping)) UnitBody = Inr m"
    using demo_answerable[of "ci_unique_name info" ping] unfolding answerable_def by blast
  then have "run_step demo_env (ClientMessage 1 ping) mx = Inr (emit [SendClient 1 m] mx)"
    using assms
    by (simp add: ping_def handle_client_message_def handle_dbus_method_def daemon_call_fields handle_ping_def send_reply_to_client_def)
  with that show thesis by blast
qed

text \<open>
  Two clients, of which number 1 sends pings and number 2 is idle: \<open>n\<close> of them are in the inbound
  channel and \<open>k\<close> answers in its outbound channel; the loop is idle, or has one more answer to send.
\<close>

definition crowded :: "('i, client_id \<times> message) mpsc \<Rightarrow> ('o, message) mpsc \<Rightarrow> ('i \<Rightarrow> nat \<times> (client_id \<times> message) list) \<Rightarrow>
    ('o \<Rightarrow> nat \<times> message list) \<Rightarrow> bool \<Rightarrow> task \<Rightarrow> nat \<Rightarrow> nat \<Rightarrow> ('i, 'o) pipes \<Rightarrow> bool" where
  "crowded In Out vi vo busy t n k s \<longleftrightarrow> pipe_reachable In Out s \<and> hm_get (mx_clients (p_mux s)) 1 \<noteq> None
     \<and> (if busy then \<exists>m. p_loop s = [(1, m)] else p_loop s = [])
     \<and> p_task s 1 = t \<and> p_task s 2 = Selecting
     \<and> vi (p_inbound s) = (INBOUND_CAPACITY, replicate n (1, ping))
     \<and> fst (vo (p_outbound s 1)) = OUTBOUND_CAPACITY \<and> length (snd (vo (p_outbound s 1))) = k"

lemma crowded_step: "crowded In Out vi vo b t n k s \<Longrightarrow> pipe_step In Out a s s' \<Longrightarrow> pipe_reachable In Out s'"
  using pipe_reachable_run[of In Out s "[a]" s'] by (auto simp: crowded_def intro: pipe_run.intros)

lemma register_run:
  "pipe_reachable In Out s \<Longrightarrow> p_loop s = [] \<Longrightarrow> unat (sys_next (p_sys s)) + 1 < 2 ^ 64 \<Longrightarrow>
     pipe_reachable In Out (s\<lparr>p_sys := (p_sys s)\<lparr>sys_mux := register_client (sys_next (p_sys s)) (mux_name (sys_next (p_sys s))) creds (p_mux s),
         sys_next := sys_next (p_sys s) + 1\<rparr>, p_task := (p_task s)(sys_next (p_sys s) := Selecting),
         p_outbound := (p_outbound s)(sys_next (p_sys s) := mpsc_channel Out OUTBOUND_CAPACITY),
         p_since := (p_since s)(sys_next (p_sys s) := length (mx_effects (p_mux s)))\<rparr>)"
  by (erule pipe_reachable_run[OF _ pipe_run.Cons[OF pipe_step.Register pipe_run.Nil]]) simp_all

lemma reachable_start: "pipe_reachable In Out (pipes_init In Out demo_mux)"
  unfolding pipe_reachable_def using demo_mux_new pipe_run.Nil by blast

lemma crowded_start:
  assumes "mpsc_laws In vi" "mpsc_laws Out vo"
  shows "\<exists>s. crowded In Out vi vo False Selecting 0 0 s"
  using register_run[OF register_run[OF reachable_start, of In Out demo_creds], of demo_creds]
    mpsc_lawsD(1)[OF assms(1)] mpsc_lawsD(1)[OF assms(2)]
  by (auto simp: crowded_def pipes_init_def sys_init_def register_client_def)

lemma crowded_read: "crowded In Out vi vo b Selecting n k s \<Longrightarrow> \<exists>s. crowded In Out vi vo b (Handing ping) n k s"
  using crowded_step[OF _ pipe_step.Read[of s 1 In Out ping]] by (fastforce simp: crowded_def)

lemma crowded_hand:
  assumes "mpsc_laws In vi" "crowded In Out vi vo b (Handing ping) n k s" "n < INBOUND_CAPACITY"
  shows "\<exists>s. crowded In Out vi vo b Selecting (Suc n) k s"
proof -
  have t: "p_task s 1 = Handing ping" using assms(2) by (simp add: crowded_def)
  obtain q where q: "mpsc_send In (1, ping) (p_inbound s) = Some q" "vi q = (INBOUND_CAPACITY, replicate n (1, ping) @ [(1, ping)])"
    using mpsc_send_room[OF assms(1), of "p_inbound s" "(1, ping)"] assms(2,3) by (auto simp: crowded_def)
  show ?thesis
    using crowded_step[OF assms(2) pipe_step.Hand[OF t q(1)]] assms(2) q(2) by (fastforce simp: crowded_def replicate_append_same)
qed

lemma crowded_more:
  assumes "mpsc_laws In vi"
  shows "crowded In Out vi vo b Selecting n k s \<Longrightarrow> n + i \<le> INBOUND_CAPACITY \<Longrightarrow> \<exists>s. crowded In Out vi vo b Selecting (n + i) k s"
proof (induction i)
  case (Suc i)
  then obtain s' where "crowded In Out vi vo b Selecting (n + i) k s'" by auto
  then show ?case using crowded_read crowded_hand[OF assms] Suc(3) by (metis Suc_le_eq add_Suc_right)
qed auto

lemma crowded_handle:
  assumes "mpsc_laws In vi" "crowded In Out vi vo False t (Suc n) k s"
  shows "\<exists>s. crowded In Out vi vo True t n k s"
proof -
  obtain info where "hm_get (mx_clients (p_mux s)) 1 = Some info" using assms(2) by (auto simp: crowded_def)
  from ping_handled[OF this] obtain m where m: "run_step demo_env (ClientMessage 1 ping) (p_mux s) = Inr (emit [SendClient 1 m] (p_mux s))" .
  have loop: "p_loop s = []" "snd (vi (p_inbound s)) = (1, ping) # replicate n (1, ping)" using assms(2) by (simp_all add: crowded_def)
  obtain q where q: "mpsc_recv In (p_inbound s) = Some ((1, ping), q)" "vi q = (fst (vi (p_inbound s)), replicate n (1, ping))"
    using mpsc_recv_first[OF assms(1) loop(2)] by blast
  show ?thesis
    using crowded_step[OF assms(2) pipe_step.Handle_client[OF loop(1) q(1) m]] assms(2) q(2) by (fastforce simp: crowded_def new_sends_def)
qed

lemma crowded_send:
  assumes "mpsc_laws Out vo" "crowded In Out vi vo True t n k s" "k < OUTBOUND_CAPACITY" "t \<noteq> Ended"
  shows "\<exists>s. crowded In Out vi vo False t n (Suc k) s"
proof -
  obtain m where m: "p_loop s = [(1, m)]" and t: "p_task s 1 \<noteq> Ended" using assms(2,4) by (auto simp: crowded_def)
  obtain q where q: "mpsc_send Out m (p_outbound s 1) = Some q" "vo q = (fst (vo (p_outbound s 1)), snd (vo (p_outbound s 1)) @ [m])"
    using mpsc_send_room[OF assms(1), of "p_outbound s 1" m] assms(2,3) by (auto simp: crowded_def)
  show ?thesis using crowded_step[OF assms(2) pipe_step.Send[OF m t q(1)]] assms(2) q(2) by (fastforce simp: crowded_def)
qed

lemma crowded_serve:
  assumes "mpsc_laws In vi" "mpsc_laws Out vo"
  shows "crowded In Out vi vo False t (n + i) k s \<Longrightarrow> k + i \<le> OUTBOUND_CAPACITY \<Longrightarrow> t \<noteq> Ended \<Longrightarrow>
    \<exists>s. crowded In Out vi vo False t n (k + i) s"
proof (induction i arbitrary: k s)
  case (Suc i)
  then obtain s1 where "crowded In Out vi vo True t (n + i) k s1" using crowded_handle[OF assms(1)] by fastforce
  then obtain s2 where "crowded In Out vi vo False t (n + i) (Suc k) s2" using crowded_send[OF assms(2)] Suc.prems by fastforce
  then show ?case using Suc.IH[of "Suc k" s2] Suc.prems by simp
qed auto

lemma crowded_take:
  assumes "mpsc_laws Out vo" "crowded In Out vi vo b Selecting n (Suc k) s"
  shows "\<exists>m s. crowded In Out vi vo b (Writing m) n k s"
proof -
  obtain m ms where m: "snd (vo (p_outbound s 1)) = m # ms" using assms(2) by (cases "snd (vo (p_outbound s 1))") (auto simp: crowded_def)
  have t: "p_task s 1 = Selecting" using assms(2) by (simp add: crowded_def)
  obtain q where q: "mpsc_recv Out (p_outbound s 1) = Some (m, q)" "vo q = (fst (vo (p_outbound s 1)), ms)"
    using mpsc_recv_first[OF assms(1) m] by blast
  show ?thesis using crowded_step[OF assms(2) pipe_step.Take[OF t q(1)]] assms(2) m q(2) by (fastforce simp: crowded_def)
qed

lemma crowded_wedged:
  assumes "mpsc_laws In vi" "mpsc_laws Out vo" "crowded In Out vi vo True (Handing ping) INBOUND_CAPACITY OUTBOUND_CAPACITY s"
  shows "pipe_reachable In Out s \<and> wedged In Out 1 s"
  using assms(3) mpsc_lawsD(2)[OF assms(1), of _ "p_inbound s"] mpsc_lawsD(2)[OF assms(2), of _ "p_outbound s 1"]
  by (auto simp: crowded_def wedged_def)

lemma crowded_stalled:
  assumes "mpsc_laws Out vo" "crowded In Out vi vo True (Writing m) 0 OUTBOUND_CAPACITY s"
  shows "pipe_reachable In Out s \<and> stalled Out 1 s \<and> p_task s 1 = Writing m"
  using assms(2) mpsc_lawsD(2)[OF assms(1), of _ "p_outbound s 1"] by (auto simp: crowded_def stalled_def)

lemma wedged_reachable:
  assumes "mpsc_laws In vi" "mpsc_laws Out vo"
  shows "\<exists>s. pipe_reachable In Out s \<and> wedged In Out 1 s"
proof -
  obtain s0 where "crowded In Out vi vo False Selecting (1 + OUTBOUND_CAPACITY) 0 s0"
    using crowded_start[OF assms] crowded_more[OF assms(1), of Out vo False 0 0 _ "1 + OUTBOUND_CAPACITY"]
    by (auto simp: INBOUND_CAPACITY_def OUTBOUND_CAPACITY_def)
  then obtain s1 where "crowded In Out vi vo False Selecting 1 OUTBOUND_CAPACITY s1"
    using crowded_serve[OF assms, of Selecting 1 OUTBOUND_CAPACITY 0 s0] by auto
  then obtain s2 where "crowded In Out vi vo True Selecting 0 OUTBOUND_CAPACITY s2" using crowded_handle[OF assms(1)] by fastforce
  then obtain s3 where "crowded In Out vi vo True Selecting INBOUND_CAPACITY OUTBOUND_CAPACITY s3"
    using crowded_more[OF assms(1), of Out vo True 0 OUTBOUND_CAPACITY s2 INBOUND_CAPACITY] by auto
  then obtain s4 where "crowded In Out vi vo True (Handing ping) INBOUND_CAPACITY OUTBOUND_CAPACITY s4" using crowded_read by blast
  then show ?thesis using crowded_wedged[OF assms] by blast
qed

lemma stalled_reachable:
  assumes "mpsc_laws In vi" "mpsc_laws Out vo"
  shows "\<exists>m s. crowded In Out vi vo True (Writing m) 0 OUTBOUND_CAPACITY s"
proof -
  obtain s0 where "crowded In Out vi vo False Selecting (Suc (Suc OUTBOUND_CAPACITY)) 0 s0"
    using crowded_start[OF assms] crowded_more[OF assms(1), of Out vo False 0 0 _ "Suc (Suc OUTBOUND_CAPACITY)"]
    by (auto simp: INBOUND_CAPACITY_def OUTBOUND_CAPACITY_def)
  then obtain s1 where "crowded In Out vi vo False Selecting (Suc OUTBOUND_CAPACITY) (Suc 0) s1"
    using crowded_serve[OF assms, of Selecting "Suc OUTBOUND_CAPACITY" 1 0 s0] by (auto simp: OUTBOUND_CAPACITY_def)
  then obtain m s2 where "crowded In Out vi vo False (Writing m) (Suc OUTBOUND_CAPACITY) 0 s2" using crowded_take[OF assms(2)] by blast
  then obtain s3 where "crowded In Out vi vo False (Writing m) 1 OUTBOUND_CAPACITY s3"
    using crowded_serve[OF assms, of "Writing m" 1 OUTBOUND_CAPACITY 0 s2] by auto
  then obtain s4 where "crowded In Out vi vo True (Writing m) 0 OUTBOUND_CAPACITY s4" using crowded_handle[OF assms(1)] by fastforce
  then show ?thesis by blast
qed

section \<open>Properties\<close>

text \<open>
  Nothing is lost, doubled or reordered between a client and the handlers: in every state the
  program can reach no channel holds more than its places; the messages read from the socket of a
  client are those the loop has handled, those in the inbound channel and the one being handed
  over, in this order; and what was written to its socket, what is being written, what is in its
  outbound channel and what the loop has yet to send is what the handlers sent to this client since
  it was registered, in their order. Once its task has ended, what was written is a prefix of it.
\<close>

lemma delivered_in_order:
  assumes "mpsc_laws In vi" and "mpsc_laws Out vo" and "pipe_reachable In Out s"
  shows "length (snd (vi (p_inbound s))) \<le> INBOUND_CAPACITY \<and> length (snd (vo (p_outbound s c))) \<le> OUTBOUND_CAPACITY
     \<and> to_client c (p_handled s) @ to_client c (snd (vi (p_inbound s))) @ handing (p_task s c) = p_read s c
     \<and> prefix (p_written s c) (sent s c)
     \<and> (live (p_task s c) \<longrightarrow> p_written s c @ writing (p_task s c) @ snd (vo (p_outbound s c)) @ to_client c (p_loop s) = sent s c)"
proof -
  have inv: "within_capacity vi vo s" "in_flow vi s c" "out_flow vo s c"
    using reachable_pipes_inv[OF assms(3,1,2)] by (simp_all add: pipes_inv_def)
  then show ?thesis by (cases "p_task s c = Absent") (auto simp: within_capacity_def places_def in_flow_def out_flow_def)
qed

lemma delivered_in_order_witness:
  "\<exists>s m. pipe_reachable list_channel list_channel s \<and> p_task s 1 = Writing m \<and> length (snd (p_outbound s 1)) = 256
     \<and> prefix (p_written s 1 @ m # snd (p_outbound s 1)) (sent s 1)"
proof -
  obtain m s where s: "crowded list_channel list_channel id id True (Writing m) 0 OUTBOUND_CAPACITY s"
    using stalled_reachable[OF list_channel_laws list_channel_laws] by blast
  then have r: "pipe_reachable list_channel list_channel s" and t: "p_task s 1 = Writing m"
    and n: "length (snd (p_outbound s 1)) = 256" by (simp_all add: crowded_def OUTBOUND_CAPACITY_def)
  have "p_written s 1 @ m # snd (p_outbound s 1) @ to_client 1 (p_loop s) = sent s 1"
    using delivered_in_order[OF list_channel_laws list_channel_laws r, of 1] t by simp
  then have "prefix (p_written s 1 @ m # snd (p_outbound s 1)) (sent s 1)" by (metis append_Cons append_assoc prefixI)
  with r t n show ?thesis by blast
qed

text \<open>
  C15. The loop waits for ever exactly when two full channels wait for each other: a loop that has a
  message to send to a client never gets rid of it, whatever the clients, the buses and the other
  tasks do, if and only if the outbound channel of this client is full while its task waits to
  hand a message to the full inbound channel. In every other state at most three steps of the
  client's task and of the loop send the message or find that the task has ended.
\<close>

theorem loop_blocked_iff_wedged:
  assumes "mpsc_laws In vi" and "mpsc_laws Out vo" and "pipe_reachable In Out s" and "p_loop s = (c, m) # rest"
  shows "(wedged In Out c s \<longleftrightarrow> (\<forall>as s'. pipe_run In Out as s s' \<longrightarrow> p_loop s' = p_loop s))
     \<and> (\<not> wedged In Out c s \<longrightarrow> (\<exists>as s'. length as \<le> 3 \<and> pipe_run In Out as s s' \<and> p_loop s' = rest))"
proof -
  have inv: "pipes_inv vi vo s" by (rule reachable_pipes_inv[OF assms(3,1,2)])
  then show ?thesis using wedged_iff[OF assms(1,2) inv assms(4)] loop_unblocks[OF assms(1,2) _ _ assms(4)] by (simp add: pipes_inv_def)
qed

theorem loop_blocked_iff_wedged_witness:
  "\<exists>s. pipe_reachable list_channel list_channel s \<and> stalled list_channel 1 s
     \<and> (\<exists>as s'. length as \<le> 3 \<and> pipe_run list_channel list_channel as s s' \<and> length (p_loop s') < length (p_loop s))"
proof -
  obtain m s where s: "crowded list_channel list_channel id id True (Writing m) 0 OUTBOUND_CAPACITY s"
    using stalled_reachable[OF list_channel_laws list_channel_laws] by blast
  note st = crowded_stalled[OF list_channel_laws s]
  then obtain x rest where loop: "p_loop s = (1, x) # rest" by (auto simp: stalled_def)
  have "\<not> wedged list_channel list_channel 1 s" using st by (auto simp: wedged_def)
  with loop_blocked_iff_wedged[OF list_channel_laws list_channel_laws _ loop] st loop show ?thesis by fastforce
qed

text \<open>
  The program can lock up: a client that sends calls without waiting for the answers can bring it
  into a state with both channels full, from which every run ends with the same messages handled
  and the same message still to be sent.
\<close>

lemma full_channels_deadlock:
  assumes "mpsc_laws In vi" and "mpsc_laws Out vo"
  shows "\<exists>s. pipe_reachable In Out s \<and> wedged In Out 1 s
     \<and> {(p_loop s', p_handled s') |as s'. pipe_run In Out as s s'} = {(p_loop s, p_handled s)}"
proof -
  obtain s where s: "pipe_reachable In Out s" "wedged In Out 1 s" using wedged_reachable[OF assms] by blast
  have "{(p_loop s', p_handled s') |as s'. pipe_run In Out as s s'} = {(p_loop s, p_handled s)}"
    using wedged_run[OF _ assms(1) s(2)] pipe_run.Nil[of In Out s] by blast
  with s show ?thesis by blast
qed

lemma full_channels_deadlock_witness:
  "\<exists>s :: (nat \<times> (client_id \<times> message) list, nat \<times> message list) pipes. wedged list_channel list_channel 1 s
     \<and> {(p_loop s', p_handled s') |as s'. pipe_run list_channel list_channel as s s'} = {(p_loop s, p_handled s)}"
  using full_channels_deadlock[OF list_channel_laws list_channel_laws] by blast



end
