(* ===== verification/Mux_Races.thy ===== *)
theory Mux_Races
  imports Mux_Channels
begin

unbundle bit_operations_syntax

text \<open>
  What the channels and the awaits between the parts of a handler add to the interleavings: the
  system with channels refines the system of \<open>Mux_System\<close>, so its invariants hold with channels
  too; messages of a client may be handled after the client is gone; and \<open>RequestName\<close> gives other
  tasks a chance to run between its look-up of the client and its entry into the queue.
\<close>

section \<open>The system behind the channels\<close>

lemma pipe_step_refines: "pipe_step In Out a s s' \<Longrightarrow> sys_step\<^sup>*\<^sup>* (p_sys s) (p_sys s')"
proof (induction rule: pipe_step.induct)
  case (Register s c creds)
  then show ?case using sys_step.Connect[of "p_sys s" creds] by (simp add: r_into_rtranclp)
next
  case (Refuse_id c s)
  then show ?case using sys_step.Refuse[of "p_sys s"] by (simp add: r_into_rtranclp)
next
  case (Handle_client s c m ms E mx')
  show ?case using sys_step.Loop[OF Handle_client(3)] by (simp add: r_into_rtranclp)
next
  case (Handle_bus s E route m mx')
  show ?case using sys_step.Loop[OF Handle_bus(2)] by (simp add: r_into_rtranclp)
next
  case (Handle_tick s E mx')
  show ?case using sys_step.Loop[OF Handle_tick(2)] by (simp add: r_into_rtranclp)
next
  case (Unregister s c info owned rules mx')
  show ?case using sys_step.Disconnect[OF Unregister(3,4)] by (simp add: r_into_rtranclp)
next
  case (Clean_section s ts1 t ts2 t' mx')
  show ?case using sys_step.Clean[OF Clean_section(1,3)] by (simp add: r_into_rtranclp)
qed simp_all

lemma pipe_run_refines: "pipe_run In Out as s s' \<Longrightarrow> sys_step\<^sup>*\<^sup>* (p_sys s) (p_sys s')"
  by (induction rule: pipe_run.induct) (auto dest: pipe_step_refines)

lemma reachable_steps: "sys_step\<^sup>*\<^sup>* s s' \<Longrightarrow> reachable s \<Longrightarrow> reachable s'"
  by (induction rule: rtranclp_induct) (auto intro: reachable.Step)

lemma pipe_reachable_refines: "pipe_reachable In Out s \<Longrightarrow> reachable (p_sys s)"
  by (auto simp: pipe_reachable_def pipes_init_def dest!: pipe_run_refines intro: reachable_steps reachable.Start)

section \<open>A clean-up with an idle loop\<close>

lemma pipe_cleanup:
  "p_loop s = [] \<Longrightarrow> sys_tasks (p_sys s) = ts1 @ t # ts2 \<Longrightarrow>
     \<exists>as. pipe_run In Out as s (s\<lparr>p_sys := (p_sys s)\<lparr>sys_mux := run_cleanup t (p_mux s), sys_tasks := ts1 @ ts2\<rparr>\<rparr>)"
proof (induction t "p_mux s" arbitrary: s rule: run_cleanup.induct)
  case (1 t)
  obtain t' mx' where step: "cleanup_step t (p_mux s) = (t', mx')" by fastforce
  let ?s = "s\<lparr>p_sys := (p_sys s)\<lparr>sys_mux := mx', sys_tasks := ts1 @ (case t' of Some x \<Rightarrow> [x] | None \<Rightarrow> []) @ ts2\<rparr>\<rparr>"
  have first: "pipe_step In Out Clean_section s ?s" using 1(2) by (intro pipe_step.Clean_section[OF 1(3) _ step]) simp
  show ?case
  proof (cases t')
    case None
    with first show ?thesis
      by (auto intro!: exI[of _ "[Clean_section]"] pipe_run.Cons[OF _ pipe_run.Nil] simp: run_cleanup.simps[of t] step)
  next
    case (Some x)
    obtain as where "pipe_run In Out as ?s (?s\<lparr>p_sys := (p_sys ?s)\<lparr>sys_mux := run_cleanup x (p_mux ?s), sys_tasks := ts1 @ ts2\<rparr>\<rparr>)"
      using 1(1)[of t' ?s x] 1(2) by (auto simp: step Some)
    with pipe_run.Cons[OF first] show ?thesis
      by (intro exI[of _ "Clean_section # as"]) (simp add: run_cleanup.simps[of t] step Some)
  qed
qed

lemma pipe_disconnect:
  assumes "p_loop s = []" "p_task s c = Ended" "hm_get (mx_clients (p_mux s)) c = Some info"
  shows "\<exists>as. pipe_run In Out as s (s\<lparr>p_sys := (p_sys s)\<lparr>sys_mux := disconnect_client c (ci_unique_name info) (p_mux s)\<rparr>\<rparr>)"
proof -
  obtain owned rules mx1 where un: "unregister_client c (p_mux s) = ((owned, rules), mx1)" by (metis prod.exhaust)
  let ?s = "s\<lparr>p_sys := (p_sys s)\<lparr>sys_mux := mx1, sys_tasks := ReleaseRules c (ci_unique_name info) rules owned # sys_tasks (p_sys s)\<rparr>\<rparr>"
  have "pipe_step In Out (Unregister c) s ?s" by (rule pipe_step.Unregister[OF assms un])
  moreover obtain as where "pipe_run In Out as ?s (?s\<lparr>p_sys := (p_sys ?s)\<lparr>sys_mux := run_cleanup (ReleaseRules c (ci_unique_name info) rules owned) (p_mux ?s),
      sys_tasks := [] @ sys_tasks (p_sys s)\<rparr>\<rparr>)"
    using pipe_cleanup[of ?s "[]" _ _ In Out] assms(1) by auto
  ultimately show ?thesis
    using run_cleanup_disconnect[OF un] by (intro exI[of _ "Unregister c # as"]) (auto intro: pipe_run.Cons)
qed

section \<open>A rule that nobody will ever release\<close>

text \<open>
  A reference that no client and no clean-up accounts for stays for ever: it is kept like the debt
  of a clean-up that never runs.
\<close>

definition with_debt :: "string \<Rightarrow> system \<Rightarrow> system" where
  "with_debt rule s = s\<lparr>sys_tasks := sys_tasks s @ [debt rule]\<rparr>"

lemma with_debt_step: "sys_step s s' \<Longrightarrow> sys_step (with_debt rule s) (with_debt rule s')"
proof (induction rule: sys_step.induct)
  case (Connect s creds)
  then show ?case using sys_step.Connect[of "with_debt rule s" creds] by (cases s) (simp add: with_debt_def)
next
  case (Refuse s)
  then show ?case using sys_step.Refuse[of "with_debt rule s"] by (cases s) (simp add: with_debt_def)
next
  case (Loop E ev s mx')
  then show ?case using sys_step.Loop[of E ev "with_debt rule s" mx'] by (cases s) (simp add: with_debt_def)
next
  case (Disconnect s c info owned rules mx')
  then show ?case using sys_step.Disconnect[of "with_debt rule s" c info owned rules mx'] by (cases s) (simp add: with_debt_def)
next
  case (Clean s ts1 t ts2 t' mx')
  then show ?case
    using sys_step.Clean[of "with_debt rule s" ts1 t "ts2 @ [debt rule]" t' mx'] by (cases s) (simp add: with_debt_def)
qed

lemma debt_stays:
  assumes "sys_step\<^sup>*\<^sup>* s s'" and "mux_wf (sys_mux s)" and "sub_inv (sys_mux s) (sys_tasks (with_debt rule s))"
  shows "mux_wf (sys_mux s') \<and> sub_inv (sys_mux s') (sys_tasks (with_debt rule s'))"
  using assms
proof (induction rule: rtranclp_induct)
  case (step s1 s2)
  have same: "sys_mux (with_debt rule x) = sys_mux x" for x by (simp add: with_debt_def)
  show ?case
    using sub_inv_sys_step[OF with_debt_step[OF step(2), of rule]] mux_wf_sys_step[OF step(2)] step by (simp add: same)
qed simp

lemma debt_subscribed: "sub_inv mx (sys_tasks (with_debt rule s)) \<Longrightarrow> removes mx r rule < adds mx r rule"
proof -
  assume inv: "sub_inv mx (sys_tasks (with_debt rule s))"
  then have "card (holders mx rule) + owed_all (sys_tasks (with_debt rule s)) rule \<le> rule_ref mx r rule"
    by (simp add: sub_inv_def refs_cover_def)
  then have "0 < rule_ref mx r rule" by (simp add: with_debt_def credit_def)
  then have "adds mx r rule = removes mx r rule + base rule + 1" using inv by (simp add: sub_inv_def calls_match_refs_def)
  then show ?thesis by simp
qed

lemma late_add_match_counts:
  assumes "de_string (e_zbus E) msg = Inr str" "parse str = Inr rule" "hm_get (mx_clients mx) c = None" "sub_inv mx ts"
  shows "sub_inv (handle_add_match E c msg mx) (ts @ [debt str])"
proof -
  have "handle_add_match E c msg mx = subscribe_on Host ''host'' str (subscribe_on Container ''container'' str mx)"
    using assms(1-3) by (simp add: handle_add_match_def upd_client_def send_reply_to_client_def Let_def)
  moreover have "refs_cover (subscribe_on Host ''host'' str (subscribe_on Container ''container'' str mx)) (ts @ [debt str])"
    using assms(4) by (auto simp: sub_inv_def refs_cover_def subscribe_both_refs credit_def)
  ultimately show ?thesis using assms(4) by (simp add: sub_inv_def calls_match_refs_both(1))
qed

section \<open>The stages of RequestName\<close>

text \<open>
  The handler of \<open>RequestName\<close> waits for a lock or for the bus between three stages: it looks up the
  unique name of the client, it enters the client into the queue of the name, and it settles the
  outcome with the bus. Clean-ups may run in between.
\<close>

definition request_lookup :: "env \<Rightarrow> client_id \<Rightarrow> message \<Rightarrow> multiplexer \<Rightarrow> multiplexer + string \<times> u32 \<times> string" where
  "request_lookup E c msg mx =
     (case de_string_u32 (e_zbus E) msg of
        Inl e \<Rightarrow> Inl (invalid_args E c msg e mx)
      | Inr (name, flags) \<Rightarrow>
          (case hm_get (mx_clients mx) c of
             Some info \<Rightarrow> Inr (name, flags, ci_unique_name info)
           | None \<Rightarrow> Inl mx))"

definition request_enqueue ::
    "client_id \<Rightarrow> string \<Rightarrow> u32 \<Rightarrow> string \<Rightarrow> multiplexer \<Rightarrow> request_name_result \<times> multiplexer" where
  "request_enqueue c name flags unique_name mx =
     (let (queue_result, q) = request_name name c unique_name flags (mx_name_queue mx)
      in (queue_result, mx\<lparr>mx_name_queue := q\<rparr>))"

definition request_settle ::
    "env \<Rightarrow> client_id \<Rightarrow> message \<Rightarrow> string \<Rightarrow> u32 \<Rightarrow> string \<Rightarrow> request_name_result \<Rightarrow> multiplexer \<Rightarrow> multiplexer" where
  "request_settle E c msg name flags unique_name queue_result mx =
     (if rn_forward_to_bus queue_result then
        (let mx1 = emit [CallBus Container (CallRequestName name flags)] mx in
         case e_call E Container (CallRequestName name flags) of
           Inr reply \<Rightarrow>
             (let bus_reply_code = (case de_u32 (e_zbus E) reply of Inr code \<Rightarrow> code | Inl _ \<Rightarrow> 0);
                  mx2 = (if bus_reply_code = PRIMARY_OWNER \<or> bus_reply_code = ALREADY_OWNER
                         then upd_client c (own name) (upd_table (on_container_name_change name [] unique_name) mx1)
                         else mx1)
              in send_reply_to_client E c msg (U32Body (rn_reply_code queue_result)) mx2)
         | Inl e \<Rightarrow>
             send_error_to_client E c msg FAILED (''RequestName failed: '' @ zbus_text e)
               (mx1\<lparr>mx_name_queue := snd (release_name name c (mx_name_queue mx1))\<rparr>))
      else send_reply_to_client E c msg (U32Body (rn_reply_code queue_result)) mx)"

lemma request_stages:
  "handle_request_name E c msg mx =
     (case request_lookup E c msg mx of
        Inl mx' \<Rightarrow> mx'
      | Inr (name, flags, u) \<Rightarrow>
          (case request_enqueue c name flags u mx of (r, mx1) \<Rightarrow> request_settle E c msg name flags u r mx1))"
  by (auto simp: handle_request_name_def request_lookup_def request_enqueue_def request_settle_def case_prod_unfold Let_def
      split: sum.splits option.splits)

lemma request_settle_queue:
  assumes "e_call E Container (CallRequestName name flags) = Inr reply"
  shows "mx_name_queue (request_settle E c msg name flags u r mx) = mx_name_queue mx"
    "connected (request_settle E c msg name flags u r mx) d = connected mx d"
  using assms by (auto simp: request_settle_def send_emit connected_iff Let_def)

section \<open>Properties\<close>

text \<open>
  The system with channels implements the system without: whatever the tasks, the channels and the
  loop do, the multiplexer and its clean-ups have taken steps of the system in which a message is
  handled as soon as it is sent. Every state that the program reaches is well formed, the rules of
  its connected clients are subscribed on both buses, and the clients in its name queues are
  connected or still being cleaned up.
\<close>

lemma channels_refine_system:
  assumes "pipe_reachable In Out s"
  shows "(\<forall>as s'. pipe_run In Out as s s' \<longrightarrow> sys_step\<^sup>*\<^sup>* (p_sys s) (p_sys s')) \<and> reachable (p_sys s) \<and> mux_wf (p_mux s)
     \<and> sub_inv (p_mux s) (sys_tasks (p_sys s)) \<and> own_inv (p_mux s) (sys_tasks (p_sys s))"
  using pipe_run_refines pipe_reachable_refines[OF assms] reachable_mux_wf reachable_sub_inv reachable_own_inv by blast

lemma channels_refine_system_witness:
  "\<exists>s. pipe_reachable list_channel list_channel s \<and> wedged list_channel list_channel 1 s \<and> reachable (p_sys s) \<and> mux_wf (p_mux s)"
  using wedged_reachable[OF list_channel_laws list_channel_laws] channels_refine_system by blast


lemma late_add_match_run:
  obtains s s' where "pipe_reachable list_channel list_channel s" "mx_clients (p_mux s) = []" "sys_tasks (p_sys s) = []" "snd (p_inbound s) = [(1, daemon_call ''AddMatch'')]"
    "pipe_step list_channel list_channel (Handle_client demo_env) s s'" "p_sys s' = (p_sys s)\<lparr>sys_mux := handle_add_match demo_env 1 (daemon_call ''AddMatch'') (p_mux s)\<rparr>"
    "snd (p_inbound s') = []"
proof -
  let ?add = "daemon_call ''AddMatch''"
  from register_run[OF reachable_start[of list_channel list_channel], of demo_creds]
  obtain s1 where s1: "pipe_reachable list_channel list_channel s1" "p_loop s1 = []" "p_task s1 1 = Selecting" "p_inbound s1 = (INBOUND_CAPACITY, [])" "p_mux s1 = connected_mux"
    "sys_tasks (p_sys s1) = []"
    by (auto simp: pipes_init_def sys_init_def connected_mux_def list_channel_def)
  let ?s2 = "s1\<lparr>p_task := (p_task s1)(1 := Handing ?add), p_read := (p_read s1)(1 := p_read s1 1 @ [?add])\<rparr>"
  let ?s3 = "?s2\<lparr>p_task := (p_task ?s2)(1 := Selecting), p_inbound := (INBOUND_CAPACITY, [(1, ?add)])\<rparr>"
  let ?s4 = "?s3\<lparr>p_task := (p_task ?s3)(1 := Ended)\<rparr>"
  have "pipe_step list_channel list_channel (Hand 1) ?s2 ?s3" by (rule pipe_step.Hand) (simp_all add: s1 list_channel_def INBOUND_CAPACITY_def)
  moreover have "pipe_step list_channel list_channel (Stop 1) ?s3 ?s4" by (rule pipe_step.Stop) simp
  ultimately have "pipe_run list_channel list_channel [Read 1 ?add, Hand 1, Stop 1] s1 ?s4"
    by (intro pipe_run.Cons[OF pipe_step.Read[OF s1(3)]] pipe_run.Cons[OF _ pipe_run.Cons[OF _ pipe_run.Nil]])
  then have r4: "pipe_reachable list_channel list_channel ?s4" by (rule pipe_reachable_run[OF s1(1)])
  have "hm_get (mx_clients (p_mux ?s4)) 1 = Some \<lparr>ci_unique_name = mux_name 1, ci_owned_names = [],
     ci_match_rules = client_match_rules_new, ci_credentials = demo_creds\<rparr>" using s1(5) connected_client by simp
  from pipe_disconnect[OF _ _ this] obtain as where
    "pipe_run list_channel list_channel as ?s4 (?s4\<lparr>p_sys := (p_sys ?s4)\<lparr>sys_mux := disconnect_client 1 (mux_name 1) (p_mux ?s4)\<rparr>\<rparr>)" (is "pipe_run list_channel list_channel _ _ ?s5")
    using s1(2) by auto
  with r4 have r5: "pipe_reachable list_channel list_channel ?s5" by (rule pipe_reachable_run)
  have clients: "mx_clients (disconnect_client 1 (mux_name 1) connected_mux) = []"
    by (simp add: disconnect_client_def unregister_client_def connected_client leave_queues_def release_rules_def
        drop_portal_requests_def remove_client_def client_match_rules_new_def rule_strings_def case_prod_unfold Let_def)
       (simp add: connected_mux_def register_client_def demo_mux_def hm_remove_def hm_insert_def name_queue_manager_new_def)
  have handled: "run_step demo_env (ClientMessage 1 ?add) (p_mux ?s5) = Inr (handle_add_match demo_env 1 ?add (p_mux ?s5))"
    by (simp add: demo_add_match)
  have loop: "p_loop ?s5 = []" and recv: "mpsc_recv list_channel (p_inbound ?s5) = Some ((1, ?add), (INBOUND_CAPACITY, []))"
    using s1 by (simp_all add: list_channel_def)
  from that[OF r5 _ _ _ pipe_step.Handle_client[OF loop recv handled]] show thesis using clients s1 by simp
qed




end
