(* ===== verification/Mux_Stages.thy ===== *)
theory Mux_Stages
  imports Mux_Races
begin

text \<open>
  The handlers that change names and match rules, in the stages between their awaits. A stage is a
  section under one lock, or a call to a bus; between two stages of the running handler clients
  come and go and clean-ups run their own sections. Without interruption the stages are the handler
  of \<open>Multiplexer\<close>; with interruption the invariants of the subscriptions hold up to the reference
  that a stage has yet to count.
\<close>

section \<open>Stages\<close>

datatype stage =
    Subscribe client_id message string
  | Unsubscribe client_id message string
  | Enqueue client_id message string u32 string
  | AskBus client_id message string u32 string u32
  | Record client_id message string string u32
  | Revert client_id message string string
  | Transfer client_id message string "client_id \<times> string" u32
  | FindName client_id message string u32
  | ReleaseBus client_id message string "string option" u32
  | DropRoute client_id message string "string option" u32
  | Disown client_id message string u32
  | Reply client_id message body_value
  | Fail client_id message string string

fun stage_step :: "env \<Rightarrow> stage \<Rightarrow> multiplexer \<Rightarrow> stage option \<times> multiplexer" where
  "stage_step E (Subscribe c msg str) mx =
     (Some (Reply c msg UnitBody), subscribe_on Host ''host'' str (subscribe_on Container ''container'' str mx))"
| "stage_step E (Unsubscribe c msg str) mx =
     (Some (Reply c msg UnitBody), unsubscribe_on Host ''host'' str (unsubscribe_on Container ''container'' str mx))"
| "stage_step E (Enqueue c msg name flags u) mx =
     (let (r, mx1) = request_enqueue c name flags u mx
      in (Some (if rn_forward_to_bus r then AskBus c msg name flags u (rn_reply_code r)
                else Reply c msg (U32Body (rn_reply_code r))), mx1))"
| "stage_step E (AskBus c msg name flags u code) mx =
     (let mx1 = emit [CallBus Container (CallRequestName name flags)] mx
      in case e_call E Container (CallRequestName name flags) of
           Inr reply \<Rightarrow>
             (let bus_reply_code = (case de_u32 (e_zbus E) reply of Inr code \<Rightarrow> code | Inl _ \<Rightarrow> 0)
              in (Some (if bus_reply_code = PRIMARY_OWNER \<or> bus_reply_code = ALREADY_OWNER then Record c msg name u code
                        else Reply c msg (U32Body code)), mx1))
         | Inl e \<Rightarrow> (Some (Revert c msg name (zbus_text e)), mx1))"
| "stage_step E (Record c msg name u code) mx =
     (Some (Reply c msg (U32Body code)), upd_client c (own name) (upd_table (on_container_name_change name [] u) mx))"
| "stage_step E (Revert c msg name e) mx =
     (None, send_error_to_client E c msg FAILED (''RequestName failed: '' @ e)
              (mx\<lparr>mx_name_queue := snd (release_name name c (mx_name_queue mx))\<rparr>))"
| "stage_step E (Transfer c msg name (d, v) code) mx =
     (Some (Reply c msg (U32Body code)),
      upd_client d (own name) (upd_client c (disown name) (upd_table (on_container_name_change name [] v) mx)))"
| "stage_step E (FindName c msg name code) mx =
     (Some (ReleaseBus c msg name (map_option ci_unique_name (hm_get (mx_clients mx) c)) code), mx)"
| "stage_step E (ReleaseBus c msg name u code) mx =
     (let mx1 = emit [CallBus Container (CallReleaseName name)] mx
      in case e_call E Container (CallReleaseName name) of
           Inr _ \<Rightarrow> (Some (DropRoute c msg name u code), mx1)
         | Inl _ \<Rightarrow> (Some (Reply c msg (U32Body code)), mx1))"
| "stage_step E (DropRoute c msg name u code) mx =
     (Some (Disown c msg name code), case u of Some v \<Rightarrow> upd_table (on_container_name_change name v []) mx | None \<Rightarrow> mx)"
| "stage_step E (Disown c msg name code) mx = (Some (Reply c msg (U32Body code)), upd_client c (disown name) mx)"
| "stage_step E (Reply c msg body) mx = (None, send_reply_to_client E c msg body mx)"
| "stage_step E (Fail c msg name text) mx = (None, send_error_to_client E c msg name text mx)"

text \<open>The first section of each of these handlers.\<close>

definition add_match_start :: "env \<Rightarrow> client_id \<Rightarrow> message \<Rightarrow> multiplexer \<Rightarrow> stage option \<times> multiplexer" where
  "add_match_start E c msg mx =
     (case de_string (e_zbus E) msg of
        Inl e \<Rightarrow> (None, invalid_args E c msg e mx)
      | Inr str \<Rightarrow>
     (case parse str of
        Inl e \<Rightarrow> (None, send_error_to_client E c msg MATCH_RULE_INVALID (''Invalid match rule: '' @ display_match_rule_error e) mx)
      | Inr rule \<Rightarrow>
          (Some (Subscribe c msg str), upd_client c (\<lambda>info. info\<lparr>ci_match_rules := rules_add rule (ci_match_rules info)\<rparr>) mx)))"

definition remove_match_start :: "env \<Rightarrow> client_id \<Rightarrow> message \<Rightarrow> multiplexer \<Rightarrow> stage option \<times> multiplexer" where
  "remove_match_start E c msg mx =
     (case de_string (e_zbus E) msg of
        Inl e \<Rightarrow> (None, invalid_args E c msg e mx)
      | Inr str \<Rightarrow>
          (let (removed, mx1) =
                 (case hm_get (mx_clients mx) c of
                    Some info \<Rightarrow>
                      (let (removed, rules) = rules_remove str (ci_match_rules info)
                       in (removed, mx\<lparr>mx_clients := hm_insert c (info\<lparr>ci_match_rules := rules\<rparr>) (mx_clients mx)\<rparr>))
                  | None \<Rightarrow> (False, mx))
           in (Some (if removed then Unsubscribe c msg str
                     else Fail c msg MATCH_RULE_NOT_FOUND ''Match rule not found''), mx1)))"

definition request_start :: "env \<Rightarrow> client_id \<Rightarrow> message \<Rightarrow> multiplexer \<Rightarrow> stage option \<times> multiplexer" where
  "request_start E c msg mx =
     (case request_lookup E c msg mx of
        Inl mx1 \<Rightarrow> (None, mx1)
      | Inr (name, flags, u) \<Rightarrow> (Some (Enqueue c msg name flags u), mx))"

definition release_start :: "env \<Rightarrow> client_id \<Rightarrow> message \<Rightarrow> multiplexer \<Rightarrow> stage option \<times> multiplexer" where
  "release_start E c msg mx =
     (case de_string (e_zbus E) msg of
        Inl e \<Rightarrow> (None, invalid_args E c msg e mx)
      | Inr name \<Rightarrow>
          (let (r, q) = release_name name c (mx_name_queue mx);
               code = rl_reply_code r
           in (Some (case rl_new_owner r of
                       Some owner \<Rightarrow> Transfer c msg name owner code
                     | None \<Rightarrow> if rl_forward_to_bus r then FindName c msg name code else Disown c msg name code),
               mx\<lparr>mx_name_queue := q\<rparr>)))"

definition start_handler :: "env \<Rightarrow> client_id \<Rightarrow> message \<Rightarrow> multiplexer \<Rightarrow> stage option \<times> multiplexer" where
  "start_handler E c msg mx =
     (if is_dbus_daemon_call msg \<and> is_method_call msg then
        (let member = (case member_str msg of Some s \<Rightarrow> s | None \<Rightarrow> []) in
         if member = ''RequestName'' then request_start E c msg mx
         else if member = ''ReleaseName'' then release_start E c msg mx
         else if member = ''AddMatch'' then add_match_start E c msg mx
         else if member = ''RemoveMatch'' then remove_match_start E c msg mx
         else (None, handle_client_message E c msg mx))
      else (None, handle_client_message E c msg mx))"

section \<open>Stages without interruption\<close>

fun stage_rank :: "stage \<Rightarrow> nat" where
  "stage_rank (Enqueue _ _ _ _ _) = 3"
| "stage_rank (AskBus _ _ _ _ _ _) = 2"
| "stage_rank (FindName _ _ _ _) = 4"
| "stage_rank (ReleaseBus _ _ _ _ _) = 3"
| "stage_rank (DropRoute _ _ _ _ _) = 2"
| "stage_rank (Reply _ _ _) = 0"
| "stage_rank (Fail _ _ _ _) = 0"
| "stage_rank (Revert _ _ _ _) = 0"
| "stage_rank _ = 1"

lemma stage_rank_decreases: "stage_step E st mx = (Some st', mx') \<Longrightarrow> stage_rank st' < stage_rank st"
  by (cases "(E, st, mx)" rule: stage_step.cases) (auto simp: case_prod_unfold Let_def split: sum.splits if_splits)

function run_stages :: "env \<Rightarrow> stage \<Rightarrow> multiplexer \<Rightarrow> multiplexer" where
  "run_stages E st mx = (case stage_step E st mx of (None, mx') \<Rightarrow> mx' | (Some st', mx') \<Rightarrow> run_stages E st' mx')"
  by pat_completeness auto
termination
  by (relation "measure (\<lambda>(E, st, mx). stage_rank st)") (auto dest!: stage_rank_decreases[OF sym])

declare run_stages.simps [simp del]

definition finish :: "env \<Rightarrow> stage option \<times> multiplexer \<Rightarrow> multiplexer" where
  "finish E p = (case p of (None, mx) \<Rightarrow> mx | (Some st, mx) \<Rightarrow> run_stages E st mx)"

lemma finish_simps [simp]: "finish E (None, mx) = mx" "finish E (Some st, mx) = finish E (stage_step E st mx)"
  by (simp_all add: finish_def run_stages.simps[of E st] split: prod.splits option.splits)

lemma add_match_stages: "finish E (add_match_start E c msg mx) = handle_add_match E c msg mx"
  by (auto simp: add_match_start_def handle_add_match_def Let_def split: sum.splits)

lemma remove_match_stages: "finish E (remove_match_start E c msg mx) = handle_remove_match E c msg mx"
  by (auto simp: remove_match_start_def handle_remove_match_def case_prod_unfold Let_def split: sum.splits option.splits)

lemma request_name_stages: "finish E (request_start E c msg mx) = handle_request_name E c msg mx"
  by (auto simp: request_start_def request_stages request_settle_def case_prod_unfold Let_def split: sum.splits)

lemma release_name_stages: "finish E (release_start E c msg mx) = handle_release_name E c msg mx"
  by (auto simp: release_start_def handle_release_name_def case_prod_unfold Let_def split: sum.splits option.splits)

lemma stages_of_handler: "finish E (start_handler E c msg mx) = handle_client_message E c msg mx"
  by (simp add: start_handler_def add_match_stages remove_match_stages request_name_stages release_name_stages
      handle_client_message_def handle_dbus_method_def Let_def)

section \<open>The system in stages\<close>

text \<open>
  What happens beside the main loop: \<open>sys_step\<close> without the loop. It may happen between any two stages of the
  handler that the loop is running; the loop takes its next event only when this handler is done. An
  \<open>AddMatch\<close> or \<open>RemoveMatch\<close> keeps the lock of the counters until its reply is sent; the step relation lets
  clean-ups run before the reply all the same and so allows more than the code does.
\<close>

inductive side_step :: "system \<Rightarrow> system \<Rightarrow> bool" where
  Connect: "unat (sys_next s) + 1 < 2 ^ 64 \<Longrightarrow>
     side_step s (s\<lparr>sys_mux := register_client (sys_next s) (mux_name (sys_next s)) creds (sys_mux s),
                    sys_next := sys_next s + 1\<rparr>)"
| Refuse: "unat (sys_next s) + 1 < 2 ^ 64 \<Longrightarrow> side_step s (s\<lparr>sys_next := sys_next s + 1\<rparr>)"
| Disconnect: "hm_get (mx_clients (sys_mux s)) c = Some info \<Longrightarrow>
     unregister_client c (sys_mux s) = ((owned, rules), mx') \<Longrightarrow>
     side_step s (s\<lparr>sys_mux := mx', sys_tasks := ReleaseRules c (ci_unique_name info) rules owned # sys_tasks s\<rparr>)"
| Clean: "sys_tasks s = ts1 @ t # ts2 \<Longrightarrow> cleanup_step t (sys_mux s) = (t', mx') \<Longrightarrow>
     side_step s (s\<lparr>sys_mux := mx', sys_tasks := ts1 @ (case t' of Some x \<Rightarrow> [x] | None \<Rightarrow> []) @ ts2\<rparr>)"

lemma sys_step_iff:
  "sys_step s s' \<longleftrightarrow> side_step s s' \<or> (\<exists>E ev mx'. run_step E ev (sys_mux s) = Inr mx' \<and> s' = s\<lparr>sys_mux := mx'\<rparr>)"
  by (auto elim!: sys_step.cases side_step.cases intro: sys_step.intros side_step.intros)

record staged =
  st_sys :: system
  st_stage :: "stage option"

abbreviation st_mux :: "staged \<Rightarrow> multiplexer" where
  "st_mux s \<equiv> sys_mux (st_sys s)"

definition in_stage :: "stage option \<Rightarrow> multiplexer \<Rightarrow> staged \<Rightarrow> staged" where
  "in_stage st mx s = s\<lparr>st_sys := (st_sys s)\<lparr>sys_mux := mx\<rparr>, st_stage := st\<rparr>"

definition at_rest :: "system \<Rightarrow> staged" where
  "at_rest s = \<lparr>st_sys = s, st_stage = None\<rparr>"

fun from_client :: "event \<Rightarrow> bool" where
  "from_client (ClientMessage c msg) = True"
| "from_client _ = False"

inductive staged_step :: "staged \<Rightarrow> staged \<Rightarrow> bool" where
  Take: "st_stage s = None \<Longrightarrow> start_handler E c msg (st_mux s) = (st, mx') \<Longrightarrow> staged_step s (in_stage st mx' s)"
| Proceed: "st_stage s = Some st \<Longrightarrow> stage_step E st (st_mux s) = (st', mx') \<Longrightarrow> staged_step s (in_stage st' mx' s)"
| Other: "st_stage s = None \<Longrightarrow> \<not> from_client ev \<Longrightarrow> run_step E ev (st_mux s) = Inr mx' \<Longrightarrow> staged_step s (in_stage None mx' s)"
| Side: "side_step (st_sys s) sys' \<Longrightarrow> staged_step s (s\<lparr>st_sys := sys'\<rparr>)"

inductive staged_reachable :: "staged \<Rightarrow> bool" where
  Start: "multiplexer_new E build session guid cbus hbus = Inr mx \<Longrightarrow> staged_reachable (at_rest (sys_init mx))"
| Step: "staged_reachable s \<Longrightarrow> staged_step s s' \<Longrightarrow> staged_reachable s'"

lemma staged_reachable_steps: "staged_step\<^sup>*\<^sup>* s s' \<Longrightarrow> staged_reachable s \<Longrightarrow> staged_reachable s'"
  by (induction rule: rtranclp_induct) (auto intro: staged_reachable.Step)

lemma in_stage_simps [simp]:
  "st_stage (in_stage st mx s) = st" "st_mux (in_stage st mx s) = mx" "sys_tasks (st_sys (in_stage st mx s)) = sys_tasks (st_sys s)"
  "in_stage st mx (in_stage st' mx' s) = in_stage st mx s"
  "st_sys (at_rest sys) = sys" "st_stage (at_rest sys) = None" "in_stage None mx (at_rest sys) = at_rest (sys\<lparr>sys_mux := mx\<rparr>)"
  "(at_rest sys)\<lparr>st_sys := sys'\<rparr> = at_rest sys'"
  by (simp_all add: in_stage_def at_rest_def)

lemma stages_run:
  "st_stage s = Some st \<Longrightarrow> staged_step\<^sup>*\<^sup>* s (in_stage None (run_stages E st (st_mux s)) s)"
proof (induction E st "st_mux s" arbitrary: s rule: run_stages.induct)
  case (1 E st)
  obtain st' mx' where step: "stage_step E st (st_mux s) = (st', mx')" by fastforce
  have first: "staged_step s (in_stage st' mx' s)" by (rule staged_step.Proceed[OF 1(2) step])
  show ?case
  proof (cases st')
    case None
    with first show ?thesis by (simp add: run_stages.simps[of E st] step r_into_rtranclp)
  next
    case (Some x)
    have "staged_step\<^sup>*\<^sup>* (in_stage st' mx' s) (in_stage None (run_stages E x mx') s)"
      using 1(1)[of st' "in_stage st' mx' s" x] by (simp add: step Some)
    with first show ?thesis by (simp add: run_stages.simps[of E st] step Some converse_rtranclp_into_rtranclp)
  qed
qed

lemma handler_runs:
  assumes "st_stage s = None"
  shows "staged_step\<^sup>*\<^sup>* s (in_stage None (handle_client_message E c msg (st_mux s)) s)"
proof -
  obtain st mx' where start: "start_handler E c msg (st_mux s) = (st, mx')" by fastforce
  have first: "staged_step s (in_stage st mx' s)" by (rule staged_step.Take[OF assms start])
  have "staged_step\<^sup>*\<^sup>* (in_stage st mx' s) (in_stage None (finish E (st, mx')) s)"
    using stages_run[of "in_stage st mx' s" _ E] by (cases st) (simp_all add: finish_def)
  with first show ?thesis
    using stages_of_handler[of E c msg "st_mux s"] by (simp add: start converse_rtranclp_into_rtranclp)
qed

lemma staged_simulates: "sys_step s s' \<Longrightarrow> staged_step\<^sup>*\<^sup>* (at_rest s) (at_rest s')"
proof -
  assume "sys_step s s'"
  then consider "side_step s s'" | E ev mx' where "run_step E ev (sys_mux s) = Inr mx'" "s' = s\<lparr>sys_mux := mx'\<rparr>"
    unfolding sys_step_iff by blast
  then show ?thesis
  proof cases
    case 1
    then show ?thesis using staged_step.Side[of "at_rest s" s'] by (simp add: r_into_rtranclp)
  next
    case 2
    then show ?thesis
      using handler_runs[of "at_rest s"] staged_step.Other[of "at_rest s" ev E mx'] by (cases ev) (auto simp: r_into_rtranclp)
  qed
qed

lemma staged_reachable_at_rest: "reachable s \<Longrightarrow> staged_reachable (at_rest s)"
  by (induction rule: reachable.induct) (auto intro: staged_reachable.Start staged_reachable_steps[OF staged_simulates])

section \<open>The invariant between stages\<close>

fun uncounted :: "stage option \<Rightarrow> string \<Rightarrow> nat" where
  "uncounted (Some (Subscribe c msg str)) = credit str"
| "uncounted _ = (\<lambda>_. 0)"

fun unreleased :: "stage option \<Rightarrow> cleanup list" where
  "unreleased (Some (Unsubscribe c msg str)) = [debt str]"
| "unreleased _ = []"

definition stage_inv :: "stage option \<Rightarrow> multiplexer \<Rightarrow> cleanup list \<Rightarrow> bool" where
  "stage_inv st mx ts \<longleftrightarrow> mux_wf mx \<and> sub_inv_with (uncounted st) mx (unreleased st @ ts)"

lemma stage_inv_settled:
  "uncounted st = (\<lambda>_. 0) \<Longrightarrow> unreleased st = [] \<Longrightarrow> stage_inv st mx ts \<longleftrightarrow> mux_wf mx \<and> sub_inv mx ts"
  by (simp add: stage_inv_def sub_inv_with_none)

lemma stage_step_settles:
  "stage_step E st mx = (st', mx') \<Longrightarrow> uncounted st' = (\<lambda>_. 0) \<and> unreleased st' = []"
  by (cases "(E, st, mx)" rule: stage_step.cases) (auto simp: case_prod_unfold Let_def split: sum.splits if_splits)

lemma credit_not_none [simp]: "credit str \<noteq> (\<lambda>_. 0)"
  by (auto simp: credit_def fun_eq_iff)

lemma stage_step_names_only:
  assumes "uncounted (Some st) = (\<lambda>_. 0)" and "unreleased (Some st) = []"
  shows "names_only mx (snd (stage_step E st mx))"
  using assms
  by (cases "(E, st, mx)" rule: stage_step.cases)
     (auto simp: request_enqueue_def case_prod_unfold Let_def
       intro!: names_only_send names_only_steps intro: manager_wf_ops split: sum.splits option.splits)

lemma stage_step_inv:
  assumes "stage_inv (Some st) mx ts" and "stage_step E st mx = (st', mx')"
  shows "stage_inv st' mx' ts"
proof -
  note settled = stage_inv_settled[of st' mx' ts] stage_step_settles[OF assms(2)]
  consider c msg str where "st = Subscribe c msg str" | c msg str where "st = Unsubscribe c msg str"
    | "uncounted (Some st) = (\<lambda>_. 0)" "unreleased (Some st) = []" by (cases st) auto
  then show ?thesis
  proof cases
    case 1
    then show ?thesis
      using assms settled by (auto simp: stage_inv_def intro!: mux_wf_subscribe sub_inv_count_rule)
  next
    case 2
    then have "sub_inv mx (debt str # ts)" using assms(1) by (simp add: stage_inv_def sub_inv_with_none)
    from sub_inv_release_rule[OF this] 2 show ?thesis
      using assms settled by (auto simp: stage_inv_def release_rule_def intro!: mux_wf_subscribe)
  next
    case 3
    then have "names_only mx mx'" using stage_step_names_only[of st mx E] assms(2) by simp
    then show ?thesis
      using assms(1) settled stage_inv_settled[OF 3] mux_wf_names_only sub_inv_names_only by blast
  qed
qed

lemma stage_inv_names_only:
  assumes "stage_inv None mx ts" and "names_only mx mx'" and "uncounted st = (\<lambda>_. 0)" and "unreleased st = []"
  shows "stage_inv st mx' ts"
  using assms stage_inv_settled[of st] stage_inv_settled[of None] mux_wf_names_only[OF assms(2)] sub_inv_names_only[OF assms(2)] by simp

lemma stage_inv_add_match:
  assumes "stage_inv None mx ts" and "add_match_start E c msg mx = (st, mx')"
  shows "stage_inv st mx' ts"
proof -
  have inv: "mux_wf mx" "sub_inv mx ts" using assms(1) by (simp_all add: stage_inv_settled)
  then have "mux_wf (upd_client c (\<lambda>i. i\<lparr>ci_match_rules := rules_add rule (ci_match_rules i)\<rparr>) mx)" for rule
    by (auto simp: mux_wf_def intro!: clients_wf_upd client_rules_wf_ops)
  then show ?thesis
    using assms inv
    by (auto simp: add_match_start_def stage_inv_def[of "Some _"] dest!: parse_wf
        intro!: sub_inv_hold_rule stage_inv_names_only[OF assms(1), of _ None] split: sum.splits)
qed

lemma stage_inv_remove_match:
  assumes "stage_inv None mx ts" and "remove_match_start E c msg mx = (st, mx')"
  shows "stage_inv st mx' ts"
proof -
  have inv: "mux_wf mx" "sub_inv mx ts" using assms(1) by (simp_all add: stage_inv_settled)
  have "mux_wf (mx\<lparr>mx_clients := hm_insert c (i\<lparr>ci_match_rules := snd (rules_remove str (ci_match_rules i))\<rparr>) (mx_clients mx)\<rparr>)"
    if "hm_get (mx_clients mx) c = Some i" for i str
    using inv(1) that by (auto simp: mux_wf_def intro!: clients_wf_insert client_rules_wf_ops dest: clients_wf_get)
  note dropped = this
  show ?thesis
  proof (cases "de_string (e_zbus E) msg")
    case (Inl e)
    then show ?thesis
      using assms(2) by (intro stage_inv_names_only[OF assms(1)]) (auto simp: remove_match_start_def)
  next
    case (Inr str)
    show ?thesis
    proof (cases "hm_get (mx_clients mx) c")
      case None
      then show ?thesis
        using assms inv Inr by (auto simp: remove_match_start_def stage_inv_def sub_inv_with_none)
    next
      case (Some i)
      then show ?thesis
        using assms(2) Inr dropped[OF Some] sub_inv_drop_rule[OF inv(2) Some, of str]
        by (auto simp: remove_match_start_def stage_inv_def sub_inv_with_none case_prod_unfold Let_def split: if_splits)
    qed
  qed
qed

lemma start_handler_cases:
  "start_handler E c msg mx \<in> {request_start E c msg mx, release_start E c msg mx, add_match_start E c msg mx,
     remove_match_start E c msg mx, (None, handle_client_message E c msg mx)}"
  by (simp add: start_handler_def Let_def)

lemma start_handler_inv:
  assumes "stage_inv None mx ts" and "start_handler E c msg mx = (st, mx')"
  shows "stage_inv st mx' ts"
proof -
  have "stage_inv None (handle_client_message E c msg mx) ts"
    using assms(1) by (simp add: stage_inv_settled mux_wf_client_message sub_inv_client_message)
  moreover have "stage_inv st mx' ts" if "request_start E c msg mx = (st, mx')"
    using that by (intro stage_inv_names_only[OF assms(1)])
      (auto simp: request_start_def request_lookup_def split: sum.splits option.splits)
  moreover have "stage_inv st mx' ts" if "release_start E c msg mx = (st, mx')"
    using that by (intro stage_inv_names_only[OF assms(1)])
      (auto simp: release_start_def case_prod_unfold Let_def intro!: names_only_queue intro: manager_wf_ops
        split: sum.splits option.splits if_splits)
  moreover have "(st, mx') \<in> {request_start E c msg mx, release_start E c msg mx, add_match_start E c msg mx,
      remove_match_start E c msg mx, (None, handle_client_message E c msg mx)}"
    unfolding assms(2)[symmetric] by (rule start_handler_cases)
  ultimately show ?thesis
    using stage_inv_add_match[OF assms(1)] stage_inv_remove_match[OF assms(1)] by (elim insertE emptyE) (metis prod.inject)+
qed

lemma side_step_inv:
  assumes "side_step s s'" and "stage_inv st (sys_mux s) (sys_tasks s)"
  shows "stage_inv st (sys_mux s') (sys_tasks s')"
proof -
  have wf: "mux_wf (sys_mux s')" using assms mux_wf_sys_step[of s s'] by (simp add: sys_step_iff stage_inv_def)
  have inv: "mux_wf (sys_mux s)" "sub_inv_with (uncounted st) (sys_mux s) (unreleased st @ sys_tasks s)"
    using assms(2) by (simp_all add: stage_inv_def)
  have "sub_inv_with (uncounted st) (sys_mux s') (unreleased st @ sys_tasks s')"
    using assms(1)
  proof (cases rule: side_step.cases)
    case (Connect creds)
    then show ?thesis using sub_inv_with_register[OF inv(2)] by simp
  next
    case (Disconnect c info owned rules mx')
    have "sub_inv_with (uncounted st) mx' (ReleaseRules c (ci_unique_name info) rules owned # unreleased st @ sys_tasks s)"
      by (rule sub_inv_with_unregister[OF inv(2,1) Disconnect(2,3)])
    then show ?thesis by (rule sub_inv_with_mono) (simp_all add: Disconnect(1))
  next
    case (Clean ts1 t ts2 t' mx')
    then show ?thesis using sub_inv_with_cleanup[of _ _ "unreleased st @ ts1" t ts2] inv(2) by simp
  qed (use inv in simp)
  with wf show ?thesis by (simp add: stage_inv_def)
qed

lemma staged_step_inv:
  assumes "staged_step s s'" and "stage_inv (st_stage s) (st_mux s) (sys_tasks (st_sys s))"
  shows "stage_inv (st_stage s') (st_mux s') (sys_tasks (st_sys s'))"
  using assms
proof (cases rule: staged_step.cases)
  case (Take E c msg st mx')
  then show ?thesis using assms(2) start_handler_inv by simp
next
  case (Proceed st E st' mx')
  then show ?thesis using assms(2) stage_step_inv by simp
next
  case (Other ev E mx')
  then show ?thesis using assms(2) mux_wf_run_step sub_inv_run_step by (auto simp: stage_inv_settled)
next
  case (Side sys')
  then show ?thesis using assms(2) side_step_inv by simp
qed

lemma staged_reachable_inv: "staged_reachable s \<Longrightarrow> stage_inv (st_stage s) (st_mux s) (sys_tasks (st_sys s))"
  by (induction rule: staged_reachable.induct)
     (auto simp: sys_init_def stage_inv_settled mux_wf_new sub_inv_new intro: staged_step_inv)

lemma ref_subscribed: "calls_match_refs mx \<Longrightarrow> 0 < rule_ref mx r rule \<Longrightarrow> removes mx r rule < adds mx r rule"
  by (simp add: calls_match_refs_def)

section \<open>A rule released in place of another\<close>

definition add_match_call :: "env \<Rightarrow> message \<Rightarrow> string \<Rightarrow> bool" where
  "add_match_call E msg str \<longleftrightarrow> is_dbus_daemon_call msg \<and> is_method_call msg \<and> member_str msg = Some ''AddMatch''
     \<and> de_string (e_zbus E) msg = Inr str \<and> (\<exists>rule. parse str = Inr rule)"

lemma leave_after_first_stage:
  assumes "st_stage s = None" and "add_match_call E msg str" and "hm_get (mx_clients (st_mux s)) c = Some info"
  obtains mx rules s' where "staged_step\<^sup>*\<^sup>* s s'" "st_stage s' = Some (Subscribe c msg str)"
    "st_mux s' = release_rules rules mx" "str \<in> set rules" "rule_ref mx = rule_ref (st_mux s)"
    "calls_match_refs mx = calls_match_refs (st_mux s)" "holders mx str = holders (st_mux s) str - {c}"
proof -
  obtain rule where rule: "parse str = Inr rule" using assms(2) by (auto simp: add_match_call_def)
  then have str: "rule_string rule = str" by (auto dest!: parse_wf)
  let ?m1 = "upd_client c (\<lambda>i. i\<lparr>ci_match_rules := rules_add rule (ci_match_rules i)\<rparr>) (st_mux s)"
  let ?s1 = "in_stage (Some (Subscribe c msg str)) ?m1 s"
  let ?i1 = "info\<lparr>ci_match_rules := rules_add rule (ci_match_rules info)\<rparr>"
  have "start_handler E c msg (st_mux s) = (Some (Subscribe c msg str), ?m1)"
    using assms(2) rule by (simp add: add_match_call_def start_handler_def add_match_start_def)
  then have first: "staged_step s ?s1" by (rule staged_step.Take[OF assms(1)])
  have i1: "hm_get (mx_clients (st_mux ?s1)) c = Some ?i1" using assms(3) by simp
  obtain owned rules m2 where un: "unregister_client c ?m1 = ((owned, rules), m2)" by (metis prod.exhaust)
  then have m2: "m2 = ?m1\<lparr>mx_clients := hm_remove c (mx_clients ?m1)\<rparr>" and rules: "rules = rule_strings (ci_match_rules ?i1)"
    using i1 by (auto simp: unregister_client_def)
  let ?t = "ReleaseRules c (ci_unique_name ?i1) rules owned"
  let ?sys2 = "(st_sys ?s1)\<lparr>sys_mux := m2, sys_tasks := ?t # sys_tasks (st_sys ?s1)\<rparr>"
  let ?s2 = "?s1\<lparr>st_sys := ?sys2\<rparr>"
  have "side_step (st_sys ?s1) ?sys2" by (rule side_step.Disconnect[OF i1]) (simp add: un)
  then have second: "staged_step ?s1 ?s2" by (rule staged_step.Side)
  let ?sys3 = "(st_sys ?s2)\<lparr>sys_mux := release_rules rules m2, sys_tasks := [] @ [DropPortal c (ci_unique_name ?i1) owned] @ sys_tasks (st_sys s)\<rparr>"
  have "side_step (st_sys ?s2) ?sys3"
    using side_step.Clean[of "st_sys ?s2" "[]" ?t "sys_tasks (st_sys s)"] by simp
  then have third: "staged_step ?s2 (?s2\<lparr>st_sys := ?sys3\<rparr>)" by (rule staged_step.Side)
  have same: "rule_ref m2 = rule_ref (st_mux s)" "calls_match_refs m2 = calls_match_refs (st_mux s)"
    by (simp_all add: m2 rule_ref_def fun_eq_iff calls_match_refs_def adds_def removes_def)
  have hold: "holders m2 str = holders (st_mux s) str - {c}"
    by (auto simp: m2 holders_def client_view_def)
  have "staged_step\<^sup>*\<^sup>* s (?s2\<lparr>st_sys := ?sys3\<rparr>)"
    using first second third by (meson r_into_rtranclp rtranclp_trans)
  from that[OF this _ _ _ same hold] show thesis by (simp add: rules rule_strings_add str)
qed

section \<open>Instances\<close>

text \<open>Two connected clients, of which the first holds the empty rule.\<close>

definition pair_mux :: multiplexer where
  "pair_mux = register_client 2 (mux_name 2) demo_creds (handle_add_match demo_env 1 (daemon_call ''AddMatch'') connected_mux)"

definition pair_system :: system where
  "pair_system = \<lparr>sys_mux = pair_mux, sys_tasks = [], sys_next = 3\<rparr>"

lemma pair_reachable: "staged_reachable (at_rest pair_system)"
proof -
  let ?mx = "handle_add_match demo_env 1 (daemon_call ''AddMatch'') connected_mux"
  have "reachable \<lparr>sys_mux = ?mx, sys_tasks = [], sys_next = 2\<rparr>"
    using reachable.Step[OF connected_reachable sys_step.Loop[where E = demo_env and ev = "ClientMessage 1 (daemon_call ''AddMatch'')"]]
    by (simp add: demo_add_match)
  from reachable.Step[OF this sys_step.Connect[where creds = demo_creds]] have "reachable pair_system"
    by (simp add: pair_system_def pair_mux_def)
  then show ?thesis by (rule staged_reachable_at_rest)
qed

lemma pair_counts:
  "holders pair_mux [] = {1}" "rule_ref pair_mux r [] = 1" "\<exists>info. hm_get (mx_clients pair_mux) 2 = Some info"
  "\<exists>info. hm_get (mx_clients pair_mux) 1 = Some info \<and> [] \<in> set (rule_strings (ci_match_rules info))"
proof -
  note add = add_match_counts[OF demo_parse connected_client, of "daemon_call ''AddMatch''"]
  have none: "holders connected_mux [] = {}" "rule_ref connected_mux r [] = 0"
    by (auto simp: holders_def client_view_def connected_mux_def register_client_def client_match_rules_new_def
        rule_strings_def demo_mux_def rule_ref_def ref_def ref_count_new_def split: if_splits)
  have absent: "2 \<notin> holders (handle_add_match demo_env 1 (daemon_call ''AddMatch'') connected_mux) []" by (simp add: add none)
  have "holders pair_mux [] = holders (handle_add_match demo_env 1 (daemon_call ''AddMatch'') connected_mux) []"
    using absent by (auto simp: pair_mux_def register_client_def holders_def client_view_def client_match_rules_new_def rule_strings_def split: if_splits)
  then show "holders pair_mux [] = {1}" by (simp add: add none)
  have "rule_ref pair_mux r [] = rule_ref (handle_add_match demo_env 1 (daemon_call ''AddMatch'') connected_mux) r []"
    by (simp add: pair_mux_def register_client_def rule_ref_def)
  then show "rule_ref pair_mux r [] = 1" by (simp add: add none)
  show "\<exists>info. hm_get (mx_clients pair_mux) 2 = Some info" by (simp add: pair_mux_def register_client_def)
  show "\<exists>info. hm_get (mx_clients pair_mux) 1 = Some info \<and> [] \<in> set (rule_strings (ci_match_rules info))"
    using add(4) by (simp add: pair_mux_def register_client_def)
qed

lemma demo_add_match_call: "add_match_call demo_env (daemon_call ''AddMatch'') []"
  by (simp add: add_match_call_def daemon_call_fields demo_parse)

section \<open>Properties\<close>



text \<open>
  C7. No rule of a connected client is unsubscribed while no \<open>AddMatch\<close> of this rule is under way: in every
  state of the system in stages, whichever handler stands between which of its stages and whatever
  clean-ups are under way, a rule that a connected client holds is subscribed on both buses, with a
  reference on each bus for each holder, unless the loop is between the two sections of an \<open>AddMatch\<close> for this very
  rule; then at most one reference is missing. The state is well formed in between, too.
\<close>

theorem rules_subscribed_between_stages:
  assumes "staged_reachable s" and "hm_get (mx_clients (st_mux s)) c = Some info"
    and "rule \<in> set (rule_strings (ci_match_rules info))"
  shows "mux_wf (st_mux s) \<and> card (holders (st_mux s) rule) \<le> rule_ref (st_mux s) r rule + 1
     \<and> ((\<forall>d msg. st_stage s \<noteq> Some (Subscribe d msg rule)) \<longrightarrow>
          removes (st_mux s) r rule < adds (st_mux s) r rule \<and> card (holders (st_mux s) rule) \<le> rule_ref (st_mux s) r rule)"
proof -
  have inv: "mux_wf (st_mux s)" "calls_match_refs (st_mux s)"
    "card (holders (st_mux s) rule) \<le> rule_ref (st_mux s) r rule + uncounted (st_stage s) rule"
    using staged_reachable_inv[OF assms(1)] by (auto simp: stage_inv_def sub_inv_with_def dest!: spec[of _ r] spec[of _ rule])
  have un: "uncounted (st_stage s) rule \<le> 1"
    "(\<forall>d msg. st_stage s \<noteq> Some (Subscribe d msg rule)) \<Longrightarrow> uncounted (st_stage s) rule = 0"
    by (cases "st_stage s" rule: uncounted.cases; auto simp: credit_def)+
  have "c \<in> holders (st_mux s) rule" using assms(2,3) by (simp add: holders_def client_view_def)
  then have "0 < card (holders (st_mux s) rule)" by (auto simp: card_gt_0_iff)
  then show ?thesis using inv un ref_subscribed[OF inv(2), of r rule] by fastforce
qed

theorem rules_subscribed_between_stages_witness:
  "mux_wf pair_mux \<and> removes pair_mux Host [] < adds pair_mux Host [] \<and> card (holders pair_mux []) \<le> rule_ref pair_mux Host []"
proof -
  obtain info where "hm_get (mx_clients pair_mux) 1 = Some info" "[] \<in> set (rule_strings (ci_match_rules info))"
    using pair_counts(4) by blast
  with rules_subscribed_between_stages[OF pair_reachable, of 1 info "[]" Host] show ?thesis by (simp add: pair_system_def)
qed

text \<open>
  C38. An \<open>AddMatch\<close> whose client leaves takes another client's subscription away: one client holds a
  rule, another asks for the same rule and leaves between the two sections of the handler, when the
  rule is entered with it but not yet counted. Its clean-up then gives back a reference that it never
  took, and both buses drop the rule although the first client is connected and holds it.
\<close>

theorem departing_client_unsubscribes_others:
  assumes "staged_reachable s" and "st_stage s = None" and "add_match_call E msg str" and "str \<noteq> name_changes_rule"
    and "hm_get (mx_clients (st_mux s)) c = Some info" and "holders (st_mux s) str = {d}" and "c \<noteq> d"
    and "\<And>r. rule_ref (st_mux s) r str = 1"
  shows "\<exists>s'. staged_step\<^sup>*\<^sup>* s s' \<and> st_stage s' = Some (Subscribe c msg str) \<and> holders (st_mux s') str = {d}
     \<and> (\<forall>r. removes (st_mux s') r str = adds (st_mux s') r str)"
proof -
  from leave_after_first_stage[OF assms(2,3,5)] obtain mx rules s' where
    s': "staged_step\<^sup>*\<^sup>* s s'" "st_stage s' = Some (Subscribe c msg str)" "st_mux s' = release_rules rules mx" "str \<in> set rules"
    and mx: "rule_ref mx = rule_ref (st_mux s)" "calls_match_refs mx = calls_match_refs (st_mux s)"
      "holders mx str = holders (st_mux s) str - {c}" by metis
  have "calls_match_refs (st_mux s)"
    using staged_reachable_inv[OF assms(1)] by (simp add: stage_inv_def sub_inv_with_def)
  then have calls: "calls_match_refs (st_mux s')" by (simp add: s'(3) mx release_rules_counts)
  have "0 < count_list rules str" using s'(4) by (metis count_list_0_iff neq0_conv)
  then have "rule_ref (st_mux s') r str = 0" for r
    by (simp add: s'(3) release_rules_counts mx assms(8))
  then have "removes (st_mux s') r str = adds (st_mux s') r str" for r
    using calls assms(4) by (simp add: calls_match_refs_def base_def)
  moreover have "holders (st_mux s') str = {d}" using assms(6,7) by (simp add: s'(3) release_rules_counts mx)
  ultimately show ?thesis using s'(1,2) by blast
qed

theorem departing_client_unsubscribes_others_witness:
  "\<exists>s. staged_reachable s \<and> holders (st_mux s) [] = {1} \<and> removes (st_mux s) Host [] = adds (st_mux s) Host []"
proof -
  obtain info where info: "hm_get (mx_clients (st_mux (at_rest pair_system))) 2 = Some info"
    using pair_counts(3) by (auto simp: pair_system_def)
  obtain s where s: "staged_step\<^sup>*\<^sup>* (at_rest pair_system) s" "holders (st_mux s) [] = {1}"
      "\<forall>r. removes (st_mux s) r [] = adds (st_mux s) r []"
    using departing_client_unsubscribes_others[OF pair_reachable _ demo_add_match_call _ info, of 1]
    by (auto simp: pair_system_def pair_counts name_changes_rule_def)
  from staged_reachable_steps[OF s(1) pair_reachable] s(2,3) show ?thesis by blast
qed

end
