(* ===== verification/Mux_Staged_Names.thy ===== *)
theory Mux_Staged_Names
  imports Mux_Stages
begin

text \<open>
  Ownership of names in the system whose handlers run in stages. A client that leaves while its
  \<open>RequestName\<close> stands between the look-up and the queue may be entered after its clean-up has left the
  queues. This is the only way in which a client that is gone comes into a queue.
\<close>

section \<open>Overtaking\<close>

text \<open>The clean-up of a client leaves the queues while its own request has yet to enter them.\<close>

inductive overtakes :: "staged \<Rightarrow> staged \<Rightarrow> bool" where
  "st_stage s = Some (Enqueue c msg name flags v) \<Longrightarrow> sys_tasks (st_sys s) = ts1 @ LeaveQueues c u owned # ts2 \<Longrightarrow>
   cleanup_step (LeaveQueues c u owned) (st_mux s) = (Some t', mx') \<Longrightarrow>
     overtakes s (s\<lparr>st_sys := (st_sys s)\<lparr>sys_mux := mx', sys_tasks := ts1 @ t' # ts2\<rparr>\<rparr>)"

inductive orderly_reachable :: "staged \<Rightarrow> bool" where
  Start: "multiplexer_new E build session guid cbus hbus = Inr mx \<Longrightarrow> orderly_reachable (at_rest (sys_init mx))"
| Step: "orderly_reachable s \<Longrightarrow> staged_step s s' \<Longrightarrow> \<not> overtakes s s' \<Longrightarrow> orderly_reachable s'"

lemma orderly_staged: "orderly_reachable s \<Longrightarrow> staged_reachable s"
  by (induction rule: orderly_reachable.induct) (auto intro: staged_reachable.intros)

section \<open>The invariant\<close>

definition pending_present :: "stage option \<Rightarrow> multiplexer \<Rightarrow> cleanup list \<Rightarrow> bool" where
  "pending_present st mx ts \<longleftrightarrow>
     (\<forall>c msg name flags u. st = Some (Enqueue c msg name flags u) \<longrightarrow> present mx ts c \<and> u = mux_name c)"

lemma stage_step_view: "client_view (mx_clients (snd (stage_step E st mx))) = client_view (mx_clients mx)"
proof (cases "uncounted (Some st) = (\<lambda>_. 0) \<and> unreleased (Some st) = []")
  case True
  then show ?thesis using stage_step_names_only[of st mx E] by (simp add: names_only_def)
next
  case False
  then show ?thesis by (cases st) auto
qed

lemma stage_step_entries:
  assumes "manager_wf (mx_name_queue mx)" and "e \<in> entries (mx_name_queue (snd (stage_step E st mx)))"
  shows "e \<in> entries (mx_name_queue mx)
     \<or> (\<exists>msg name flags. st = Enqueue (qe_client_id e) msg name flags (qe_unique_name e))"
proof (cases "(E, st, mx)" rule: stage_step.cases)
  case (3 E c msg name flags u mx)
  then have "e \<in> entries (snd (request_name name c u flags (mx_name_queue mx)))"
    using assms(2) by (simp add: request_enqueue_def case_prod_unfold Let_def)
  then have "e = flag_entry c u flags \<or> e \<in> entries (mx_name_queue mx)"
    using entries_request[OF assms(1), of name c u flags] 3 by blast
  then show ?thesis using 3 by (auto simp: flag_entry_def)
next
  case (6 E c msg name err mx)
  then show ?thesis using assms subsetD[OF entries_release[OF assms(1)]] by (simp add: send_emit)
qed (use assms(2) in \<open>auto simp: send_emit case_prod_unfold Let_def split: sum.splits option.splits\<close>)

lemma stage_step_keeps:
  assumes "own_inv mx ts" "pending_present (Some st) mx ts" "mux_wf mx" and "stage_step E st mx = (st', mx')"
  shows "own_inv mx' ts \<and> pending_present st' mx' ts"
proof
  have mx': "mx' = snd (stage_step E st mx)" using assms(4) by simp
  have wf: "manager_wf (mx_name_queue mx)" using assms(3) by (simp add: mux_wf_def)
  have view: "client_view (mx_clients mx') = client_view (mx_clients mx)" by (simp add: mx' stage_step_view)
  have "present mx ts (qe_client_id e) \<and> qe_unique_name e = mux_name (qe_client_id e)" if "e \<in> entries (mx_name_queue mx')" for e
    using stage_step_entries[OF wf that[unfolded mx']] assms(1,2) by (auto simp: own_inv_def pending_present_def)
  then show "own_inv mx' ts"
    using assms(1) by (simp add: own_inv_def named_def present_def connected_def view)
  have "st' \<noteq> Some (Enqueue c msg name flags u)" for c msg name flags u
    using assms(4) by (cases "(E, st, mx)" rule: stage_step.cases) (auto simp: case_prod_unfold Let_def split: sum.splits if_splits)
  then show "pending_present st' mx' ts" by (simp add: pending_present_def)
qed

lemma client_map_names:
  "map_option fst (client_view (mx_clients (snd (add_match_start E c msg mx))) d) = map_option fst (client_view (mx_clients mx) d)"
  "map_option fst (client_view (mx_clients (snd (remove_match_start E c msg mx))) d) = map_option fst (client_view (mx_clients mx) d)"
  by (auto simp: add_match_start_def remove_match_start_def send_emit client_view_def option.map_comp comp_def
      case_prod_unfold Let_def split: sum.splits option.splits)

lemma start_queues:
  "mx_name_queue (snd (add_match_start E c msg mx)) = mx_name_queue mx"
  "mx_name_queue (snd (remove_match_start E c msg mx)) = mx_name_queue mx"
  "fst (add_match_start E c msg mx) \<noteq> Some (Enqueue d m n f u)"
  "fst (remove_match_start E c msg mx) \<noteq> Some (Enqueue d m n f u)"
  "fst (release_start E c msg mx) \<noteq> Some (Enqueue d m n f u)"
  by (auto simp: add_match_start_def remove_match_start_def release_start_def send_emit
      case_prod_unfold Let_def split: sum.splits option.splits if_splits)

lemma own_inv_same_names:
  assumes "own_inv mx ts" and "mx_name_queue mx' = mx_name_queue mx"
    and "\<And>d. map_option fst (client_view (mx_clients mx') d) = map_option fst (client_view (mx_clients mx) d)"
  shows "own_inv mx' ts"
  using assms(1,2) same_names[OF assms(3)] by (simp add: own_inv_def present_def)

lemma request_start_keeps:
  assumes "own_inv mx ts"
  shows "own_inv (snd (request_start E c msg mx)) ts
     \<and> pending_present (fst (request_start E c msg mx)) (snd (request_start E c msg mx)) ts"
proof (cases "request_lookup E c msg mx")
  case (Inl mx')
  then have "mx_clients mx' = mx_clients mx \<and> mx_name_queue mx' = mx_name_queue mx"
    by (auto simp: request_lookup_def send_emit split: sum.splits option.splits)
  with Inl show ?thesis using own_inv_cong[of mx' mx ts] assms by (simp add: request_start_def pending_present_def)
next
  case (Inr x)
  then obtain name flags info where x: "x = (name, flags, ci_unique_name info)" "hm_get (mx_clients mx) c = Some info"
    by (auto simp: request_lookup_def split: sum.splits option.splits)
  then have "ci_unique_name info = mux_name c" "present mx ts c"
    using assms by (auto simp: own_inv_def named_def client_view_def present_def connected_def)
  with Inr x show ?thesis using assms by (simp add: request_start_def pending_present_def)
qed

lemma release_start_keeps:
  assumes "own_inv mx ts" and "mux_wf mx"
  shows "own_inv (snd (release_start E c msg mx)) ts"
proof -
  have wf: "manager_wf (mx_name_queue mx)" using assms(2) by (simp add: mux_wf_def)
  have "entries (mx_name_queue (snd (release_start E c msg mx))) \<subseteq> entries (mx_name_queue mx)"
    using entries_release[OF wf] by (simp add: release_start_def send_emit case_prod_unfold Let_def split: sum.splits)
  moreover have "mx_clients (snd (release_start E c msg mx)) = mx_clients mx"
    by (simp add: release_start_def send_emit case_prod_unfold Let_def split: sum.splits)
  ultimately show ?thesis
    using assms(1) by (auto simp: own_inv_def named_def present_def connected_def)
qed

lemma start_handler_keeps:
  assumes "own_inv mx ts" "mux_wf mx" and "start_handler E c msg mx = (st, mx')"
  shows "own_inv mx' ts \<and> pending_present st mx' ts"
proof -
  let ?K = "\<lambda>p. own_inv (snd p) ts \<and> pending_present (fst p) (snd p) ts"
  have "own_inv (snd (add_match_start E c msg mx)) ts" "own_inv (snd (remove_match_start E c msg mx)) ts"
    by (rule own_inv_same_names[OF assms(1)]; simp add: start_queues client_map_names)+
  then have "?K (add_match_start E c msg mx)" "?K (remove_match_start E c msg mx)"
    by (simp_all add: pending_present_def start_queues)
  moreover have "?K (release_start E c msg mx)"
    using release_start_keeps[OF assms(1,2)] by (simp add: pending_present_def start_queues)
  moreover have "?K (None, handle_client_message E c msg mx)"
    using own_inv_client_message[OF assms(1,2)] by (simp add: pending_present_def)
  ultimately have "?K (start_handler E c msg mx)"
    using start_handler_cases[of E c msg mx] request_start_keeps[OF assms(1), of E c msg] by (elim insertE emptyE) metis+
  then show ?thesis by (simp add: assms(3))
qed

lemma side_step_present:
  assumes "side_step (st_sys s) sys'" and "\<not> overtakes s (s\<lparr>st_sys := sys'\<rparr>)"
    and "st_stage s = Some (Enqueue c msg name flags v)" and "present (st_mux s) (sys_tasks (st_sys s)) c"
  shows "present (sys_mux sys') (sys_tasks sys') c"
  using assms(1)
proof (cases rule: side_step.cases)
  case (Disconnect d info owned rules mx')
  then show ?thesis using unregister_view(3)[OF Disconnect(3) assms(4)] by simp
next
  case (Clean ts1 t ts2 t' mx')
  have "t \<noteq> LeaveQueues c u owned" for u owned
  proof
    assume t: "t = LeaveQueues c u owned"
    then obtain x where "t' = Some x" using Clean(3) by (auto simp: case_prod_unfold Let_def)
    then have "overtakes s (s\<lparr>st_sys := sys'\<rparr>)"
      using overtakes.intros[OF assms(3), of ts1 u owned ts2 x mx'] Clean t by simp
    with assms(2) show False by contradiction
  qed
  with present_cleanup[of "st_mux s" ts1 t ts2 c t' mx'] Clean assms(4) show ?thesis by simp
qed (use assms(4) in \<open>auto simp: present_def connected_def client_view_def register_client_def\<close>)

lemma orderly_step_keeps:
  assumes "staged_step s s'" "\<not> overtakes s s'" "mux_wf (st_mux s)"
    and "own_inv (st_mux s) (sys_tasks (st_sys s))" "pending_present (st_stage s) (st_mux s) (sys_tasks (st_sys s))"
  shows "own_inv (st_mux s') (sys_tasks (st_sys s')) \<and> pending_present (st_stage s') (st_mux s') (sys_tasks (st_sys s'))"
  using assms(1)
proof (cases rule: staged_step.cases)
  case (Take E c msg st mx')
  then show ?thesis using start_handler_keeps[OF assms(4,3)] by simp
next
  case (Proceed st E st' mx')
  then show ?thesis using stage_step_keeps[OF assms(4) _ assms(3)] assms(5) by simp
next
  case (Other ev E mx')
  then show ?thesis using own_inv_run_step[OF assms(4,3)] by (simp add: pending_present_def)
next
  case (Side sys')
  then have "own_inv (sys_mux sys') (sys_tasks sys')"
    using own_inv_sys_step[of "st_sys s" sys'] assms(3,4) by (simp add: sys_step_iff)
  moreover have "pending_present (st_stage s) (sys_mux sys') (sys_tasks sys')"
    using side_step_present[of s sys'] Side assms(2,5) by (simp add: pending_present_def)
  ultimately show ?thesis using Side by simp
qed

lemma orderly_inv:
  "orderly_reachable s \<Longrightarrow>
     own_inv (st_mux s) (sys_tasks (st_sys s)) \<and> pending_present (st_stage s) (st_mux s) (sys_tasks (st_sys s))"
proof (induction rule: orderly_reachable.induct)
  case (Start E build session guid cbus hbus mx)
  then show ?case by (simp add: sys_init_def own_inv_new pending_present_def)
next
  case (Step s s')
  have "mux_wf (st_mux s)" using staged_reachable_inv[OF orderly_staged[OF Step(1)]] by (simp add: stage_inv_def)
  with Step show ?case using orderly_step_keeps by blast
qed

section \<open>Instances\<close>

lemma not_overtakes: "st_stage s = None \<or> st_stage s' \<noteq> st_stage s \<Longrightarrow> \<not> overtakes s s'"
  by (auto elim: overtakes.cases)

text \<open>A client whose request has entered the queue and is about to ask the bus.\<close>

definition asking :: staged where
  "asking = (let msg = daemon_call ''RequestName''; p = stage_step (owner_env 1) (Enqueue 1 msg ''org.a'' 0 (mux_name 1)) connected_mux
     in in_stage (fst p) (snd p) (at_rest \<lparr>sys_mux = connected_mux, sys_tasks = [], sys_next = 2\<rparr>))"

lemma asking_orderly: "orderly_reachable asking"
proof -
  let ?msg = "daemon_call ''RequestName''" and ?sys = "\<lparr>sys_mux = connected_mux, sys_tasks = [], sys_next = 2\<rparr>"
  let ?st = "Enqueue 1 ?msg ''org.a'' 0 (mux_name 1)"
  have "side_step (st_sys (at_rest (sys_init demo_mux))) ?sys"
    using side_step.Connect[of "sys_init demo_mux" demo_creds] by (simp add: sys_init_def connected_mux_def)
  then have "staged_step (at_rest (sys_init demo_mux)) (at_rest ?sys)" using staged_step.Side by fastforce
  then have one: "orderly_reachable (at_rest ?sys)"
    by (rule orderly_reachable.Step[OF orderly_reachable.Start[OF demo_mux_new]]) (simp add: not_overtakes)
  have "request_lookup (owner_env 1) 1 ?msg connected_mux = Inr (''org.a'', 0, mux_name 1)"
    by (simp add: request_lookup_def owner_env_def connected_client)
  then have start: "start_handler (owner_env 1) 1 ?msg (st_mux (at_rest ?sys)) = (Some ?st, connected_mux)"
    by (simp add: start_handler_def request_start_def daemon_call_fields)
  let ?s = "in_stage (Some ?st) connected_mux (at_rest ?sys)"
  have two: "orderly_reachable ?s"
    by (rule orderly_reachable.Step[OF one staged_step.Take[OF _ start]]) (simp_all add: not_overtakes)
  have "staged_step ?s asking"
    using staged_step.Proceed[of ?s ?st "owner_env 1"] by (simp add: asking_def Let_def)
  then show ?thesis
    by (rule orderly_reachable.Step[OF two])
       (rule not_overtakes, simp add: asking_def case_prod_unfold Let_def)
qed

lemma asking_queue: "queue_of (mx_name_queue (st_mux asking)) ''org.a'' = [flag_entry 1 (mux_name 1) 0]"
proof -
  have wf: "manager_wf (mx_name_queue connected_mux)" using reachable_mux_wf[OF connected_reachable] by (simp add: mux_wf_def)
  have free: "queue_of (mx_name_queue connected_mux) ''org.a'' = []" by (simp add: connected_mux_def register_client_def demo_mux_def)
  show ?thesis
    using request_name_refines(2)[OF wf, of "''org.a''" 1 "mux_name 1" 0] free
    by (simp add: asking_def request_enqueue_def spec_request_def case_prod_unfold Let_def)
qed

section \<open>Properties\<close>

text \<open>
  C8. Names are owned by connected clients, also between the stages of the handlers: in every state of the
  system in stages that is reached without one thing happening, a client that stands in the queue of any
  name, as its owner or waiting, is connected, or its clean-up has not taken it out of the queues yet, and
  it stands there under its unique name. The one thing is that the clean-up of a client leaves the queues
  while a \<open>RequestName\<close> of the same client has looked the client up and not entered the queue.
\<close>

theorem queued_clients_present_between_stages:
  assumes "orderly_reachable s" and "e \<in> set (queue_of (mx_name_queue (st_mux s)) n)"
  shows "((\<exists>info. hm_get (mx_clients (st_mux s)) (qe_client_id e) = Some info)
       \<or> (\<exists>t\<in>set (sys_tasks (st_sys s)). in_queues t \<and> task_client t = qe_client_id e))
     \<and> qe_unique_name e = mux_name (qe_client_id e)"
proof -
  have "e \<in> entries (mx_name_queue (st_mux s))" using assms(2) by (auto simp: entries_def)
  then show ?thesis
    using orderly_inv[OF assms(1)] by (auto simp: own_inv_def present_def connected_def client_view_def)
qed

theorem queued_clients_present_between_stages_witness:
  "orderly_reachable asking \<and> st_stage asking \<noteq> None
   \<and> (\<exists>e \<in> set (queue_of (mx_name_queue (st_mux asking)) ''org.a''). qe_unique_name e = mux_name (qe_client_id e))"
proof -
  have "st_stage asking \<noteq> None" by (simp add: asking_def case_prod_unfold Let_def)
  moreover have "flag_entry 1 (mux_name 1) 0 \<in> set (queue_of (mx_name_queue (st_mux asking)) ''org.a'')" by (simp add: asking_queue)
  ultimately show ?thesis
    using queued_clients_present_between_stages[OF asking_orderly] asking_orderly by blast
qed

end
