(* ===== verification/Mux_Program.thy ===== *)
theory Mux_Program
  imports Mux_Staged_Names
begin

text \<open>
  The program as a whole: the tasks of the clients, the bounded channels and the main loop of
  \<open>Mux_Channels\<close>, where the loop runs the handlers of client messages in the stages of \<open>Mux_Stages\<close>. A stage starts when
  the sends of the one before are made; between stages the tasks read, write, come, go and clean up.
\<close>

section \<open>Steps\<close>

type_synonym ('i, 'o) program = "('i, 'o) pipes \<times> stage option"

definition set_mux :: "multiplexer \<Rightarrow> ('i, 'o) pipes \<Rightarrow> ('i, 'o) pipes" where
  "set_mux mx s = s\<lparr>p_sys := (p_sys s)\<lparr>sys_mux := mx\<rparr>, p_loop := new_sends (p_mux s) mx\<rparr>"

text \<open>What the loop takes up only when it is at rest, and what is not the loop's.\<close>

fun of_loop :: "act \<Rightarrow> bool" where
  "of_loop (Handle_bus E route m) = True"
| "of_loop (Handle_tick E) = True"
| "of_loop _ = False"

inductive program_step :: "('i, client_id \<times> message) mpsc \<Rightarrow> ('o, message) mpsc \<Rightarrow> ('i, 'o) program \<Rightarrow> ('i, 'o) program \<Rightarrow> bool"
  for In Out where
  Task: "pipe_step In Out a s s' \<Longrightarrow> (\<And>E. a \<noteq> Handle_client E) \<Longrightarrow> (of_loop a \<Longrightarrow> st = None) \<Longrightarrow> program_step In Out (s, st) (s', st)"
| Begin: "p_loop s = [] \<Longrightarrow> mpsc_recv In (p_inbound s) = Some ((c, m), q) \<Longrightarrow> start_handler E c m (p_mux s) = (st, mx') \<Longrightarrow>
     program_step In Out (s, None) (set_mux mx' (s\<lparr>p_inbound := q, p_handled := p_handled s @ [(c, m)]\<rparr>), st)"
| Go: "p_loop s = [] \<Longrightarrow> stage_step E st (p_mux s) = (st', mx') \<Longrightarrow> program_step In Out (s, Some st) (set_mux mx' s, st')"

definition program_reachable :: "('i, client_id \<times> message) mpsc \<Rightarrow> ('o, message) mpsc \<Rightarrow> ('i, 'o) program \<Rightarrow> bool" where
  "program_reachable In Out p \<longleftrightarrow> (\<exists>E build session guid cbus hbus mx.
     multiplexer_new E build session guid cbus hbus = Inr mx \<and> (program_step In Out)\<^sup>*\<^sup>* (pipes_init In Out mx, None) p)"

lemma set_mux_simps [simp]:
  "p_mux (set_mux mx s) = mx" "sys_tasks (p_sys (set_mux mx s)) = sys_tasks (p_sys s)" "sys_next (p_sys (set_mux mx s)) = sys_next (p_sys s)"
  "p_loop (set_mux mx s) = new_sends (p_mux s) mx" "p_inbound (set_mux mx s) = p_inbound s" "p_task (set_mux mx s) = p_task s"
  "p_outbound (set_mux mx s) = p_outbound s" "p_read (set_mux mx s) = p_read s" "p_written (set_mux mx s) = p_written s"
  "p_handled (set_mux mx s) = p_handled s" "p_since (set_mux mx s) = p_since s"
  by (simp_all add: set_mux_def)

section \<open>What the stages send\<close>

lemma speaks_stage: "speaks mx (snd (stage_step E st mx))"
  by (cases "(E, st, mx)" rule: stage_step.cases)
     (auto simp: request_enqueue_def case_prod_unfold Let_def intro!: speaks_send speaks_steps split: sum.splits option.splits)

lemma speaks_start: "speaks mx (snd (start_handler E c msg mx))"
proof -
  have "speaks mx (mx\<lparr>mx_clients := hm_insert c (f i) (mx_clients mx)\<rparr>)" if "hm_get (mx_clients mx) c = Some i" for i f
    using that by (auto simp: speaks_def connected_iff)
  then have "speaks mx (snd (remove_match_start E c msg mx))"
    by (auto simp: remove_match_start_def case_prod_unfold Let_def intro!: speaks_send split: sum.splits option.splits)
  moreover have "speaks mx (snd (add_match_start E c msg mx))" "speaks mx (snd (request_start E c msg mx))"
    "speaks mx (snd (release_start E c msg mx))"
    by (auto simp: add_match_start_def request_start_def request_lookup_def release_start_def case_prod_unfold Let_def
        intro!: speaks_send speaks_steps split: sum.splits option.splits)
  ultimately show ?thesis
    using start_handler_cases[of E c msg mx] speaks_client_message[of mx E c msg] by (elim insertE emptyE) (metis snd_conv)+
qed

text \<open>Only the last stage of a handler sends.\<close>

lemma silent_steps:
  "silent mx mx' \<Longrightarrow> silent mx (upd_table f mx')" "silent mx mx' \<Longrightarrow> silent mx (upd_client d g mx')"
  "silent mx mx' \<Longrightarrow> silent mx (mx'\<lparr>mx_name_queue := q\<rparr>)" "silent mx mx' \<Longrightarrow> silent mx (mx'\<lparr>mx_clients := cs\<rparr>)"
  "silent mx mx' \<Longrightarrow> silent mx (emit [CallBus rt call] mx')"
  "silent mx mx' \<Longrightarrow> silent mx (subscribe_on rt bus rule mx')" "silent mx mx' \<Longrightarrow> silent mx (unsubscribe_on rt bus rule mx')"
  by (auto simp: silent_def subscribe_on_def unsubscribe_on_def case_prod_unfold Let_def)

lemma silent_stage: "stage_step E st mx = (Some st', mx') \<Longrightarrow> silent mx mx'"
  by (cases "(E, st, mx)" rule: stage_step.cases)
     (auto simp: request_enqueue_def case_prod_unfold Let_def intro!: silent_steps split: sum.splits option.splits)

lemma silent_start:
  assumes "start_handler E c msg mx = (Some st, mx')"
  shows "silent mx mx'"
proof -
  have "silent mx mx'" if "add_match_start E c msg mx = (Some st, mx')"
    using that by (auto simp: add_match_start_def intro!: silent_steps split: sum.splits)
  moreover have "silent mx mx'" if "remove_match_start E c msg mx = (Some st, mx')"
    using that by (auto simp: remove_match_start_def case_prod_unfold Let_def intro!: silent_steps split: sum.splits option.splits)
  moreover have "silent mx mx'" if "request_start E c msg mx = (Some st, mx')"
    using that by (auto simp: request_start_def split: sum.splits)
  moreover have "silent mx mx'" if "release_start E c msg mx = (Some st, mx')"
    using that by (auto simp: release_start_def case_prod_unfold Let_def intro!: silent_steps split: sum.splits)
  ultimately show ?thesis
    using start_handler_cases[of E c msg mx] unfolding assms by (elim insertE emptyE) (metis option.distinct(1) prod.inject)+
qed

lemma silent_sends:
  assumes "silent mx mx1" and "speaks mx1 mx2"
  shows "new_sends mx mx1 = []" and "new_sends mx1 mx2 = new_sends mx mx2"
  using assms by (auto simp: silent_def speaks_def new_sends_def)

section \<open>The flows through the channels\<close>

lemma section_keeps:
  assumes "pipes_inv vi vo s" and "p_loop s = []" and "speaks (p_mux s) mx'"
  shows "pipes_inv vi vo (set_mux mx' s)"
proof -
  have "out_flow vo (set_mux mx' s) c" for c
    by (rule out_flow_handler[OF _ assms(2,3)]) (use assms(1) in \<open>simp_all add: pipes_inv_def\<close>)
  moreover have "known_inv (set_mux mx' s)"
    using assms by (fastforce simp: pipes_inv_def known_inv_def speaks_def new_sends_def)
  ultimately show ?thesis using assms(1) by (simp add: pipes_inv_def within_capacity_def in_flow_def)
qed

lemma taking_keeps:
  assumes "pipes_inv vi vo s" and "mpsc_laws In vi" and "mpsc_recv In (p_inbound s) = Some ((c, m), q)"
  shows "pipes_inv vi vo (s\<lparr>p_inbound := q, p_handled := p_handled s @ [(c, m)]\<rparr>)"
  using assms(1) mpsc_lawsD(5)[OF assms(2,3)] places_ops(3)[OF assms(2) _ assms(3)]
  by (auto simp: pipes_inv_def known_inv_def within_capacity_def in_flow_def out_flow_def sent_def split: if_splits)

lemma program_step_inv:
  assumes "program_step In Out p p'" and "mpsc_laws In vi" "mpsc_laws Out vo" and "pipes_inv vi vo (fst p)"
  shows "pipes_inv vi vo (fst p')"
  using assms(1)
proof (cases rule: program_step.cases)
  case (Task a s s' st)
  have "pipe_run In Out [a] s s'" by (rule pipe_run.Cons[OF Task(3) pipe_run.Nil])
  from pipes_inv_run[OF this assms(2,3)] show ?thesis using assms(4) Task by simp
next
  case (Begin s c m q E st mx')
  have "pipes_inv vi vo (s\<lparr>p_inbound := q, p_handled := p_handled s @ [(c, m)]\<rparr>)"
    using taking_keeps[OF _ assms(2) Begin(4)] assms(4) Begin(1) by simp
  then show ?thesis
    using section_keeps[of vi vo _ mx'] speaks_start[of "p_mux s" E c m] Begin by simp
next
  case (Go s E st st' mx')
  then show ?thesis using section_keeps[of vi vo s mx'] speaks_stage[of "p_mux s" E st] assms(4) by simp
qed

lemma program_inv:
  assumes "program_reachable In Out p" "mpsc_laws In vi" "mpsc_laws Out vo"
  shows "pipes_inv vi vo (fst p)"
proof -
  obtain E build session guid cbus hbus mx where start: "multiplexer_new E build session guid cbus hbus = Inr mx"
    and run: "(program_step In Out)\<^sup>*\<^sup>* (pipes_init In Out mx, None) p" using assms(1) by (auto simp: program_reachable_def)
  from run show ?thesis
  proof (induction rule: rtranclp_induct)
    case base
    show ?case using pipes_inv_init[OF start assms(2,3)] by simp
  next
    case (step p1 p2)
    then show ?case using program_step_inv assms(2,3) by blast
  qed
qed

section \<open>The stages behind the channels\<close>

definition staged_of :: "('i, 'o) program \<Rightarrow> staged" where
  "staged_of p = \<lparr>st_sys = p_sys (fst p), st_stage = snd p\<rparr>"

lemma pipe_step_side:
  assumes "pipe_step In Out a s s'" and "\<And>E. a \<noteq> Handle_client E" and "\<not> of_loop a"
  shows "p_sys s' = p_sys s \<or> side_step (p_sys s) (p_sys s')"
  using assms
proof (induction rule: pipe_step.induct)
  case (Register s c creds)
  then show ?case using side_step.Connect[of "p_sys s" creds] by simp
next
  case (Refuse_id c s)
  then show ?case using side_step.Refuse[of "p_sys s"] by simp
next
  case (Unregister s c info owned rules mx')
  then show ?case using side_step.Disconnect[OF Unregister(3,4)] by simp
next
  case (Clean_section s ts1 t ts2 t' mx')
  then show ?case using side_step.Clean[OF Clean_section(1,3)] by simp
qed auto

lemma pipe_step_other:
  assumes "pipe_step In Out a s s'" and "of_loop a"
  shows "\<exists>E ev. \<not> from_client ev \<and> run_step E ev (p_mux s) = Inr (p_mux s') \<and> p_sys s' = (p_sys s)\<lparr>sys_mux := p_mux s'\<rparr>"
  using assms
proof (induction rule: pipe_step.induct)
  case (Handle_bus s E route m mx')
  then show ?case by (intro exI[of _ E] exI[of _ "BusItem route (Some (Inr m))"]) simp
next
  case (Handle_tick s E mx')
  then show ?case by (intro exI[of _ E] exI[of _ Tick]) simp
qed simp_all

lemma program_step_refines:
  assumes "program_step In Out p p'"
  shows "staged_of p' = staged_of p \<or> staged_step (staged_of p) (staged_of p')"
  using assms
proof (cases rule: program_step.cases)
  case (Task a s s' st)
  show ?thesis
  proof (cases "of_loop a")
    case True
    then obtain E ev where "\<not> from_client ev" "run_step E ev (p_mux s) = Inr (p_mux s')" "p_sys s' = (p_sys s)\<lparr>sys_mux := p_mux s'\<rparr>"
      using pipe_step_other[OF Task(3)] by blast
    with True show ?thesis
      using staged_step.Other[of "staged_of p" ev E "p_mux s'"] Task by (simp add: staged_of_def in_stage_def)
  next
    case False
    with pipe_step_side[OF Task(3,4)] show ?thesis
      using staged_step.Side[of "staged_of p" "p_sys s'"] Task by (auto simp: staged_of_def)
  qed
next
  case (Begin s c m q E st mx')
  then show ?thesis
    using staged_step.Take[of "staged_of p" E c m st mx'] by (simp add: staged_of_def in_stage_def set_mux_def)
next
  case (Go s E st st' mx')
  then show ?thesis
    using staged_step.Proceed[of "staged_of p" st E st' mx'] by (simp add: staged_of_def in_stage_def set_mux_def)
qed

lemma program_reachable_staged: "program_reachable In Out p \<Longrightarrow> staged_reachable (staged_of p)"
proof -
  assume "program_reachable In Out p"
  then obtain E build session guid cbus hbus mx where start: "multiplexer_new E build session guid cbus hbus = Inr mx"
    and run: "(program_step In Out)\<^sup>*\<^sup>* (pipes_init In Out mx, None) p" by (auto simp: program_reachable_def)
  from run show ?thesis
  proof (induction rule: rtranclp_induct)
    case base
    show ?case using staged_reachable.Start[OF start] by (simp add: staged_of_def pipes_init_def at_rest_def)
  next
    case (step p1 p2)
    then show ?case using program_step_refines[OF step(2)] staged_reachable.Step by metis
  qed
qed

section \<open>Handlers without interruption\<close>

lemma speaks_run_stages: "speaks mx (run_stages E st mx)"
proof (induction E st mx rule: run_stages.induct)
  case (1 E st mx)
  have "speaks mx (snd (stage_step E st mx))" by (rule speaks_stage)
  with 1 show ?case unfolding run_stages.simps[of E st] by (auto split: prod.splits option.splits intro: speaks_trans)
qed

lemma set_mux_again: "new_sends mx M = new_sends (p_mux s) M \<Longrightarrow> set_mux M (set_mux mx s) = set_mux M s"
  by (simp add: set_mux_def)

lemma stages_go:
  "p_loop s = [] \<Longrightarrow> (program_step In Out)\<^sup>*\<^sup>* (s, Some st) (set_mux (run_stages E st (p_mux s)) s, None)"
proof (induction E st "p_mux s" arbitrary: s rule: run_stages.induct)
  case (1 E st)
  obtain st' mx' where step: "stage_step E st (p_mux s) = (st', mx')" by fastforce
  have first: "program_step In Out (s, Some st) (set_mux mx' s, st')" by (rule program_step.Go[OF 1(2) step])
  show ?case
  proof (cases st')
    case None
    with first show ?thesis by (simp add: run_stages.simps[of E st] step r_into_rtranclp)
  next
    case (Some x)
    note quiet = silent_sends[OF silent_stage[OF step[unfolded Some]] speaks_run_stages[of mx' E x]]
    have "(program_step In Out)\<^sup>*\<^sup>* (set_mux mx' s, Some x) (set_mux (run_stages E x mx') (set_mux mx' s), None)"
      using 1(1)[of st' "set_mux mx' s" x] by (simp add: step Some quiet(1))
    then have "(program_step In Out)\<^sup>*\<^sup>* (s, Some st) (set_mux (run_stages E x mx') s, None)"
      using first by (simp add: Some set_mux_again[OF quiet(2)] converse_rtranclp_into_rtranclp)
    then show ?thesis by (simp add: run_stages.simps[of E st] step Some)
  qed
qed

lemma handler_goes:
  assumes "p_loop s = []" and "mpsc_recv In (p_inbound s) = Some ((c, m), q)"
  shows "(program_step In Out)\<^sup>*\<^sup>* (s, None)
     (set_mux (handle_client_message E c m (p_mux s)) (s\<lparr>p_inbound := q, p_handled := p_handled s @ [(c, m)]\<rparr>), None)"
proof -
  obtain st mx' where start: "start_handler E c m (p_mux s) = (st, mx')" by fastforce
  let ?s = "s\<lparr>p_inbound := q, p_handled := p_handled s @ [(c, m)]\<rparr>"
  have first: "program_step In Out (s, None) (set_mux mx' ?s, st)" by (rule program_step.Begin[OF assms start])
  show ?thesis
  proof (cases st)
    case None
    with first show ?thesis using stages_of_handler[of E c m "p_mux s"] by (simp add: start r_into_rtranclp)
  next
    case (Some x)
    note quiet = silent_sends[OF silent_start[OF start[unfolded Some]] speaks_run_stages[of mx' E x]]
    have same: "set_mux (run_stages E x mx') (set_mux mx' ?s) = set_mux (run_stages E x mx') ?s"
      by (rule set_mux_again) (simp add: quiet(2))
    have "(program_step In Out)\<^sup>*\<^sup>* (set_mux mx' ?s, Some x) (set_mux (run_stages E x mx') ?s, None)"
      using stages_go[of "set_mux mx' ?s" In Out x E] by (simp add: quiet(1) same)
    moreover have "run_stages E x mx' = handle_client_message E c m (p_mux s)"
      using stages_of_handler[of E c m "p_mux s"] by (simp add: start Some finish_def del: finish_simps)
    ultimately show ?thesis using first by (simp add: Some converse_rtranclp_into_rtranclp)
  qed
qed

lemma program_simulates_step:
  assumes "pipe_step In Out a s s'"
  shows "(program_step In Out)\<^sup>*\<^sup>* (s, None) (s', None)"
proof (cases "\<exists>E. a = Handle_client E")
  case True
  then obtain E where a: "a = Handle_client E" by blast
  from assms[unfolded a] show ?thesis
  proof (cases rule: pipe_step.cases)
    case (Handle_client c m q mx')
    then have "s' = set_mux (handle_client_message E c m (p_mux s)) (s\<lparr>p_inbound := q, p_handled := p_handled s @ [(c, m)]\<rparr>)"
      by (cases s) (simp add: set_mux_def)
    then show ?thesis using handler_goes[OF Handle_client(2,3)] by simp
  qed
next
  case False
  with assms show ?thesis by (blast intro: program_step.Task)
qed

lemma program_simulates: "pipe_run In Out as s s' \<Longrightarrow> (program_step In Out)\<^sup>*\<^sup>* (s, None) (s', None)"
  by (induction rule: pipe_run.induct) (auto dest: program_simulates_step)

lemma program_reachable_pipes: "pipe_reachable In Out s \<Longrightarrow> program_reachable In Out (s, None)"
  using program_simulates by (fastforce simp: pipe_reachable_def program_reachable_def)

lemma wedged_program_step:
  assumes "program_step In Out p p'" and "mpsc_laws In vi" and "wedged In Out c (fst p)"
  shows "wedged In Out c (fst p') \<and> p_loop (fst p') = p_loop (fst p) \<and> p_handled (fst p') = p_handled (fst p)"
  using assms(1)
proof (cases rule: program_step.cases)
  case (Task a s s' st)
  then show ?thesis using wedged_step[OF Task(3) assms(2)] assms(3) by simp
qed (use assms(3) in \<open>auto simp: wedged_def\<close>)

lemma wedged_program_run:
  "(program_step In Out)\<^sup>*\<^sup>* p p' \<Longrightarrow> mpsc_laws In vi \<Longrightarrow> wedged In Out c (fst p) \<Longrightarrow>
     wedged In Out c (fst p') \<and> p_loop (fst p') = p_loop (fst p) \<and> p_handled (fst p') = p_handled (fst p)"
  by (induction rule: rtranclp_induct) (auto dest: wedged_program_step)

section \<open>Properties\<close>



text \<open>
  C12. The program implements the system in stages, and the program whose handlers are one step is part of
  it: whatever the tasks, the channels and the loop do, the multiplexer and its clean-ups have taken steps
  of the system in which a message is handled as soon as it is sent and a send never waits; every state is
  well formed, and its subscriptions are counted up to what the running stage has yet to count; and every run
  of the program in which no handler is interrupted is one of its runs.
\<close>

theorem program_refines_stages:
  assumes "program_reachable In Out p"
  shows "(\<forall>p'. (program_step In Out)\<^sup>*\<^sup>* p p' \<longrightarrow> staged_step\<^sup>*\<^sup>* (staged_of p) (staged_of p'))
     \<and> staged_reachable (staged_of p) \<and> stage_inv (snd p) (p_mux (fst p)) (sys_tasks (p_sys (fst p)))
     \<and> (\<forall>as s s'. pipe_run In Out as s s' \<longrightarrow> (program_step In Out)\<^sup>*\<^sup>* (s, None) (s', None))"
proof -
  have "staged_step\<^sup>*\<^sup>* (staged_of p) (staged_of p')" if "(program_step In Out)\<^sup>*\<^sup>* p p'" for p'
    using that
  proof (induction rule: rtranclp_induct)
    case (step p1 p2)
    then show ?case using program_step_refines[OF step(2)] by (metis rtranclp.rtrancl_into_rtrancl)
  qed simp
  moreover have "stage_inv (snd p) (p_mux (fst p)) (sys_tasks (p_sys (fst p)))"
    using staged_reachable_inv[OF program_reachable_staged[OF assms]] by (simp add: staged_of_def)
  ultimately show ?thesis using program_reachable_staged[OF assms] program_simulates by blast
qed

theorem program_refines_stages_witness:
  "\<exists>s. program_reachable list_channel list_channel (s, None) \<and> wedged list_channel list_channel 1 s
     \<and> staged_reachable \<lparr>st_sys = p_sys s, st_stage = None\<rparr> \<and> mux_wf (p_mux s)"
proof -
  obtain s where s: "pipe_reachable list_channel list_channel s" "wedged list_channel list_channel 1 s"
    using wedged_reachable[OF list_channel_laws list_channel_laws] by blast
  from program_refines_stages[OF program_reachable_pipes[OF s(1)]] s program_reachable_pipes[OF s(1)] show ?thesis
    by (auto simp: staged_of_def stage_inv_def)
qed

text \<open>
  C40. The program can lock up: a client that sends calls without waiting for the answers can bring it
  into a state with both channels full, from which every run ends with the same messages taken up and
  the same message still to be sent.
\<close>

theorem program_can_lock_up:
  assumes "mpsc_laws In vi" and "mpsc_laws Out vo"
  shows "\<exists>s. program_reachable In Out (s, None) \<and> wedged In Out 1 s
     \<and> {(p_loop (fst p'), p_handled (fst p')) |p'. (program_step In Out)\<^sup>*\<^sup>* (s, None) p'} = {(p_loop s, p_handled s)}"
proof -
  obtain s where s: "pipe_reachable In Out s" "wedged In Out 1 s" using wedged_reachable[OF assms] by blast
  have "{(p_loop (fst p'), p_handled (fst p')) |p'. (program_step In Out)\<^sup>*\<^sup>* (s, None) p'} = {(p_loop s, p_handled s)}"
    using wedged_program_run[OF _ assms(1), of Out "(s, None)" _ 1] s(2) by fastforce
  with s program_reachable_pipes show ?thesis by blast
qed

theorem program_can_lock_up_witness:
  "\<exists>s :: (nat \<times> (client_id \<times> message) list, nat \<times> message list) pipes. wedged list_channel list_channel 1 s
     \<and> {(p_loop (fst p'), p_handled (fst p')) |p'. (program_step list_channel list_channel)\<^sup>*\<^sup>* (s, None) p'} = {(p_loop s, p_handled s)}"
  using program_can_lock_up[OF list_channel_laws list_channel_laws] by blast

end
