(* ===== verification/Mux_Locks.thy ===== *)
theory Mux_Locks
  imports Main
begin

text \<open>
  The locks of the multiplexer. Its state lies behind six reader-writer locks that the main loop and the
  tasks of the clients take around their sections. A task follows one of the paths of the code through
  acquisitions, releases and waits; the lock is that of tokio, given by the contract of the locale
  \<open>rwlock\<close>. The paths keep an order of the locks, the client map last, and so no task waits for ever.
\<close>

section \<open>Locks and paths\<close>

datatype lock = RoutingTableLock | RefcountLock | NameQueueLock | PortalLock | SerialMapLock | ClientsLock

datatype mode = Shared | Exclusive

text \<open>\<open>Await\<close> stands for any number of waits for a bus or for a place in a channel.\<close>

datatype lock_op = Acquire lock mode | Release lock | Await

type_synonym claim = "nat \<times> mode"

record lock_state =
  ls_rest :: "nat \<Rightarrow> lock_op list"
  ls_held :: "lock \<Rightarrow> claim list"
  ls_queue :: "lock \<Rightarrow> claim list"

text \<open>
  The steps of the tasks. A task asks for a lock and stands in its queue; the lock admits claims from the
  queue as its policy allows.
\<close>

inductive lock_step :: "(claim list \<Rightarrow> claim list \<Rightarrow> claim \<Rightarrow> bool) \<Rightarrow> lock_state \<Rightarrow> lock_state \<Rightarrow> bool"
  for admits where
  Ask: "ls_rest s t = Acquire l m # ops \<Longrightarrow> (t, m) \<notin> set (ls_queue s l) \<Longrightarrow>
     lock_step admits s (s\<lparr>ls_queue := (ls_queue s)(l := ls_queue s l @ [(t, m)])\<rparr>)"
| Enter: "ls_rest s t = Acquire l m # ops \<Longrightarrow> admits (ls_held s l) (ls_queue s l) (t, m) \<Longrightarrow>
     lock_step admits s (s\<lparr>ls_rest := (ls_rest s)(t := ops), ls_held := (ls_held s)(l := (t, m) # ls_held s l),
       ls_queue := (ls_queue s)(l := removeAll (t, m) (ls_queue s l))\<rparr>)"
| Leave: "ls_rest s t = Release l # ops \<Longrightarrow>
     lock_step admits s (s\<lparr>ls_rest := (ls_rest s)(t := ops), ls_held := (ls_held s)(l := filter (\<lambda>c. fst c \<noteq> t) (ls_held s l))\<rparr>)"
| Wait: "ls_rest s t = Await # ops \<Longrightarrow> lock_step admits s (s\<lparr>ls_rest := (ls_rest s)(t := ops)\<rparr>)"

definition lock_start :: "(nat \<Rightarrow> lock_op list) \<Rightarrow> lock_state" where
  "lock_start scripts = \<lparr>ls_rest = scripts, ls_held = (\<lambda>_. []), ls_queue = (\<lambda>_. [])\<rparr>"

section \<open>The order of the locks\<close>

fun lock_rank :: "lock \<Rightarrow> nat" where
  "lock_rank ClientsLock = 1"
| "lock_rank _ = 0"

fun ordered :: "lock list \<Rightarrow> lock_op list \<Rightarrow> bool" where
  "ordered hs [] = (hs = [])"
| "ordered hs (Acquire l m # ops) = (list_all (\<lambda>k. lock_rank k < lock_rank l) hs \<and> ordered (l # hs) ops)"
| "ordered hs (Release l # ops) = (l \<in> set hs \<and> ordered (removeAll l hs) ops)"
| "ordered hs (Await # ops) = ordered hs ops"

lemma ordered_append: "ordered hs a \<Longrightarrow> ordered [] b \<Longrightarrow> ordered hs (a @ b)"
  by (induction hs a rule: ordered.induct) auto

lemma ordered_concat: "list_all (ordered []) ps \<Longrightarrow> ordered [] (concat ps)"
  by (induction ps) (auto intro: ordered_append)

section \<open>The contract of a lock\<close>

text \<open>
  A claim is admitted from the queue only: when nobody holds the lock, or when all who hold it and the
  claim itself are shared. A lock that is free and has a queue admits a claim. Nothing is assumed of the
  order in which claims are admitted, that of tokio being first come, first served.
\<close>

definition compatible :: "claim list \<Rightarrow> mode \<Rightarrow> bool" where
  "compatible held m \<longleftrightarrow> held = [] \<or> m = Shared \<and> list_all (\<lambda>c. snd c = Shared) held"

definition held_by :: "lock_state \<Rightarrow> nat \<Rightarrow> lock set" where
  "held_by s t = {l. \<exists>m. (t, m) \<in> set (ls_held s l)}"

definition exclusion :: "lock_state \<Rightarrow> bool" where
  "exclusion s \<longleftrightarrow> (\<forall>l t. (t, Exclusive) \<in> set (ls_held s l) \<longrightarrow> ls_held s l = [(t, Exclusive)])"

definition lock_inv :: "lock_state \<Rightarrow> bool" where
  "lock_inv s \<longleftrightarrow> exclusion s
     \<and> (\<forall>t. \<exists>hs. set hs = held_by s t \<and> ordered hs (ls_rest s t))
     \<and> (\<forall>l t m. (t, m) \<in> set (ls_queue s l) \<longrightarrow> (\<exists>ops. ls_rest s t = Acquire l m # ops))"

text \<open>What is left to do: at most two steps for each operation, of which a task that stands in a queue has done one.\<close>

definition waits :: "lock_state \<Rightarrow> nat \<Rightarrow> bool" where
  "waits s t \<longleftrightarrow> (\<exists>l m. (t, m) \<in> set (ls_queue s l))"

definition work :: "lock_state \<Rightarrow> nat \<Rightarrow> nat" where
  "work s t = 2 * length (ls_rest s t) - (if waits s t then 1 else 0)"

definition total_work :: "nat \<Rightarrow> lock_state \<Rightarrow> nat" where
  "total_work n s = (\<Sum>t<n. work s t)"

locale rwlock =
  fixes admits :: "claim list \<Rightarrow> claim list \<Rightarrow> claim \<Rightarrow> bool"
  assumes admits_queued: "admits held queue (t, m) \<Longrightarrow> (t, m) \<in> set queue \<and> compatible held m"
    and free_admits: "queue \<noteq> [] \<Longrightarrow> \<exists>t m. admits [] queue (t, m)"
begin

lemma exclusion_step:
  assumes "lock_step admits s s'" and "exclusion s"
  shows "exclusion s'"
  using assms(1)
proof (cases rule: lock_step.cases)
  case (Enter t l m ops)
  have "compatible (ls_held s l) m" using admits_queued Enter(3) by blast
  with assms(2) show ?thesis by (auto simp: Enter(1) exclusion_def compatible_def list_all_iff)
next
  case (Leave t l ops)
  show ?thesis unfolding exclusion_def
  proof (intro allI impI)
    fix k u
    assume u: "(u, Exclusive) \<in> set (ls_held s' k)"
    then have "ls_held s k = [(u, Exclusive)]" using assms(2) by (auto simp: Leave(1) exclusion_def split: if_splits)
    with u show "ls_held s' k = [(u, Exclusive)]" by (auto simp: Leave(1) split: if_splits)
  qed
qed (use assms(2) in \<open>simp_all add: exclusion_def\<close>)

lemma order_step:
  assumes "lock_step admits s s'" and "set hs = held_by s u" and "ordered hs (ls_rest s u)"
  shows "\<exists>hs'. set hs' = held_by s' u \<and> ordered hs' (ls_rest s' u)"
  using assms(1)
proof (cases rule: lock_step.cases)
  case (Enter t l m ops)
  have "held_by s' u = (if u = t then insert l (held_by s t) else held_by s u)"
    by (auto simp: Enter(1) held_by_def)
  then show ?thesis
    using assms(2,3) Enter(2) by (intro exI[of _ "if u = t then l # hs else hs"]) (auto simp: Enter(1))
next
  case (Leave t l ops)
  have "held_by s' u = (if u = t then held_by s t - {l} else held_by s u)"
    by (auto simp: Leave(1) held_by_def split: if_splits)
  then show ?thesis
    using assms(2,3) Leave(2) by (intro exI[of _ "if u = t then removeAll l hs else hs"]) (auto simp: Leave(1))
qed (use assms(2,3) in \<open>auto simp: held_by_def intro!: exI[of _ hs]\<close>)

lemma queue_step:
  assumes "lock_step admits s s'" and "(u, n) \<in> set (ls_queue s' k)"
    and "\<And>l t m. (t, m) \<in> set (ls_queue s l) \<Longrightarrow> \<exists>ops. ls_rest s t = Acquire l m # ops"
  shows "\<exists>ops. ls_rest s' u = Acquire k n # ops"
  using assms(1)
proof (cases rule: lock_step.cases)
  case (Ask t l m ops)
  then show ?thesis using assms(2,3) by (auto split: if_splits)
next
  case (Enter t l m ops)
  then have "(u, n) \<in> set (ls_queue s k)" "\<not> (k = l \<and> (u, n) = (t, m))" using assms(2) by (auto split: if_splits)
  with assms(3)[of u n k] Enter(2) show ?thesis by (auto simp: Enter(1))
next
  case (Leave t l ops)
  then show ?thesis using assms(2) assms(3)[of u n k] by auto
next
  case (Wait t ops)
  then show ?thesis using assms(2) assms(3)[of u n k] by auto
qed

lemma lock_inv_step:
  assumes "lock_step admits s s'" and "lock_inv s"
  shows "lock_inv s'"
proof -
  have inv: "exclusion s" "\<And>t. \<exists>hs. set hs = held_by s t \<and> ordered hs (ls_rest s t)"
    "\<And>l t m. (t, m) \<in> set (ls_queue s l) \<Longrightarrow> \<exists>ops. ls_rest s t = Acquire l m # ops"
    using assms(2) by (simp_all add: lock_inv_def)
  show ?thesis
    using exclusion_step[OF assms(1) inv(1)] order_step[OF assms(1)] inv(2) queue_step[OF assms(1) _ inv(3)]
    unfolding lock_inv_def by blast
qed

lemma lock_inv_steps: "(lock_step admits)\<^sup>*\<^sup>* s s' \<Longrightarrow> lock_inv s \<Longrightarrow> lock_inv s'"
  by (induction rule: rtranclp_induct) (auto intro: lock_inv_step)

text \<open>
  Progress: a task that waits for a lock waits for the task that holds it, and that task, when it waits
  itself, waits for a lock later in the order.
\<close>

lemma waiting_progress:
  assumes "lock_inv s" and "ls_rest s t = Acquire l m # ops"
  shows "\<exists>s'. lock_step admits s s'"
  using assms(2)
proof (induction "1 - lock_rank l" arbitrary: t l m ops rule: less_induct)
  case less
  show ?case
  proof (cases "(t, m) \<in> set (ls_queue s l)")
    case False
    then show ?thesis using lock_step.Ask[OF less(2)] by blast
  next
    case queued: True
    show ?thesis
    proof (cases "ls_held s l")
      case Nil
      have "ls_queue s l \<noteq> []" using queued by auto
      with Nil obtain u n where adm: "admits (ls_held s l) (ls_queue s l) (u, n)" using free_admits by metis
      then have "(u, n) \<in> set (ls_queue s l)" using admits_queued by blast
      then obtain ops' where "ls_rest s u = Acquire l n # ops'" using assms(1) unfolding lock_inv_def by blast
      from lock_step.Enter[where admits = admits, OF this adm] show ?thesis by blast
    next
      case (Cons c cs)
      then have "l \<in> held_by s (fst c)" by (cases c) (auto simp: held_by_def)
      then obtain hs where hs: "l \<in> set hs" "ordered hs (ls_rest s (fst c))"
        using assms(1) unfolding lock_inv_def by metis
      show ?thesis
      proof (cases "(hs, ls_rest s (fst c))" rule: ordered.cases)
        case (2 hs' k n ops')
        then have "lock_rank l < lock_rank k" using hs by (simp add: list_all_iff)
        moreover have "lock_rank k \<le> 1" by (cases k) simp_all
        ultimately show ?thesis using less(1)[of k "fst c" n ops'] 2 by simp
      qed (use hs in \<open>auto intro: lock_step.Leave lock_step.Wait\<close>)
    qed
  qed
qed

lemma progress:
  assumes "lock_inv s" and "ls_rest s t \<noteq> []"
  shows "\<exists>s'. lock_step admits s s'"
proof -
  obtain op ops where rest: "ls_rest s t = op # ops" using assms(2) by (meson neq_Nil_conv)
  then show ?thesis
    using waiting_progress[OF assms(1)] by (cases op) (auto intro: lock_step.Leave lock_step.Wait)
qed

text \<open>Every step is work that some task has done, for good.\<close>

lemma work_step:
  assumes "lock_step admits s s'" and "lock_inv s"
  shows "\<exists>t. work s' t < work s t \<and> ls_rest s t \<noteq> [] \<and> (\<forall>u. u \<noteq> t \<longrightarrow> work s' u = work s u \<and> ls_rest s' u = ls_rest s u)"
proof -
  have queue: "(u, n) \<in> set (ls_queue s k) \<Longrightarrow> \<exists>ops. ls_rest s u = Acquire k n # ops" for u n k
    using assms(2) by (simp add: lock_inv_def)
  show ?thesis
    using assms(1)
  proof (cases rule: lock_step.cases)
    case (Ask t l m ops)
    have "\<not> waits s t" using queue[of t] Ask(2,3) by (fastforce simp: waits_def)
    moreover have "waits s' t" "\<And>u. u \<noteq> t \<Longrightarrow> waits s' u = waits s u" by (auto simp: Ask(1) waits_def)
    ultimately show ?thesis by (intro exI[of _ t]) (simp add: work_def Ask(1,2))
  next
    case (Enter t l m ops)
    have "(t, m) \<in> set (ls_queue s l)" using admits_queued Enter(3) by blast
    then have "waits s t" by (auto simp: waits_def)
    moreover have "\<not> waits s' t" using queue[of t] Enter(2) by (fastforce simp: Enter(1) waits_def split: if_splits)
    moreover have "\<And>u. u \<noteq> t \<Longrightarrow> waits s' u = waits s u" by (auto simp: Enter(1) waits_def)
    ultimately show ?thesis by (intro exI[of _ t]) (simp add: work_def Enter(1,2))
  next
    case (Leave t l ops)
    have "\<not> waits s t" using queue[of t] Leave(2) by (fastforce simp: waits_def)
    moreover have "waits s' u = waits s u" for u by (simp add: Leave(1) waits_def)
    ultimately show ?thesis by (intro exI[of _ t]) (simp add: work_def Leave(1,2))
  next
    case (Wait t ops)
    have "\<not> waits s t" using queue[of t] Wait(2) by (fastforce simp: waits_def)
    moreover have "waits s' u = waits s u" for u by (simp add: Wait(1) waits_def)
    ultimately show ?thesis by (intro exI[of _ t]) (simp add: work_def Wait(1,2))
  qed
qed

lemma total_work_step:
  assumes "lock_step admits s s'" and "lock_inv s" and "\<And>t. n \<le> t \<Longrightarrow> ls_rest s t = []"
  shows "total_work n s' < total_work n s" and "n \<le> t \<Longrightarrow> ls_rest s' t = []"
proof -
  obtain u where u: "work s' u < work s u" "ls_rest s u \<noteq> []" "\<And>v. v \<noteq> u \<Longrightarrow> work s' v = work s v \<and> ls_rest s' v = ls_rest s v"
    using work_step[OF assms(1,2)] by blast
  then have "u < n" using assms(3) by (meson not_le)
  then show "total_work n s' < total_work n s"
    unfolding total_work_def using u(1,3) by (intro sum_strict_mono_ex1) (auto intro: le_less_linear, metis order.refl less_imp_le)
  show "ls_rest s' t = []" if "n \<le> t" using u(3)[of t] assms(3)[OF that] \<open>u < n\<close> that by simp
qed

lemma runs_bounded:
  assumes "(lock_step admits ^^ k) s s'" and "lock_inv s" and "\<And>t. n \<le> t \<Longrightarrow> ls_rest s t = []"
  shows "k + total_work n s' \<le> total_work n s \<and> lock_inv s' \<and> (\<forall>t\<ge>n. ls_rest s' t = [])"
  using assms(1)
proof (induction k arbitrary: s')
  case (Suc k)
  then obtain s1 where s1: "(lock_step admits ^^ k) s s1" "lock_step admits s1 s'" by (auto elim: relpowp_Suc_E)
  note inv = Suc.IH[OF s1(1)]
  then show ?case
    using total_work_step[OF s1(2), of n] lock_inv_step[OF s1(2)] by fastforce
qed (use assms(2,3) in auto)

lemma all_finish:
  assumes "lock_inv s" and "\<And>t. n \<le> t \<Longrightarrow> ls_rest s t = []"
  shows "\<exists>s'. (lock_step admits)\<^sup>*\<^sup>* s s' \<and> (\<forall>t. ls_rest s' t = [])"
  using assms
proof (induction "total_work n s" arbitrary: s rule: less_induct)
  case less
  show ?case
  proof (cases "\<forall>t. ls_rest s t = []")
    case False
    then obtain s1 where s1: "lock_step admits s s1" using progress[OF less(2)] by blast
    note down = total_work_step[OF s1 less(2,3)]
    from less(1)[OF down(1) lock_inv_step[OF s1 less(2)] down(2)] s1 show ?thesis
      by (meson converse_rtranclp_into_rtranclp)
  qed blast
qed

end

section \<open>The paths of the code\<close>

text \<open>
  A guard that is bound lives to the end of its block; the operations of a block stand inside those of its
  guard. Each list holds the paths through a function, one for each way its branches and early returns
  can go as far as locks and waits are concerned.
\<close>

definition shared :: "lock \<Rightarrow> lock_op list \<Rightarrow> lock_op list" where
  "shared l ops = Acquire l Shared # ops @ [Release l]"

definition exclusive :: "lock \<Rightarrow> lock_op list \<Rightarrow> lock_op list" where
  "exclusive l ops = Acquire l Exclusive # ops @ [Release l]"

text \<open>Sending a reply or an error keeps the client map until the channel has taken the message.\<close>

definition send_locks :: "lock_op list" where
  "send_locks = shared ClientsLock [Await]"

text \<open>The methods of the bus daemon.\<close>

definition hello_locks :: "lock_op list list" where
  "hello_locks = [shared ClientsLock [Await]]"

definition request_name_locks :: "lock_op list list" where
  "request_name_locks =
     (let queued = shared ClientsLock [] @ exclusive NameQueueLock []
      in [send_locks,
          shared ClientsLock [],
          queued @ send_locks,
          queued @ [Await] @ exclusive RoutingTableLock (exclusive ClientsLock []) @ send_locks,
          queued @ [Await] @ send_locks,
          queued @ [Await] @ exclusive NameQueueLock send_locks])"

definition release_name_locks :: "lock_op list list" where
  "release_name_locks =
     (let released = exclusive NameQueueLock []
      in [send_locks,
          released @ exclusive RoutingTableLock (exclusive ClientsLock []) @ send_locks,
          released @ shared ClientsLock [] @ [Await] @ exclusive RoutingTableLock [] @ exclusive ClientsLock [] @ send_locks,
          released @ shared ClientsLock [] @ [Await] @ exclusive ClientsLock [] @ send_locks,
          released @ shared ClientsLock [] @ [Await] @ send_locks,
          released @ exclusive ClientsLock [] @ send_locks])"

definition list_names_locks :: "lock_op list list" where
  "list_names_locks = [shared RoutingTableLock [] @ send_locks]"

definition list_activatable_names_locks :: "lock_op list list" where
  "list_activatable_names_locks = [[Await] @ send_locks]"

definition get_name_owner_locks :: "lock_op list list" where
  "get_name_owner_locks = [send_locks, shared RoutingTableLock [] @ [Await] @ send_locks]"

definition name_has_owner_locks :: "lock_op list list" where
  "name_has_owner_locks = [send_locks, shared RoutingTableLock [] @ send_locks]"

definition credentials_locks :: "lock_op list list" where
  "credentials_locks = [send_locks, shared ClientsLock [] @ send_locks]"

definition list_queued_owners_locks :: "lock_op list list" where
  "list_queued_owners_locks = [send_locks, shared NameQueueLock send_locks]"

text \<open>Both match handlers keep the guard of the counters until their reply is sent.\<close>

definition add_match_locks :: "lock_op list list" where
  "add_match_locks = [send_locks, exclusive ClientsLock [] @ exclusive RefcountLock ([Await] @ send_locks)]"

definition remove_match_locks :: "lock_op list list" where
  "remove_match_locks =
     [send_locks, exclusive ClientsLock [] @ send_locks,
      exclusive ClientsLock [] @ exclusive RefcountLock ([Await] @ send_locks)]"

text \<open>Forwarding, messages of the buses and the periodic clean-up.\<close>

definition forward_locks :: "lock_op list list" where
  "forward_locks =
     [shared RoutingTableLock [], shared RoutingTableLock [] @ send_locks,
      shared RoutingTableLock [] @ [Await] @ send_locks,
      shared RoutingTableLock [] @ [Await] @ exclusive SerialMapLock [],
      send_locks, [Await] @ send_locks, [Await] @ exclusive SerialMapLock []]"

definition bus_message_locks :: "lock_op list list" where
  "bus_message_locks =
     [[], exclusive RoutingTableLock [],
      exclusive SerialMapLock [],
      exclusive SerialMapLock [] @ shared ClientsLock [Await],
      exclusive SerialMapLock [] @ exclusive PortalLock [] @ shared ClientsLock [Await],
      exclusive PortalLock [] @ shared ClientsLock [Await],
      shared ClientsLock [Await]]"

definition tick_locks :: "lock_op list list" where
  "tick_locks = [exclusive SerialMapLock [] @ exclusive PortalLock []]"

text \<open>
  The task of a client: its registration, its connection, and the sections of its clean-up, those of the
  loops over queue results and owned names once for each turn.
\<close>

definition client_task_locks :: "lock_op list list" where
  "client_task_locks =
     [exclusive ClientsLock [], [Await],
      exclusive RefcountLock [Await],
      exclusive PortalLock [],
      exclusive NameQueueLock [],
      exclusive RoutingTableLock (exclusive ClientsLock []), exclusive RoutingTableLock [] @ [Await],
      shared NameQueueLock [], shared NameQueueLock [] @ exclusive RoutingTableLock [] @ [Await]]"

definition mux_paths :: "lock_op list list" where
  "mux_paths = concat [hello_locks, request_name_locks, release_name_locks, list_names_locks,
     list_activatable_names_locks, get_name_owner_locks, name_has_owner_locks, credentials_locks,
     list_queued_owners_locks, add_match_locks, remove_match_locks, [send_locks], forward_locks, bus_message_locks,
     tick_locks, client_task_locks]"

lemmas path_defs = shared_def exclusive_def send_locks_def hello_locks_def request_name_locks_def release_name_locks_def
  list_names_locks_def list_activatable_names_locks_def get_name_owner_locks_def name_has_owner_locks_def
  credentials_locks_def list_queued_owners_locks_def add_match_locks_def remove_match_locks_def forward_locks_def
  bus_message_locks_def tick_locks_def client_task_locks_def mux_paths_def Let_def

lemma mux_paths_ordered: "list_all (ordered []) mux_paths"
  by (simp add: path_defs)

lemma lock_inv_start:
  assumes "\<And>t. set (paths t) \<subseteq> set mux_paths"
  shows "lock_inv (lock_start (concat \<circ> paths))"
proof -
  have "ordered [] (concat (paths t))" for t
    using mux_paths_ordered assms[of t] by (intro ordered_concat) (auto simp: list_all_iff)
  then show ?thesis by (simp add: lock_inv_def lock_start_def exclusion_def held_by_def)
qed

lemma total_work_start: "total_work n (lock_start scripts) = 2 * (\<Sum>t<n. length (scripts t))"
  by (simp add: total_work_def work_def waits_def lock_start_def sum_distrib_left)

section \<open>An instance\<close>

text \<open>The lock of tokio: first come, first served, where shared claims enter together.\<close>

definition fifo_admits :: "claim list \<Rightarrow> claim list \<Rightarrow> claim \<Rightarrow> bool" where
  "fifo_admits held queue c \<longleftrightarrow> queue \<noteq> [] \<and> c = hd queue \<and> compatible held (snd c)"

interpretation fifo: rwlock fifo_admits
proof
  show "fifo_admits held queue (t, m) \<Longrightarrow> (t, m) \<in> set queue \<and> compatible held m" for held queue t m
    by (auto simp: fifo_admits_def)
  show "queue \<noteq> [] \<Longrightarrow> \<exists>t m. fifo_admits [] queue (t, m)" for queue
    by (metis compatible_def fifo_admits_def prod.collapse)
qed

section \<open>Properties\<close>


text \<open>
  For instance a \<open>RequestName\<close> of the loop, a clean-up that hands a name over and a registration, under tokio's
  lock, after the loop has asked for the client map.
\<close>

definition three_tasks :: "nat \<Rightarrow> lock_op list list" where
  "three_tasks t =
     (if t = 0 then [shared ClientsLock [] @ exclusive NameQueueLock [] @ [Await] @ exclusive NameQueueLock send_locks]
      else if t = 1 then [exclusive RoutingTableLock (exclusive ClientsLock [])]
      else if t = 2 then [exclusive ClientsLock []] else [])"


end
