(* ===== verification/Mux_Main.thy ===== *)
theory Mux_Main
  imports Mux_Delivery "HOL-Library.Sublist"
begin

text \<open>
  The program from its command line to its end (\<open>main.rs\<close>), and what \<open>Multiplexer::new\<close> and its
  \<open>Drop\<close> do with the listening socket. The files are a map from paths to nodes; the operations of
  the standard library on them fail where the operating system always refuses, and wherever else
  the parameter \<open>refuses\<close> says so (permissions, a name too long for a socket address). Parsing the
  command line and setting up the log are not modelled.
\<close>

section \<open>Files\<close>

text \<open>A path is its components, after the root or after the current directory.\<close>

datatype path = Path (path_absolute: bool) (path_parts: "string list")

datatype node = DirNode | FileNode | SocketNode

type_synonym files = "path \<rightharpoonup> node"

datatype fs_op = RemoveFile path | MakeDir path | BindSocket path

type_synonym refusals = "fs_op \<Rightarrow> io_error option"

definition path_parent :: "path \<Rightarrow> path option" where
  "path_parent p = (if path_parts p = [] then None else Some (Path (path_absolute p) (butlast (path_parts p))))"

text \<open>\<open>Path::exists\<close>: the root exists, the empty path does not.\<close>

definition path_exists :: "files \<Rightarrow> path \<Rightarrow> bool" where
  "path_exists fs p = (if path_parts p = [] then path_absolute p else fs p \<noteq> None)"

definition path_is_dir :: "files \<Rightarrow> path \<Rightarrow> bool" where
  "path_is_dir fs p = (if path_parts p = [] then path_absolute p else fs p = Some DirNode)"

text \<open>The directory in which a path is created; that of a single relative component is the current one.\<close>

definition dir_ready :: "files \<Rightarrow> path \<Rightarrow> bool" where
  "dir_ready fs p = (case path_parent p of
     None \<Rightarrow> False | Some d \<Rightarrow> path_parts d = [] \<or> path_is_dir fs d)"

definition os_error :: "string \<Rightarrow> io_error" where
  "os_error t = IoError OtherKind t"

definition remove_file :: "refusals \<Rightarrow> files \<Rightarrow> path \<Rightarrow> io_error + files" where
  "remove_file refuses fs p =
     (case refuses (RemoveFile p) of Some e \<Rightarrow> Inl e
      | None \<Rightarrow>
          if path_is_dir fs p then Inl (os_error ''Is a directory (os error 21)'')
          else if \<not> path_exists fs p then Inl (os_error ''No such file or directory (os error 2)'')
          else Inr (fs(p := None)))"

text \<open>Making one directory; the flag of an error tells that the kind is \<open>NotFound\<close>.\<close>

definition make_dir :: "refusals \<Rightarrow> files \<Rightarrow> path \<Rightarrow> (bool \<times> io_error) + files" where
  "make_dir refuses fs p =
     (if path_exists fs p then Inl (False, os_error ''File exists (os error 17)'')
      else if \<not> dir_ready fs p then
        (case path_parent p of
           Some d \<Rightarrow> if path_exists fs d then Inl (False, os_error ''Not a directory (os error 20)'')
                     else Inl (True, os_error ''No such file or directory (os error 2)'')
         | None \<Rightarrow> Inl (True, os_error ''No such file or directory (os error 2)''))
      else (case refuses (MakeDir p) of Some e \<Rightarrow> Inl (False, e) | None \<Rightarrow> Inr (fs(p \<mapsto> DirNode))))"

text \<open>The directories that were made stay when a later one fails.\<close>

function create_dir_all :: "refusals \<Rightarrow> files \<Rightarrow> path \<Rightarrow> (io_error + unit) \<times> files" where
  "create_dir_all refuses fs p =
     (if p = Path False [] then (Inr (), fs)
      else
        (case make_dir refuses fs p of
           Inr fs1 \<Rightarrow> (Inr (), fs1)
         | Inl (not_found, e) \<Rightarrow>
             if not_found then
               (case path_parent p of
                  None \<Rightarrow> (Inl (os_error ''failed to create whole tree''), fs)
                | Some d \<Rightarrow>
                    (case create_dir_all refuses fs d of
                       (Inl e, fs1) \<Rightarrow> (Inl e, fs1)
                     | (Inr _, fs1) \<Rightarrow>
                         (case make_dir refuses fs1 p of
                            Inr fs2 \<Rightarrow> (Inr (), fs2)
                          | Inl (_, e) \<Rightarrow> if path_is_dir fs1 p then (Inr (), fs1) else (Inl e, fs1))))
             else if path_is_dir fs p then (Inr (), fs)
             else (Inl e, fs)))"
  by pat_completeness auto
termination
  by (relation "measure (\<lambda>(r, fs, p). length (path_parts p))") (auto simp: path_parent_def split: if_splits)

declare create_dir_all.simps [simp del]

text \<open>\<open>UnixListener::bind\<close>. An empty path gives the socket an address without a file.\<close>

definition bind_listener :: "refusals \<Rightarrow> files \<Rightarrow> path \<Rightarrow> io_error + files" where
  "bind_listener refuses fs p =
     (case refuses (BindSocket p) of Some e \<Rightarrow> Inl e
      | None \<Rightarrow>
          if p = Path False [] then Inr fs
          else if path_exists fs p then Inl (os_error ''Address already in use (os error 98)'')
          else if \<not> dir_ready fs p then Inl (os_error ''No such file or directory (os error 2)'')
          else Inr (fs(p \<mapsto> SocketNode)))"

section \<open>Start and end of a multiplexer\<close>

text \<open>\<open>Multiplexer::new\<close> up to the bound listener.\<close>

definition prepare_listener :: "refusals \<Rightarrow> files \<Rightarrow> path \<Rightarrow> (error + unit) \<times> files" where
  "prepare_listener refuses fs listen_path =
     (case (if path_exists fs listen_path then remove_file refuses fs listen_path else Inr fs) of
        Inl e \<Rightarrow> (Inl (Io e), fs)
      | Inr fs1 \<Rightarrow>
          (case (case path_parent listen_path of Some parent \<Rightarrow> create_dir_all refuses fs1 parent | None \<Rightarrow> (Inr (), fs1)) of
             (Inl e, fs2) \<Rightarrow> (Inl (Io e), fs2)
           | (Inr _, fs2) \<Rightarrow>
               (case bind_listener refuses fs2 listen_path of
                  Inl e \<Rightarrow> (Inl (Io e), fs2)
                | Inr fs3 \<Rightarrow> (Inr (), fs3))))"

text \<open>
  \<open>Multiplexer::new\<close>. When a bus cannot be reached the listener is closed again, which leaves its
  file where it is; no multiplexer exists yet whose \<open>Drop\<close> could remove it.
\<close>

definition multiplexer_start ::
    "refusals \<Rightarrow> env \<Rightarrow> (string \<Rightarrow> zbus_error + string option) \<Rightarrow> zbus_error + string option \<Rightarrow> string \<Rightarrow>
     path \<Rightarrow> string \<Rightarrow> string option \<Rightarrow> files \<Rightarrow> (error + multiplexer) \<times> files" where
  "multiplexer_start refuses E build session guid listen_path container_bus host_bus fs =
     (case prepare_listener refuses fs listen_path of
        (Inl e, fs1) \<Rightarrow> (Inl e, fs1)
      | (Inr _, fs1) \<Rightarrow> (multiplexer_new E build session guid container_bus host_bus, fs1))"

definition drop_multiplexer :: "refusals \<Rightarrow> files \<Rightarrow> path \<Rightarrow> files" where
  "drop_multiplexer refuses fs listen_path =
     (if path_exists fs listen_path then
        (case remove_file refuses fs listen_path of Inr fs1 \<Rightarrow> fs1 | Inl _ \<Rightarrow> fs)
      else fs)"

section \<open>The program\<close>

record args =
  arg_listen :: path
  arg_container_bus :: string
  arg_host_bus :: "string option"
  arg_log_level :: string

text \<open>
  What surrounds a run: the refusals and the environment of the start, the buses and the random
  id, everything that happens while the loop runs, and what other programs do to the files
  meanwhile. The shutdown signal comes after the last happening; an error of the loop comes first.
\<close>

record world =
  w_refuses :: refusals
  w_env :: env
  w_build :: "string \<Rightarrow> zbus_error + string option"
  w_session :: "zbus_error + string option"
  w_guid :: string
  w_happenings :: "happening list"
  w_others :: "files \<Rightarrow> files"

definition start_from :: "world \<Rightarrow> args \<Rightarrow> files \<Rightarrow> (error + multiplexer) \<times> files" where
  "start_from w a fs = multiplexer_start (w_refuses w) (w_env w) (w_build w) (w_session w) (w_guid w)
     (arg_listen a) (arg_container_bus a) (arg_host_bus a) fs"

definition main :: "world \<Rightarrow> args \<Rightarrow> files \<Rightarrow> (error + unit) \<times> files" where
  "main w a fs =
     (case start_from w a fs of
        (Inl e, fs1) \<Rightarrow> (Inl e, fs1)
      | (Inr mux, fs1) \<Rightarrow>
          (let fs2 = drop_multiplexer (w_refuses w) (w_others w fs1) (arg_listen a)
           in case happen_all (w_happenings w) mux of
                Inl e \<Rightarrow> (Inl e, fs2)
              | Inr _ \<Rightarrow> (Inr (), fs2)))"

section \<open>What they do to the files\<close>

text \<open>Directories may be made on the way to a path, and nothing else changes.\<close>

definition only_dirs :: "path \<Rightarrow> files \<Rightarrow> files \<Rightarrow> bool" where
  "only_dirs p fs fs' \<longleftrightarrow> (\<forall>q. fs' q = fs q \<or>
     fs q = None \<and> fs' q = Some DirNode \<and> path_absolute q = path_absolute p \<and> prefix (path_parts q) (path_parts p))"

lemma only_dirs_refl [simp]: "only_dirs p fs fs"
  by (simp add: only_dirs_def)

lemma only_dirs_parent:
  assumes "path_parent p = Some d" and "only_dirs d fs fs'"
  shows "only_dirs p fs fs'"
proof -
  have "prefix (path_parts d) (path_parts p)" "path_absolute d = path_absolute p"
    using assms(1) by (auto simp: path_parent_def prefixeq_butlast split: if_splits)
  then show ?thesis using assms(2) unfolding only_dirs_def by (metis prefix_order.trans)
qed

lemma make_dir_only: "make_dir refuses fs p = Inr fs' \<Longrightarrow> only_dirs p fs fs' \<and> path_is_dir fs' p"
  by (cases p) (auto simp: make_dir_def only_dirs_def path_exists_def path_is_dir_def dir_ready_def path_parent_def
      split: if_splits option.splits)

lemma only_dirs_trans: "only_dirs p fs fs1 \<Longrightarrow> only_dirs p fs1 fs2 \<Longrightarrow> only_dirs p fs fs2"
  unfolding only_dirs_def by metis

lemma create_dir_all_only:
  assumes "create_dir_all refuses fs p = (r, fs')"
  shows "only_dirs p fs fs' \<and> (r = Inr () \<longrightarrow> p = Path False [] \<or> path_is_dir fs' p)"
  using assms
proof (induction refuses fs p arbitrary: r fs' rule: create_dir_all.induct)
  case (1 refuses fs p)
  note step = 1(2)[unfolded create_dir_all.simps[of refuses fs p]]
  show ?case
  proof (cases "p = Path False [] \<or> (\<forall>e. make_dir refuses fs p \<noteq> Inl (True, e))")
    case True
    then show ?thesis using step by (auto dest: make_dir_only split: if_splits sum.splits prod.splits)
  next
    case False
    then obtain e where md: "p \<noteq> Path False []" "make_dir refuses fs p = Inl (True, e)" by blast
    show ?thesis
    proof (cases "path_parent p")
      case None
      then show ?thesis using step md by auto
    next
      case (Some d)
      obtain r1 fs1 where rec: "create_dir_all refuses fs d = (r1, fs1)" by fastforce
      have "only_dirs p fs fs1" using 1(1)[OF md(1,2) refl TrueI Some rec] only_dirs_parent[OF Some] by blast
      then show ?thesis
        using step md by (auto simp: Some rec dest!: make_dir_only intro: only_dirs_trans split: sum.splits if_splits prod.splits)
    qed
  qed
qed

definition ancestor :: "path \<Rightarrow> path \<Rightarrow> bool" where
  "ancestor q p \<longleftrightarrow> path_absolute q = path_absolute p \<and> strict_prefix (path_parts q) (path_parts p)"

lemma only_dirs_ancestor:
  assumes "path_parent p = Some d" "only_dirs d fs fs'"
  shows "fs' q = fs q \<or> fs q = None \<and> fs' q = Some DirNode \<and> ancestor q p"
proof -
  have "path_parts p \<noteq> []" "d = Path (path_absolute p) (butlast (path_parts p))"
    using assms(1) by (auto simp: path_parent_def split: if_splits)
  moreover have "strict_prefix xs ys" if "prefix xs (butlast ys)" "ys \<noteq> []" for xs ys :: "string list"
    using that by (metis append_butlast_last_id list.discI prefix_order.le_less_trans strict_prefixI')
  ultimately show ?thesis using assms(2) unfolding only_dirs_def ancestor_def by (metis path.sel)
qed

lemma prepare_listener_files:
  assumes "prepare_listener refuses fs p = (r, fs')" and "path_parts p \<noteq> []"
  shows "(r = Inr () \<longrightarrow> fs' p = Some SocketNode)
     \<and> (q \<noteq> p \<longrightarrow> fs' q = fs q \<or> fs q = None \<and> fs' q = Some DirNode \<and> ancestor q p)"
proof -
  obtain d where d: "path_parent p = Some d" using assms(2) by (simp add: path_parent_def)
  show ?thesis
  proof (cases "if path_exists fs p then remove_file refuses fs p else Inr fs")
    case (Inl e)
    then show ?thesis using assms(1) by (auto simp: prepare_listener_def split: if_splits)
  next
    case (Inr fs1)
    then have fs1: "q \<noteq> p \<Longrightarrow> fs1 q = fs q"
      by (auto simp: remove_file_def split: if_splits option.splits)
    obtain r2 fs2 where dirs: "create_dir_all refuses fs1 d = (r2, fs2)" by fastforce
    have fs2: "fs2 q = fs1 q \<or> fs1 q = None \<and> fs2 q = Some DirNode \<and> ancestor q p"
      using only_dirs_ancestor[OF d] create_dir_all_only[OF dirs] by blast
    have bound: "bind_listener refuses fs2 p = Inr fs3 \<Longrightarrow> fs3 = fs2(p \<mapsto> SocketNode)" for fs3
      using assms(2) by (auto simp: bind_listener_def split: if_splits option.splits)
    have "fs' = fs2 \<and> r \<noteq> Inr () \<or> r = Inr () \<and> bind_listener refuses fs2 p = Inr fs'"
      using assms(1) by (auto simp: prepare_listener_def Inr d dirs split: sum.splits)
    then show ?thesis using fs1 fs2 bound by auto
  qed
qed

lemma drop_removes:
  assumes "refuses (RemoveFile p) = None" "path_parts p \<noteq> []" "fs p \<noteq> Some DirNode"
  shows "drop_multiplexer refuses fs p = fs(p := None)"
  using assms by (auto simp: drop_multiplexer_def remove_file_def path_exists_def path_is_dir_def)

text \<open>Start and end with concrete files.\<close>

definition demo_args :: args where
  "demo_args = \<lparr>arg_listen = Path True [''run'', ''mux'', ''bus''], arg_container_bus = ''unix:path=/c'', arg_host_bus = None, arg_log_level = ''info''\<rparr>"

definition demo_world :: "happening list \<Rightarrow> (files \<Rightarrow> files) \<Rightarrow> world" where
  "demo_world hs others = \<lparr>w_refuses = (\<lambda>_. None), w_env = demo_env, w_build = (\<lambda>a. Inr (Some '':1.1'')), w_session = Inr (Some '':1.2''),
     w_guid = ''guid'', w_happenings = hs, w_others = others\<rparr>"

lemma demo_prepare:
  "prepare_listener (\<lambda>_. None) Map.empty (Path True [''run'', ''mux'', ''bus'']) =
     (Inr (), [Path True [''run''] \<mapsto> DirNode, Path True [''run'', ''mux''] \<mapsto> DirNode, Path True [''run'', ''mux'', ''bus''] \<mapsto> SocketNode])"
  by (simp add: prepare_listener_def create_dir_all.simps make_dir_def path_exists_def path_is_dir_def dir_ready_def path_parent_def bind_listener_def)

lemma demo_start:
  "start_from (demo_world hs others) demo_args Map.empty =
     (Inr demo_mux, [Path True [''run''] \<mapsto> DirNode, Path True [''run'', ''mux''] \<mapsto> DirNode, Path True [''run'', ''mux'', ''bus''] \<mapsto> SocketNode])"
  by (simp add: start_from_def multiplexer_start_def demo_world_def demo_args_def demo_prepare demo_mux_new)

section \<open>Properties\<close>



text \<open>
  C37. A program that ends removes the socket of another: when a second instance is started on the same
  path while the first one runs, it takes the path over, and the end of the first instance removes
  the file of the second, which goes on serving behind a path that does not exist any more.
\<close>

theorem exit_removes_foreign_socket:
  assumes "path_parts (arg_listen a) \<noteq> []" and "w_refuses w (RemoveFile (arg_listen a)) = None"
    and "start_from w a fs = (Inr mux, fs1)" and "arg_listen a2 = arg_listen a"
    and "start_from w2 a2 fs1 = (Inr mux2, fs2)" and "w_others w fs1 = fs2"
  shows "fs2 (arg_listen a2) = Some SocketNode \<and> snd (main w a fs) (arg_listen a2) = None"
proof -
  have "prepare_listener (w_refuses w2) fs1 (arg_listen a) = (Inr (), fs2)"
    using assms(4,5) by (auto simp: start_from_def multiplexer_start_def split: prod.splits sum.splits)
  then have bound: "fs2 (arg_listen a) = Some SocketNode" using prepare_listener_files[OF _ assms(1)] by blast
  have "snd (main w a fs) = (w_others w fs1)(arg_listen a := None)"
    using drop_removes[of "w_refuses w" "arg_listen a" fs2, OF assms(2,1)] bound by (simp add: main_def assms(3,6) Let_def split: sum.splits)
  with bound show ?thesis by (simp add: assms(4))
qed

theorem exit_removes_foreign_socket_witness:
  "\<exists>fs2. start_from (demo_world [] id) demo_args (snd (start_from (demo_world [] id) demo_args Map.empty)) = (Inr demo_mux, fs2)
     \<and> fs2 (arg_listen demo_args) = Some SocketNode
     \<and> snd (main (demo_world [] (\<lambda>_. fs2)) demo_args Map.empty) (arg_listen demo_args) = None"
proof -
  let ?fs1 = "[Path True [''run''] \<mapsto> DirNode, Path True [''run'', ''mux''] \<mapsto> DirNode, Path True [''run'', ''mux'', ''bus''] \<mapsto> SocketNode]"
  have again: "prepare_listener (\<lambda>_. None) ?fs1 (Path True [''run'', ''mux'', ''bus'']) = (Inr (), ?fs1)"
    by (simp add: prepare_listener_def remove_file_def create_dir_all.simps make_dir_def path_exists_def path_is_dir_def
        dir_ready_def path_parent_def bind_listener_def)
  then have second: "start_from (demo_world [] others) demo_args ?fs1 = (Inr demo_mux, ?fs1)" for others
    by (simp add: start_from_def multiplexer_start_def demo_world_def demo_args_def demo_mux_new)
  have "snd (main (demo_world [] (\<lambda>_. ?fs1)) demo_args Map.empty) (arg_listen demo_args) = None"
    using exit_removes_foreign_socket[OF _ _ demo_start refl second[of id], of "[]" "\<lambda>_. ?fs1"] by (simp add: demo_args_def demo_world_def)
  with second show ?thesis by (simp add: demo_start) (simp add: demo_args_def)
qed

end
