(* ===== verification/Unit_Tests.thy ===== *)
theory Unit_Tests
  imports Name_Queue Match_Rules Serial_Map Portal_Request
begin

text \<open>
  The unit tests of the program, run on the model: each \<open>#[test]\<close> of \<open>name_queue.rs\<close>,
  \<open>match_rules.rs\<close>, \<open>serial_map.rs\<close>, \<open>routing.rs\<close> and \<open>portal_request.rs\<close> is a definition with the
  calls and the assertions of the test, and evaluates to true. A test that sleeps passes the time
  to the operations, which take the current instant as an argument.
\<close>

section \<open>Tests of \<open>name_queue.rs\<close>\<close>

definition org_test :: string where
  "org_test = ''org.example.Test''"

definition request :: "string \<Rightarrow> client_id \<Rightarrow> string \<Rightarrow> u32 \<Rightarrow> name_queue_manager \<Rightarrow> name_queue_manager" where
  "request name c u flags mgr = snd (request_name name c u flags mgr)"

definition test_first_request_becomes_owner :: bool where
  "test_first_request_becomes_owner =
     (let result = fst (request_name org_test 1 '':mux.1'' 0 name_queue_manager_new)
      in rn_reply_code result = PRIMARY_OWNER \<and> rn_forward_to_bus result \<and> rn_replaced_owner result = None)"

definition test_already_owner :: bool where
  "test_already_owner =
     (let mgr = request org_test 1 '':mux.1'' 0 name_queue_manager_new;
          result = fst (request_name org_test 1 '':mux.1'' 0 mgr)
      in rn_reply_code result = ALREADY_OWNER \<and> \<not> rn_forward_to_bus result)"

definition test_queue_without_do_not_queue :: bool where
  "test_queue_without_do_not_queue =
     (let mgr = request org_test 1 '':mux.1'' 0 name_queue_manager_new;
          result = fst (request_name org_test 2 '':mux.2'' 0 mgr)
      in rn_reply_code result = IN_QUEUE \<and> \<not> rn_forward_to_bus result)"

definition test_do_not_queue_flag :: bool where
  "test_do_not_queue_flag =
     (let mgr = request org_test 1 '':mux.1'' 0 name_queue_manager_new;
          result = fst (request_name org_test 2 '':mux.2'' DO_NOT_QUEUE mgr)
      in rn_reply_code result = EXISTS \<and> \<not> rn_forward_to_bus result)"

definition test_replacement_with_allow_replacement :: bool where
  "test_replacement_with_allow_replacement =
     (let mgr = request org_test 1 '':mux.1'' ALLOW_REPLACEMENT name_queue_manager_new;
          (result, mgr) = request_name org_test 2 '':mux.2'' REPLACE_EXISTING mgr
      in rn_reply_code result = PRIMARY_OWNER \<and> rn_forward_to_bus result
         \<and> rn_replaced_owner result = Some '':mux.1''
         \<and> list_queued_owners org_test mgr = ['':mux.2'', '':mux.1''])"

definition test_replacement_denied_without_allow :: bool where
  "test_replacement_denied_without_allow =
     (let mgr = request org_test 1 '':mux.1'' 0 name_queue_manager_new;
          result = fst (request_name org_test 2 '':mux.2'' REPLACE_EXISTING mgr)
      in rn_reply_code result = IN_QUEUE \<and> \<not> rn_forward_to_bus result \<and> rn_replaced_owner result = None)"

definition test_release_by_owner_promotes_waiter :: bool where
  "test_release_by_owner_promotes_waiter =
     (let mgr = request org_test 2 '':mux.2'' 0 (request org_test 1 '':mux.1'' 0 name_queue_manager_new);
          (result, mgr) = release_name org_test 1 mgr
      in rl_reply_code result = RELEASED \<and> \<not> rl_forward_to_bus result
         \<and> rl_new_owner result = Some (2, '':mux.2'')
         \<and> list_queued_owners org_test mgr = ['':mux.2''])"

definition test_release_last_owner :: bool where
  "test_release_last_owner =
     (let mgr = request org_test 1 '':mux.1'' 0 name_queue_manager_new;
          result = fst (release_name org_test 1 mgr)
      in rl_reply_code result = RELEASED \<and> rl_forward_to_bus result \<and> rl_new_owner result = None)"

definition test_release_non_owner :: bool where
  "test_release_non_owner =
     (let mgr = request org_test 1 '':mux.1'' 0 name_queue_manager_new;
          result = fst (release_name org_test 3 mgr)
      in rl_reply_code result = NOT_OWNER \<and> \<not> rl_forward_to_bus result)"

definition test_release_nonexistent :: bool where
  "test_release_nonexistent =
     (let result = fst (release_name ''org.example.Unknown'' 1 name_queue_manager_new)
      in rl_reply_code result = NON_EXISTENT \<and> \<not> rl_forward_to_bus result)"

definition test_release_from_queue :: bool where
  "test_release_from_queue =
     (let mgr = request org_test 3 '':mux.3'' 0 (request org_test 2 '':mux.2'' 0
                  (request org_test 1 '':mux.1'' 0 name_queue_manager_new));
          (result, mgr) = release_name org_test 2 mgr
      in rl_reply_code result = RELEASED \<and> \<not> rl_forward_to_bus result \<and> rl_new_owner result = None
         \<and> list_queued_owners org_test mgr = ['':mux.1'', '':mux.3''])"

definition test_list_queued_owners :: bool where
  "test_list_queued_owners =
     (let mgr = request org_test 3 '':mux.3'' 0 (request org_test 2 '':mux.2'' 0
                  (request org_test 1 '':mux.1'' 0 name_queue_manager_new))
      in list_queued_owners org_test mgr = ['':mux.1'', '':mux.2'', '':mux.3''])"

definition test_list_queued_owners_empty :: bool where
  "test_list_queued_owners_empty = (list_queued_owners ''org.example.Unknown'' name_queue_manager_new = [])"

definition test_remove_client_primary_owner :: bool where
  "test_remove_client_primary_owner =
     (let mgr = request org_test 2 '':mux.2'' 0 (request org_test 1 '':mux.1'' 0 name_queue_manager_new);
          (results, mgr) = remove_client 1 mgr
      in length results = 1 \<and> fst (results ! 0) = org_test \<and> snd (results ! 0) = Some (2, '':mux.2'')
         \<and> list_queued_owners org_test mgr = ['':mux.2''])"

definition test_remove_client_from_queue :: bool where
  "test_remove_client_from_queue =
     (let mgr = request org_test 2 '':mux.2'' 0 (request org_test 1 '':mux.1'' 0 name_queue_manager_new);
          (results, mgr) = remove_client 2 mgr
      in results = [] \<and> list_queued_owners org_test mgr = ['':mux.1''])"

definition test_multiple_names_per_client :: bool where
  "test_multiple_names_per_client =
     (let mgr = request ''org.example.Test1'' 2 '':mux.2'' 0 (request ''org.example.Test2'' 1 '':mux.1'' 0
                  (request ''org.example.Test1'' 1 '':mux.1'' 0 name_queue_manager_new));
          results = fst (remove_client 1 mgr);
          test1_result = find (\<lambda>(n, _). n = ''org.example.Test1'') results;
          test2_result = find (\<lambda>(n, _). n = ''org.example.Test2'') results
      in length results = 2 \<and> test1_result \<noteq> None \<and> test2_result \<noteq> None
         \<and> snd (the test1_result) = Some (2, '':mux.2'') \<and> snd (the test2_result) = None)"

lemma name_queue_tests:
  "test_first_request_becomes_owner" "test_already_owner" "test_queue_without_do_not_queue" "test_do_not_queue_flag"
  "test_replacement_with_allow_replacement" "test_replacement_denied_without_allow"
  "test_release_by_owner_promotes_waiter" "test_release_last_owner" "test_release_non_owner" "test_release_nonexistent"
  "test_release_from_queue" "test_list_queued_owners" "test_list_queued_owners_empty"
  "test_remove_client_primary_owner" "test_remove_client_from_queue" "test_multiple_names_per_client"
  by code_simp+

section \<open>Tests of \<open>match_rules.rs\<close>\<close>

definition quoted :: "string \<Rightarrow> string" where
  "quoted s = quote # s @ [quote]"

definition signal_rule :: string where
  "signal_rule = ''type='' @ quoted ''signal''"

definition example_rule :: string where
  "example_rule = ''interface='' @ quoted ''org.example''"

text \<open>An assertion on the rule that \<open>parse(..).unwrap()\<close> returns; it fails when parsing does.\<close>

definition parsed :: "string \<Rightarrow> (match_rule \<Rightarrow> bool) \<Rightarrow> bool" where
  "parsed s P = (case parse s of Inr rule \<Rightarrow> P rule | Inl _ \<Rightarrow> False)"

definition test_parse_empty_rule :: bool where
  "test_parse_empty_rule = parsed [] (\<lambda>rule. mr_type rule = None \<and> mr_sender rule = None)"

definition test_parse_type_signal :: bool where
  "test_parse_type_signal = parsed signal_rule (\<lambda>rule. mr_type rule = Some ''signal'')"

definition test_parse_multiple_fields :: bool where
  "test_parse_multiple_fields =
     parsed (''type='' @ quoted ''signal'' @ '',interface='' @ quoted ''org.freedesktop.DBus'' @ '',member='' @ quoted ''NameOwnerChanged'')
       (\<lambda>rule. mr_type rule = Some ''signal'' \<and> mr_interface rule = Some ''org.freedesktop.DBus''
          \<and> mr_member rule = Some ''NameOwnerChanged'')"

definition test_parse_sender_interface :: bool where
  "test_parse_sender_interface =
     parsed (''sender='' @ quoted ''org.gnome.Shell'' @ '',interface='' @ quoted ''org.gnome.Shell.Extensions'')
       (\<lambda>rule. mr_sender rule = Some ''org.gnome.Shell'' \<and> mr_interface rule = Some ''org.gnome.Shell.Extensions'')"

definition test_parse_path :: bool where
  "test_parse_path =
     parsed (''path='' @ quoted ''/org/freedesktop/DBus'') (\<lambda>rule. mr_path rule = Some ''/org/freedesktop/DBus'')"

definition test_parse_path_namespace :: bool where
  "test_parse_path_namespace =
     parsed (''path_namespace='' @ quoted ''/org/freedesktop'') (\<lambda>rule. mr_path_namespace rule = Some ''/org/freedesktop'')"

definition test_parse_arg0 :: bool where
  "test_parse_arg0 = parsed (''arg0='' @ quoted ''test.Name'') (\<lambda>rule. hm_get (mr_args rule) 0 = Some ''test.Name'')"

definition test_parse_arg0path :: bool where
  "test_parse_arg0path =
     parsed (''arg0path='' @ quoted ''/org/example'') (\<lambda>rule. hm_get (mr_arg_paths rule) 0 = Some ''/org/example'')"

definition test_parse_complex_rule :: bool where
  "test_parse_complex_rule =
     parsed (''type='' @ quoted ''signal'' @ '',sender='' @ quoted ''org.freedesktop.DBus''
         @ '',interface='' @ quoted ''org.freedesktop.DBus'' @ '',member='' @ quoted ''NameOwnerChanged''
         @ '',path='' @ quoted ''/org/freedesktop/DBus'' @ '',arg0='' @ quoted ''com.example.Service'')
       (\<lambda>rule. mr_type rule = Some ''signal'' \<and> mr_sender rule = Some ''org.freedesktop.DBus''
          \<and> mr_interface rule = Some ''org.freedesktop.DBus'' \<and> mr_member rule = Some ''NameOwnerChanged''
          \<and> mr_path rule = Some ''/org/freedesktop/DBus''
          \<and> hm_get (mr_args rule) 0 = Some ''com.example.Service'')"

definition test_parse_eavesdrop :: bool where
  "test_parse_eavesdrop =
     (parsed (''eavesdrop='' @ quoted ''true'') mr_eavesdrop
      \<and> parsed (''eavesdrop='' @ quoted ''false'') (\<lambda>rule. \<not> mr_eavesdrop rule))"

definition test_parse_invalid_format :: bool where
  "test_parse_invalid_format = (isl (parse ''type''))"

definition test_parse_unclosed_quote :: bool where
  "test_parse_unclosed_quote = (isl (parse (''type='' @ quote # ''signal'')))"

definition test_parse_high_arg_index :: bool where
  "test_parse_high_arg_index =
     (isl (parse (''arg64='' @ quoted ''test'')) \<and> \<not> isl (parse (''arg63='' @ quoted ''test'')))"

definition unwrap_rule :: "string \<Rightarrow> match_rule" where
  "unwrap_rule s = projr (parse s)"

definition test_client_match_rules_add_remove :: bool where
  "test_client_match_rules_add_remove =
     (let rules0 = client_match_rules_new;
          rules1 = rules_add (unwrap_rule signal_rule) rules0;
          rules2 = rules_add (unwrap_rule signal_rule) rules1;
          rules3 = rules_add (unwrap_rule (''type='' @ quoted ''method_call'')) rules2;
          (removed, rules4) = rules_remove signal_rule rules3;
          (removed_again, rules5) = rules_remove signal_rule rules4
      in rules_is_empty rules0 \<and> rules_len rules1 = 1 \<and> rules_len rules2 = 1 \<and> rules_len rules3 = 2
         \<and> removed \<and> rules_len rules4 = 1 \<and> \<not> removed_again \<and> rules_len rules5 = 1)"

definition test_parse_with_whitespace :: bool where
  "test_parse_with_whitespace =
     parsed (''  type='' @ quoted ''signal'' @ '' , interface='' @ quoted ''org.example'' @ ''  '')
       (\<lambda>rule. mr_type rule = Some ''signal'' \<and> mr_interface rule = Some ''org.example'')"

definition test_parse_destination :: bool where
  "test_parse_destination = parsed (''destination='' @ quoted '':1.42'') (\<lambda>rule. mr_destination rule = Some '':1.42'')"

definition test_match_rule_refcount_basic :: bool where
  "test_match_rule_refcount_basic =
     (let (a, rc) = increment ''container'' signal_rule ref_count_new;
          (b, rc) = increment ''container'' signal_rule rc;
          (c, rc) = decrement ''container'' signal_rule rc;
          (d, rc) = decrement ''container'' signal_rule rc;
          (e, rc) = decrement ''container'' signal_rule rc
      in a \<and> \<not> b \<and> \<not> c \<and> d \<and> \<not> e)"

definition test_match_rule_refcount_multiple_buses :: bool where
  "test_match_rule_refcount_multiple_buses =
     (let (a, rc) = increment ''container'' signal_rule ref_count_new;
          (b, rc) = increment ''host'' signal_rule rc;
          (c, rc) = decrement ''container'' signal_rule rc;
          (d, rc) = decrement ''host'' signal_rule rc
      in a \<and> b \<and> c \<and> d)"

definition test_match_rule_refcount_rules_for_bus :: bool where
  "test_match_rule_refcount_rules_for_bus =
     (let rc = snd (increment ''container'' signal_rule ref_count_new);
          rc = snd (increment ''container'' example_rule rc);
          rc = snd (increment ''host'' signal_rule rc);
          container_rules = rules_for_bus ''container'' rc;
          host_rules = rules_for_bus ''host'' rc
      in length container_rules = 2 \<and> signal_rule \<in> set container_rules \<and> example_rule \<in> set container_rules
         \<and> length host_rules = 1 \<and> signal_rule \<in> set host_rules)"

definition test_client_match_rules_rule_strings :: bool where
  "test_client_match_rules_rule_strings =
     (let rules = rules_add (unwrap_rule example_rule) (rules_add (unwrap_rule signal_rule) client_match_rules_new);
          strings = rule_strings rules
      in length strings = 2 \<and> signal_rule \<in> set strings \<and> example_rule \<in> set strings)"

lemma match_rules_tests:
  "test_parse_empty_rule" "test_parse_type_signal" "test_parse_multiple_fields" "test_parse_sender_interface"
  "test_parse_path" "test_parse_path_namespace" "test_parse_arg0" "test_parse_arg0path" "test_parse_complex_rule"
  "test_parse_eavesdrop" "test_parse_invalid_format" "test_parse_unclosed_quote" "test_parse_high_arg_index"
  "test_client_match_rules_add_remove" "test_parse_with_whitespace" "test_parse_destination"
  "test_match_rule_refcount_basic" "test_match_rule_refcount_multiple_buses"
  "test_match_rule_refcount_rules_for_bus" "test_client_match_rules_rule_strings"
  by code_simp+

section \<open>Tests of \<open>serial_map.rs\<close>\<close>

definition origin_is :: "client_id \<Rightarrow> u32 \<Rightarrow> pending_call option \<Rightarrow> bool" where
  "origin_is c s call = (map_option call_origin call = Some (c, s))"

definition test_serial_map_insert_remove :: "instant \<Rightarrow> bool" where
  "test_serial_map_insert_remove now =
     (let map0 = serial_map_insert now Host 100 1 5 serial_map_new;
          (call, map1) = serial_map_remove Host 100 map0;
          (again, map2) = serial_map_remove Host 100 map1
      in origin_is 1 5 call \<and> again = None)"

definition test_serial_map_different_routes :: "instant \<Rightarrow> bool" where
  "test_serial_map_different_routes now =
     (let map0 = serial_map_insert now Container 100 2 10 (serial_map_insert now Host 100 1 5 serial_map_new);
          (host_call, map1) = serial_map_remove Host 100 map0;
          (container_call, map2) = serial_map_remove Container 100 map1
      in origin_is 1 5 host_call \<and> origin_is 2 10 container_call)"

definition test_serial_generator :: bool where
  "test_serial_generator =
     (let (a, gen) = serial_next serial_generator_new; (b, gen) = serial_next gen; (c, gen) = serial_next gen
      in a = 1 \<and> b = 2 \<and> c = 3)"

definition test_serial_map_multiple_clients_same_serial :: "instant \<Rightarrow> bool" where
  "test_serial_map_multiple_clients_same_serial now =
     (let map0 = serial_map_insert now Host 101 2 1 (serial_map_insert now Host 100 1 1 serial_map_new);
          (call1, map1) = serial_map_remove Host 100 map0;
          (call2, map2) = serial_map_remove Host 101 map1
      in origin_is 1 1 call1 \<and> origin_is 2 1 call2)"

definition test_serial_map_collision_scenario :: "instant \<Rightarrow> bool" where
  "test_serial_map_collision_scenario now =
     (serial_map_len (serial_map_insert now Host 1002 2 1 (serial_map_insert now Host 1001 1 1 serial_map_new)) = 2)"

definition test_pending_for_client :: "instant \<Rightarrow> bool" where
  "test_pending_for_client now =
     (let map0 = serial_map_insert now Host 102 1 3 (serial_map_insert now Host 101 1 2 (serial_map_insert now Host 100 1 1 serial_map_new));
          map1 = serial_map_insert now Container 201 2 2 (serial_map_insert now Host 200 2 1 map0)
      in pending_for_client map1 1 = 3 \<and> pending_for_client map1 2 = 2 \<and> pending_for_client map1 999 = 0)"

text \<open>The time of the clean-up is at least the slept time after that of the inserts.\<close>

definition test_cleanup_expired :: "instant \<Rightarrow> instant \<Rightarrow> bool" where
  "test_cleanup_expired now slept =
     (let map0 = serial_map_insert now Host 101 2 10 (serial_map_insert now Host 100 1 5 (serial_map_with_timeout 50));
          (cleaned, map1) = serial_map_cleanup_expired slept map0
      in serial_map_len map0 = 2 \<and> cleaned = 2 \<and> serial_map_len map1 = 0)"

definition test_cleanup_expired_partial :: "instant \<Rightarrow> instant \<Rightarrow> instant \<Rightarrow> bool" where
  "test_cleanup_expired_partial now slept slept_again =
     (let map0 = serial_map_insert now Host 100 1 5 (serial_map_with_timeout 100);
          map1 = serial_map_insert slept Host 101 2 10 map0;
          (cleaned, map2) = serial_map_cleanup_expired slept_again map1;
          (remaining, map3) = serial_map_remove Host 101 map2
      in cleaned = 1 \<and> serial_map_len map2 = 1 \<and> origin_is 2 10 remaining)"

definition test_serial_key_equality :: bool where
  "test_serial_key_equality =
     (let key1 = serial_key_new Host 100; key2 = serial_key_new Host 100;
          key3 = serial_key_new Container 100; key4 = serial_key_new Host 101
      in key1 = key2 \<and> key1 \<noteq> key3 \<and> key1 \<noteq> key4)"

lemmas serial_test_defs = serial_map_insert_def serial_map_remove_def serial_key_new_def serial_map_new_def serial_map_with_timeout_def
  serial_map_len_def serial_map_cleanup_expired_def pending_for_client_def origin_is_def call_origin_def
  hm_insert_def hm_get_def hm_remove_def hm_retain_def Let_def

lemma serial_map_tests:
  "test_serial_map_insert_remove now" "test_serial_map_different_routes now" "test_serial_generator"
  "test_serial_map_multiple_clients_same_serial now" "test_serial_map_collision_scenario now" "test_pending_for_client now"
  "now + 100 \<le> slept \<Longrightarrow> test_cleanup_expired now slept"
  "now + 60 \<le> slept \<Longrightarrow> slept + 60 \<le> slept_again \<Longrightarrow> slept_again < slept + 100 \<Longrightarrow>
     test_cleanup_expired_partial now slept slept_again"
  "test_serial_key_equality"
  by (simp_all add: test_serial_map_insert_remove_def test_serial_map_different_routes_def test_serial_generator_def
      test_serial_map_multiple_clients_same_serial_def test_serial_map_collision_scenario_def test_pending_for_client_def
      test_cleanup_expired_def test_cleanup_expired_partial_def test_serial_key_equality_def serial_test_defs
      serial_next_def fetch_add_def serial_generator_new_def)
     linarith

text \<open>
  Threads that share a generator: a schedule names the thread that runs the next \<open>fetch_add\<close>; a
  thread that got zero repeats its \<open>fetch_add\<close> when it runs again.
\<close>

fun gen_threads :: "nat list \<Rightarrow> (nat \<Rightarrow> bool) \<Rightarrow> serial_generator \<Rightarrow> (nat \<times> u32) list" where
  "gen_threads [] again gen = []"
| "gen_threads (t # ts) again gen =
     (let (v, gen') = fetch_add 1 gen
      in if v = 0 \<and> \<not> again t then gen_threads ts (again(t := True)) gen'
         else (t, v) # gen_threads ts (again(t := False)) gen')"

definition test_serial_generator_thread_safety :: "nat list \<Rightarrow> bool" where
  "test_serial_generator_thread_safety schedule = distinct (map snd (gen_threads schedule (\<lambda>_. False) serial_generator_new))"

lemma gen_threads_values:
  "(u, v) \<in> set (gen_threads ts again gen) \<Longrightarrow> \<exists>k < length ts. v = counter gen + of_nat k"
proof (induction ts arbitrary: again gen)
  case (Cons t ts)
  then consider "v = counter gen" | again' where "(u, v) \<in> set (gen_threads ts again' (gen\<lparr>counter := counter gen + 1\<rparr>))"
    by (auto simp: fetch_add_def split: if_splits)
  then show ?case
  proof cases
    case 2
    then obtain k where "k < length ts" "v = counter gen + 1 + of_nat k" using Cons.IH by fastforce
    then show ?thesis by (intro exI[of _ "Suc k"]) simp
  qed auto
qed simp

lemma gen_threads_distinct:
  "length ts \<le> 2 ^ 32 \<Longrightarrow> distinct (map snd (gen_threads ts again gen))"
proof (induction ts arbitrary: again gen)
  case (Cons t ts)
  let ?gen = "gen\<lparr>counter := counter gen + 1\<rparr>"
  have "counter gen \<noteq> counter gen + 1 + of_nat k" if "k < length ts" for k
  proof
    assume "counter gen = counter gen + 1 + of_nat k"
    then have "of_nat (Suc k) = (0 :: u32)" by (simp add: algebra_simps)
    then have "2 ^ 32 dvd Suc k" by (simp add: word_of_nat_eq_0_iff del: of_nat_Suc)
    then show False using Cons.prems that by (auto dest: dvd_imp_le)
  qed
  then have "counter gen \<notin> snd ` set (gen_threads ts again' ?gen)" for again'
    using gen_threads_values[of _ _ ts again' ?gen] by fastforce
  moreover have "distinct (map snd (gen_threads ts again' ?gen))" for again' using Cons by simp
  moreover have "gen_threads (t # ts) again gen =
      (if counter gen = 0 \<and> \<not> again t then gen_threads ts (again(t := True)) ?gen
       else (t, counter gen) # gen_threads ts (again(t := False)) ?gen)"
    by (simp add: fetch_add_def)
  ultimately show ?case by (metis (no_types, lifting) distinct.simps(2) list.simps(9) list.set_map snd_conv)
qed simp

lemma serial_generator_thread_safety: "length schedule \<le> 2 ^ 32 \<Longrightarrow> test_serial_generator_thread_safety schedule"
  by (simp add: test_serial_generator_thread_safety_def gen_threads_distinct)

section \<open>Tests of \<open>routing.rs\<close>\<close>

definition test_container_priority :: bool where
  "test_container_priority =
     (let table = on_host_name_change ''org.example.Service'' [] '':1.100'' routing_table_new;
          table = on_container_name_change ''org.example.Service'' [] '':1.50'' table
      in route_for table ''org.example.Service'' = Container)"

definition test_host_fallback :: bool where
  "test_host_fallback =
     (route_for (on_host_name_change ''org.example.HostOnly'' [] '':1.100'' routing_table_new) ''org.example.HostOnly'' = Host)"

definition test_unknown_defaults_to_host :: bool where
  "test_unknown_defaults_to_host = (route_for routing_table_new ''org.example.Unknown'' = Host)"

definition test_unique_name_routing :: bool where
  "test_unique_name_routing =
     (let table = register_unique_name '':1.100'' Host (register_unique_name '':1.50'' Container routing_table_new)
      in route_for table '':1.50'' = Container \<and> route_for table '':1.100'' = Host)"

definition test_name_release :: bool where
  "test_name_release =
     (let table = on_container_name_change ''org.example.Service'' [] '':1.50'' routing_table_new;
          table' = on_container_name_change ''org.example.Service'' '':1.50'' [] table
      in route_for table ''org.example.Service'' = Container \<and> route_for table' ''org.example.Service'' = Host)"

lemma routing_tests:
  "test_container_priority" "test_host_fallback" "test_unknown_defaults_to_host" "test_unique_name_routing" "test_name_release"
  by code_simp+

section \<open>Tests of \<open>portal_request.rs\<close>\<close>

definition test_tracker_basic :: "instant \<Rightarrow> bool" where
  "test_tracker_basic now =
     (let path = ''/org/freedesktop/portal/desktop/request/1_156/token123'';
          tracker = tracker_register now path 42 tracker_new;
          (found, tracker) = lookup_and_remove path tracker;
          (again, tracker) = lookup_and_remove path tracker
      in found = Some 42 \<and> again = None)"

definition test_tracker_remove_client :: "instant \<Rightarrow> bool" where
  "test_tracker_remove_client now =
     (let tracker = tracker_register now ''/path/3'' 2 (tracker_register now ''/path/2'' 1 (tracker_register now ''/path/1'' 1 tracker_new));
          (removed, tracker) = tracker_remove_client 1 tracker;
          (first, tracker) = lookup_and_remove ''/path/1'' tracker;
          (second, tracker) = lookup_and_remove ''/path/2'' tracker;
          (third, tracker) = lookup_and_remove ''/path/3'' tracker
      in removed = 2 \<and> first = None \<and> second = None \<and> third = Some 2)"

lemma portal_request_tests: "test_tracker_basic now" "test_tracker_remove_client now"
  by (simp_all add: test_tracker_basic_def test_tracker_remove_client_def tracker_new_def tracker_register_def lookup_and_remove_def
      tracker_remove_client_def hm_insert_def hm_get_def hm_remove_def hm_retain_def Let_def)

end
