(* ===== verification/Unit_Tests_Messages.thy ===== *)
theory Unit_Tests_Messages
  imports Message_Rewriting Client_Conn Multiplexer
begin

text \<open>
  The unit tests of \<open>message.rs\<close>, \<open>auth.rs\<close>, \<open>client.rs\<close> and \<open>multiplexer.rs\<close> on the model. They go
  through zbus and hex, so they hold for every interface that keeps the documented laws: the
  message under test is any message with the fields the test gives it, and a body is compared by
  its bytes and its signature.
\<close>

section \<open>Tests of \<open>message.rs\<close>\<close>

definition unwrapped :: "'e + 'a \<Rightarrow> ('a \<Rightarrow> bool) \<Rightarrow> bool" where
  "unwrapped r P = (case r of Inr x \<Rightarrow> P x | Inl _ \<Rightarrow> False)"

lemma unwrapped_iff: "unwrapped r P \<longleftrightarrow> (\<exists>x. r = Inr x \<and> P x)"
  by (simp add: unwrapped_def split: sum.splits)

definition create_test_method_call :: "zbus_api \<Rightarrow> message \<Rightarrow> bool" where
  "create_test_method_call Z msg \<longleftrightarrow> is_method_call msg \<and> path_str msg = Some ''/org/test/Path'' \<and> member_str msg = Some ''TestMethod''
     \<and> destination_str msg = Some ''org.test.Destination'' \<and> interface_str msg = Some ''org.test.Interface''
     \<and> reply_serial msg = None \<and> serial msg \<noteq> 0
     \<and> z_from_bytes Z (announced_endian (m_data msg)) (m_data msg) = Inr msg"

definition create_test_method_return :: "zbus_api \<Rightarrow> message \<Rightarrow> body_value \<Rightarrow> error + message" where
  "create_test_method_return Z request body =
     (case z_method_return Z (msg_header request) of Inl e \<Rightarrow> Inl (DBus e) | Inr b \<Rightarrow> map_err DBus (z_build Z b body))"

definition same_body :: "message \<Rightarrow> message \<Rightarrow> bool" where
  "same_body a b \<longleftrightarrow> m_body a = m_body b \<and> h_signature a = h_signature b"

definition test_clone_message_with_serial :: "zbus_api \<Rightarrow> message \<Rightarrow> bool" where
  "test_clone_message_with_serial Z original =
     unwrapped (clone_message_with_serial Z original 9999) (\<lambda>cloned.
       serial cloned = 9999 \<and> serial cloned \<noteq> serial original
       \<and> destination_str cloned = destination_str original \<and> interface_str cloned = interface_str original
       \<and> member_str cloned = member_str original \<and> path_str cloned = path_str original
       \<and> same_body original cloned)"

definition test_clone_message_with_serial_zero_rejected :: "zbus_api \<Rightarrow> message \<Rightarrow> bool" where
  "test_clone_message_with_serial_zero_rejected Z original = isl (clone_message_with_serial Z original 0)"

definition test_clone_message_preserves_message_type :: "zbus_api \<Rightarrow> message \<Rightarrow> bool" where
  "test_clone_message_preserves_message_type Z original =
     unwrapped (clone_message_with_serial Z original 5000) (\<lambda>cloned. is_method_call original \<and> is_method_call cloned)"

definition test_clone_reply_with_serial :: "zbus_api \<Rightarrow> message \<Rightarrow> bool" where
  "test_clone_reply_with_serial Z original_reply =
     unwrapped (clone_reply_with_serial Z original_reply 7777) (\<lambda>cloned_reply.
       reply_serial cloned_reply = Some 7777 \<and> reply_serial cloned_reply \<noteq> reply_serial original_reply
       \<and> is_method_return cloned_reply \<and> same_body original_reply cloned_reply)"

definition test_clone_reply_with_serial_zero_rejected :: "zbus_api \<Rightarrow> message \<Rightarrow> bool" where
  "test_clone_reply_with_serial_zero_rejected Z reply = isl (clone_reply_with_serial Z reply 0)"

definition test_clone_message_different_serials :: "zbus_api \<Rightarrow> message \<Rightarrow> bool" where
  "test_clone_message_different_serials Z original =
     unwrapped (clone_message_with_serial Z original 100) (\<lambda>clone1.
     unwrapped (clone_message_with_serial Z original 200) (\<lambda>clone2.
     unwrapped (clone_message_with_serial Z original 300) (\<lambda>clone3.
       serial clone1 = 100 \<and> serial clone2 = 200 \<and> serial clone3 = 300
       \<and> destination_str clone1 = destination_str clone2 \<and> destination_str clone2 = destination_str clone3)))"

definition test_message_ext_serial :: "message \<Rightarrow> bool" where
  "test_message_ext_serial msg = (serial msg > 0)"

definition test_message_ext_is_method_call :: "message \<Rightarrow> bool" where
  "test_message_ext_is_method_call msg =
     (is_method_call msg \<and> \<not> is_method_return msg \<and> \<not> is_error msg \<and> \<not> is_signal msg)"

definition test_message_ext_is_method_return :: "message \<Rightarrow> bool" where
  "test_message_ext_is_method_return reply =
     (is_method_return reply \<and> \<not> is_method_call reply \<and> \<not> is_error reply \<and> \<not> is_signal reply)"

definition test_message_ext_reply_serial :: "message \<Rightarrow> message \<Rightarrow> bool" where
  "test_message_ext_reply_serial request reply =
     (reply_serial reply = Some (serial request) \<and> reply_serial request = None)"

definition test_is_dbus_daemon_call :: "message \<Rightarrow> message \<Rightarrow> bool" where
  "test_is_dbus_daemon_call daemon_msg regular_call =
     (is_dbus_daemon_call daemon_msg \<and> \<not> is_dbus_daemon_call regular_call)"

definition test_method_return_builder :: "zbus_api \<Rightarrow> message \<Rightarrow> bool" where
  "test_method_return_builder Z request =
     unwrapped (mrb_build Z (mrb_set_destination '':1.123'' (method_return_builder_new request)) (StrBody ''test response'')) (\<lambda>reply.
       is_method_return reply \<and> destination_str reply = Some '':1.123'' \<and> reply_serial reply = Some (serial request))"

definition test_error_builder :: "zbus_api \<Rightarrow> message \<Rightarrow> bool" where
  "test_error_builder Z request =
     unwrapped (eb_build Z (eb_set_destination '':1.123'' (error_builder_new request FAILED)) ''Something went wrong'') (\<lambda>e.
       is_error e \<and> destination_str e = Some '':1.123'' \<and> reply_serial e = Some (serial request))"

lemma cloned_call:
  assumes "wire_laws Z" "create_test_method_call Z original" "s \<noteq> 0"
  obtains cloned where "clone_message_with_serial Z original s = Inr cloned" "h_serial cloned = s"
    "h_type cloned = h_type original" "h_destination cloned = h_destination original" "h_interface cloned = h_interface original"
    "h_member cloned = h_member original" "h_path cloned = h_path original" "same_body original cloned"
proof -
  obtain m where m: "clone_message_with_serial Z original s = Inr m" "h_serial m = s"
    and eq: "m\<lparr>h_serial := h_serial original, m_data := m_data original\<rparr> = original"
    using clone_message_rewrites[OF assms(1) _ assms(3), of original] assms(2) unfolding create_test_method_call_def by blast
  have "h_type m = h_type original" using arg_cong[OF eq, of h_type] by simp
  moreover have "h_destination m = h_destination original" using arg_cong[OF eq, of h_destination] by simp
  moreover have "h_interface m = h_interface original" using arg_cong[OF eq, of h_interface] by simp
  moreover have "h_member m = h_member original" using arg_cong[OF eq, of h_member] by simp
  moreover have "h_path m = h_path original" using arg_cong[OF eq, of h_path] by simp
  moreover have "m_body original = m_body m" using arg_cong[OF eq, of m_body] by simp
  moreover from this have "same_body original m" using arg_cong[OF eq, of h_signature] by (simp add: same_body_def)
  ultimately show thesis by (intro that[OF m])
qed

lemma clone_message_tests:
  assumes "wire_laws Z" and "create_test_method_call Z original" and "serial original \<noteq> 9999"
  shows "test_clone_message_with_serial Z original" "test_clone_message_with_serial_zero_rejected Z original"
    "test_clone_message_preserves_message_type Z original" "test_clone_message_different_serials Z original"
proof -
  note clone = cloned_call[OF assms(1,2)]
  show "test_clone_message_with_serial Z original"
    unfolding test_clone_message_with_serial_def by (rule clone[of 9999]) (use assms(3) in \<open>auto simp: unwrapped_iff mux_simps\<close>)
  show "test_clone_message_with_serial_zero_rejected Z original"
    by (simp add: test_clone_message_with_serial_zero_rejected_def clone_message_with_serial_def)
  show "test_clone_message_preserves_message_type Z original"
    unfolding test_clone_message_preserves_message_type_def
    by (rule clone[of 5000]) (use assms(2) in \<open>auto simp: unwrapped_iff mux_simps create_test_method_call_def\<close>)
  show "test_clone_message_different_serials Z original"
    unfolding test_clone_message_different_serials_def
    by (rule clone[of 100], simp, rule clone[of 200], simp, rule clone[of 300]) (auto simp: unwrapped_iff mux_simps)
qed

lemma method_return_fields:
  assumes "builder_laws Z" and "create_test_method_return Z request body = Inr reply"
  shows "is_method_return reply" "h_reply_serial reply = Some (h_serial request)"
proof -
  obtain h where h: "z_method_return Z (msg_header request) = Inr h" "z_build Z h body = Inr reply"
    using assms(2) by (auto simp: create_test_method_return_def split: sum.splits)
  have "(msg_header reply)\<lparr>h_signature := h_signature h\<rparr> = h" by (rule builder_lawsD(8)[OF assms(1) h(2)])
  from arg_cong[OF this, of h_type] arg_cong[OF this, of h_reply_serial]
  have "h_type (msg_header reply) = h_type h" "h_reply_serial (msg_header reply) = h_reply_serial h" by simp_all
  then show "is_method_return reply" "h_reply_serial reply = Some (h_serial request)"
    using builder_lawsD(6)[OF assms(1) h(1)] by (simp_all add: is_method_return_def header.truncate_def)
qed

lemma clone_reply_tests:
  assumes "builder_laws Z" and "create_test_method_return Z request body = Inr reply" and "serial request \<noteq> 7777"
    and "clone_reply_with_serial Z reply 7777 = Inr cloned"
  shows "test_clone_reply_with_serial Z reply" "test_clone_reply_with_serial_zero_rejected Z reply"
proof -
  note ret = method_return_fields[OF assms(1,2)]
  note head = clone_reply_rewrites(1)[OF assms(1,4)]
  from arg_cong[OF head, of h_type] arg_cong[OF head, of h_reply_serial] arg_cong[OF head, of h_signature]
  have "h_type cloned = h_type reply" "h_reply_serial cloned = Some 7777" "h_signature cloned = h_signature reply"
    by (simp_all add: header.truncate_def)
  then show "test_clone_reply_with_serial Z reply"
    using ret assms(3) clone_reply_rewrites(2)[OF assms(1,4)]
    by (auto simp: test_clone_reply_with_serial_def unwrapped_iff assms(4) mux_simps same_body_def)
  show "test_clone_reply_with_serial_zero_rejected Z reply"
    by (simp add: test_clone_reply_with_serial_zero_rejected_def clone_reply_with_serial_def)
qed

lemma message_ext_tests:
  assumes "builder_laws Z" and "create_test_method_call Z request" and "create_test_method_return Z request body = Inr reply"
    and "destination_str daemon_msg = Some ''org.freedesktop.DBus''"
  shows "test_message_ext_serial request" "test_message_ext_is_method_call request" "test_message_ext_is_method_return reply"
    "test_message_ext_reply_serial request reply" "test_is_dbus_daemon_call daemon_msg request"
  using method_return_fields[OF assms(1,3)] assms(2,4)
  by (auto simp: test_message_ext_serial_def test_message_ext_is_method_call_def test_message_ext_is_method_return_def
      test_message_ext_reply_serial_def test_is_dbus_daemon_call_def create_test_method_call_def mux_simps word_gt_0)

lemma builder_tests:
  assumes "builder_laws Z"
  shows "mrb_build Z (mrb_set_destination '':1.123'' (method_return_builder_new request)) (StrBody ''test response'') = Inr reply \<Longrightarrow>
      test_method_return_builder Z request"
    "eb_build Z (eb_set_destination '':1.123'' (error_builder_new request FAILED)) ''Something went wrong'' = Inr e \<Longrightarrow>
      test_error_builder Z request"
  by (auto simp: test_method_return_builder_def test_error_builder_def unwrapped_iff mux_simps
      dest: mrb_build_fields[OF assms] eb_build_fields[OF assms])

section \<open>Tests of \<open>auth.rs\<close>, \<open>client.rs\<close> and \<open>multiplexer.rs\<close>\<close>

definition test_parse_hex_uid :: "auth_env \<Rightarrow> bool" where
  "test_parse_hex_uid A = (parse_hex_uid A (ae_hex_encode A (bytes_of ''1000'')) = Inr 1000)"

definition test_encode_uid :: "auth_env \<Rightarrow> bool" where
  "test_encode_uid A =
     unwrapped (ae_hex_decode A (encode_uid A 1000)) (\<lambda>decoded. unwrapped (from_utf8 decoded) (\<lambda>uid_str. uid_str = ''1000''))"

definition test_client_id_generation :: "u64 \<Rightarrow> bool" where
  "test_client_id_generation ids =
     (let (id1, ids) = next_client_id ids; (id2, ids) = next_client_id ids in id1 \<noteq> id2)"

definition test_client_credentials_clone :: bool where
  "test_client_credentials_clone =
     (let creds = \<lparr>cc_uid = 1000, cc_pid = Some 12345, cc_gid = 1000\<rparr>; cloned = creds
      in cc_uid cloned = 1000 \<and> cc_pid cloned = Some 12345 \<and> cc_gid cloned = 1000)"

definition test_client_credentials_without_pid :: bool where
  "test_client_credentials_without_pid =
     (let creds = \<lparr>cc_uid = 1000, cc_pid = None, cc_gid = 1000\<rparr>
      in cc_uid creds = 1000 \<and> cc_pid creds = None \<and> cc_gid creds = 1000)"

lemma show_1000: "show_nat (unat (1000 :: u32)) = ''1000''"
  by code_simp

lemma auth_tests:
  assumes "hex_laws A"
  shows "test_parse_hex_uid A" "test_encode_uid A"
proof -
  have enc: "ae_hex_encode A (bytes_of ''1000'') = encode_uid A 1000" unfolding encode_uid_def show_1000 ..
  show "test_parse_hex_uid A" unfolding test_parse_hex_uid_def enc by (rule parse_encode_uid[OF assms])
  have "from_utf8 (bytes_of ''1000'') = Inr ''1000''" by code_simp
  then show "test_encode_uid A"
    using assms unfolding test_encode_uid_def encode_uid_def show_1000 by (simp add: hex_laws_def unwrapped_iff)
qed

lemma client_tests: "test_client_id_generation ids" "test_client_credentials_clone" "test_client_credentials_without_pid"
  by (simp_all add: test_client_id_generation_def next_client_id_def test_client_credentials_clone_def
      test_client_credentials_without_pid_def)

end
